(* ===== verification/Prelude.thy ===== *)
theory Prelude
  imports Complex_Main "HOL-Library.Product_Lexorder" "HOL-Library.List_Lexorder"
    "HOL-Library.Char_ord" "HOL-Library.Multiset" "HOL-Library.Sublist"
begin

text \<open>
  Shared vocabulary of the development. The Python sources signal every refusal by an
  exception; the model returns it as the left summand of a result type, in the order in
  which the code evaluates its checks. The theory also holds the list and option lemmas
  that the component theories use and the fact collections their proofs draw on.
\<close>

section \<open>Results\<close>

text \<open>
  The exceptions the modelled modules raise: their own \<open>ValueError\<close> subclasses, with the
  message of the raise statement, and the exceptions of the language itself.
\<close>

datatype py_error =
    KernelInputError string
  | OutcomeEngineError string
  | PlanningError string
  | CorrelationEngineError string
  | TargetResolutionError string
  | NotificationContractError string
  | RuntimeError string
  | RecordError string
  | IntegrityError
  | ValueError string
  | KeyError
  | IndexError
  | DivisionByZero
  | StatisticsError
  | InvalidOperation

type_synonym 'a res = "py_error + 'a"

named_theorems res_simps \<open>elimination of the result type\<close>

definition rbind :: "'a res \<Rightarrow> ('a \<Rightarrow> 'b res) \<Rightarrow> 'b res" where
  "rbind m f = (case m of Inl e \<Rightarrow> Inl e | Inr x \<Rightarrow> f x)"

definition rguard :: "bool \<Rightarrow> py_error \<Rightarrow> unit res" where
  "rguard c e = (if c then Inl e else Inr ())"

definition returns :: "'a res \<Rightarrow> bool" where
  "returns m = (case m of Inl _ \<Rightarrow> False | Inr _ \<Rightarrow> True)"

lemma rbind_simps [simp]:
  "rbind (Inl e) f = Inl e"
  "rbind (Inr x) f = f x"
  by (simp_all add: rbind_def)

lemma rguard_simps [simp]:
  "rguard True e = Inl e"
  "rguard False e = Inr ()"
  by (simp_all add: rguard_def)

lemma returns_simps [simp]:
  "returns (Inl e) = False"
  "returns (Inr x) = True"
  by (simp_all add: returns_def)

lemma returns_iff: "returns m \<longleftrightarrow> (\<exists>x. m = Inr x)"
  by (cases m) auto

lemma rbind_Inr [res_simps]: "rbind m f = Inr y \<longleftrightarrow> (\<exists>x. m = Inr x \<and> f x = Inr y)"
  by (cases m) auto

lemma rbind_Inl [res_simps]:
  "rbind m f = Inl e \<longleftrightarrow> m = Inl e \<or> (\<exists>x. m = Inr x \<and> f x = Inl e)"
  by (cases m) auto

lemma rguard_Inr [res_simps]: "rguard c e = Inr u \<longleftrightarrow> \<not> c"
  by (cases u) (simp add: rguard_def)

lemma rguard_Inl [res_simps]: "rguard c e = Inl e' \<longleftrightarrow> c \<and> e' = e"
  by (auto simp: rguard_def)

lemma rguard_bind: "rbind (rguard c e) f = (if c then Inl e else f ())"
  by (simp add: rguard_def)

lemma rbind_assoc: "rbind (rbind m f) g = rbind m (\<lambda>x. rbind (f x) g)"
  by (cases m) auto

text \<open>A comprehension or loop whose body may raise stops at the first exception.\<close>

fun rmap :: "('a \<Rightarrow> 'b res) \<Rightarrow> 'a list \<Rightarrow> 'b list res" where
  "rmap f [] = Inr []"
| "rmap f (x # xs) = rbind (f x) (\<lambda>y. rbind (rmap f xs) (\<lambda>ys. Inr (y # ys)))"

fun rfold :: "('a \<Rightarrow> 's \<Rightarrow> 's res) \<Rightarrow> 'a list \<Rightarrow> 's \<Rightarrow> 's res" where
  "rfold f [] s = Inr s"
| "rfold f (x # xs) s = rbind (f x s) (rfold f xs)"

text \<open>A generator inside \<open>any\<close> or \<open>all\<close> whose condition may raise.\<close>

fun rall :: "('a \<Rightarrow> bool res) \<Rightarrow> 'a list \<Rightarrow> bool res" where
  "rall f [] = Inr True"
| "rall f (x # xs) = rbind (f x) (\<lambda>b. if b then rall f xs else Inr False)"

text \<open>The short-circuit conjunction whose right operand may raise.\<close>

definition rand :: "bool \<Rightarrow> bool res \<Rightarrow> bool res" where
  "rand a m = (if a then m else Inr False)"

lemma rand_Inr: "rand a m = Inr b \<longleftrightarrow> (a \<and> m = Inr b) \<or> (\<not> a \<and> \<not> b)"
  by (auto simp: rand_def)

lemma rmap_Inr_length: "rmap f xs = Inr ys \<Longrightarrow> length ys = length xs"
  by (induction xs arbitrary: ys) (auto simp: res_simps)

lemma rmap_Inr_nth:
  "rmap f xs = Inr ys \<Longrightarrow> i < length xs \<Longrightarrow> f (xs ! i) = Inr (ys ! i)"
proof (induction xs arbitrary: ys i)
  case (Cons x xs)
  then show ?case by (cases i) (auto simp: res_simps)
qed simp

lemma rmap_Inr_set: "rmap f xs = Inr ys \<Longrightarrow> y \<in> set ys \<Longrightarrow> \<exists>x \<in> set xs. f x = Inr y"
  by (induction xs arbitrary: ys) (auto simp: res_simps)

lemma rmap_total: "(\<And>x. x \<in> set xs \<Longrightarrow> f x = Inr (g x)) \<Longrightarrow> rmap f xs = Inr (map g xs)"
  by (induction xs) auto

lemma rfold_append: "rfold f (xs @ ys) s = rbind (rfold f xs s) (rfold f ys)"
  by (induction xs arbitrary: s) (auto simp: rbind_def split: sum.splits)

lemma rfold_inv:
  assumes "rfold f xs s = Inr t" and "P s"
    and "\<And>x s t. x \<in> set xs \<Longrightarrow> P s \<Longrightarrow> f x s = Inr t \<Longrightarrow> P t"
  shows "P t"
  using assms
proof (induction xs arbitrary: s)
  case (Cons x xs)
  from Cons.prems(1) obtain u where u: "f x s = Inr u" "rfold f xs u = Inr t"
    by (auto simp: res_simps)
  from Cons.prems(2,3) u(1) have "P u" by auto
  with Cons.IH [OF u(2)] Cons.prems(3) show ?case by auto
qed simp

lemma rfold_returns:
  assumes "P s" and "\<And>x s. x \<in> set xs \<Longrightarrow> P s \<Longrightarrow> \<exists>t. f x s = Inr t \<and> P t"
  shows "\<exists>t. rfold f xs s = Inr t \<and> P t"
  using assms
proof (induction xs arbitrary: s)
  case (Cons x xs)
  then obtain u where "f x s = Inr u" "P u" by fastforce
  with Cons show ?case by auto
qed simp

section \<open>Python sequences\<close>

text \<open>
  \<open>max\<close> and \<open>min\<close> over a non-empty iterable; on an empty one Python raises, and the
  callers of the model test emptiness first, as the code does.
\<close>

fun list_max :: "'a::linorder list \<Rightarrow> 'a" where
  "list_max [] = undefined"
| "list_max (x # xs) = fold max xs x"

fun list_min :: "'a::linorder list \<Rightarrow> 'a" where
  "list_min [] = undefined"
| "list_min (x # xs) = fold min xs x"

lemma list_max_Max: "xs \<noteq> [] \<Longrightarrow> list_max xs = Max (set xs)"
  by (cases xs) (simp, simp only: list_max.simps Max.set_eq_fold)

lemma list_min_Min: "xs \<noteq> [] \<Longrightarrow> list_min xs = Min (set xs)"
  by (cases xs) (simp, simp only: list_min.simps Min.set_eq_fold)

lemma list_max_in: "xs \<noteq> [] \<Longrightarrow> list_max xs \<in> set xs"
  by (simp add: list_max_Max)

lemma list_min_in: "xs \<noteq> [] \<Longrightarrow> list_min xs \<in> set xs"
  by (simp add: list_min_Min)

lemma list_max_ge: "x \<in> set xs \<Longrightarrow> x \<le> list_max xs"
  by (cases "xs = []") (auto simp: list_max_Max)

lemma list_min_le: "x \<in> set xs \<Longrightarrow> list_min xs \<le> x"
  by (cases "xs = []") (auto simp: list_min_Min)

text \<open>\<open>min(items, key=..., default=None)\<close>: the first item with the least key.\<close>

fun min_by :: "('a \<Rightarrow> 'k::linorder) \<Rightarrow> 'a list \<Rightarrow> 'a option" where
  "min_by k [] = None"
| "min_by k (x # xs) =
     (case min_by k xs of None \<Rightarrow> Some x | Some y \<Rightarrow> Some (if k y < k x then y else x))"

lemma min_by_None [simp]: "min_by k xs = None \<longleftrightarrow> xs = []"
  by (cases xs) (auto split: option.splits)

lemma min_by_Some: "min_by k xs = Some x \<Longrightarrow> x \<in> set xs \<and> (\<forall>y \<in> set xs. k x \<le> k y)"
proof (induction xs arbitrary: x)
  case (Cons a xs)
  show ?case
  proof (cases "min_by k xs")
    case None
    with Cons.prems show ?thesis by simp
  next
    case (Some y)
    with Cons.IH [of y] Cons.prems show ?thesis by (auto split: if_splits)
  qed
qed simp

text \<open>\<open>xs[-n:]\<close> for a positive \<open>n\<close>.\<close>

definition last_n :: "nat \<Rightarrow> 'a list \<Rightarrow> 'a list" where
  "last_n n xs = drop (length xs - n) xs"

lemma set_last_n: "set (last_n n xs) \<subseteq> set xs"
  by (auto simp: last_n_def dest: in_set_dropD)

lemma length_last_n [simp]: "length (last_n n xs) = min n (length xs)"
  by (simp add: last_n_def)

text \<open>\<open>itertools.pairwise\<close>.\<close>

fun pairwise :: "'a list \<Rightarrow> ('a \<times> 'a) list" where
  "pairwise (x # y # xs) = (x, y) # pairwise (y # xs)"
| "pairwise _ = []"

lemma set_pairwise: "(x, y) \<in> set (pairwise xs) \<Longrightarrow> x \<in> set xs \<and> y \<in> set xs"
  by (induction xs rule: pairwise.induct) auto

text \<open>Dictionaries whose iteration order matters: association lists in insertion order.\<close>

definition aput :: "'k \<Rightarrow> 'v \<Rightarrow> ('k \<times> 'v) list \<Rightarrow> ('k \<times> 'v) list" where
  "aput k v al =
     (if k \<in> fst ` set al then map (\<lambda>(k', v'). if k' = k then (k', v) else (k', v')) al
      else al @ [(k, v)])"

lemma map_of_aput: "map_of (aput k v al) = (map_of al)(k \<mapsto> v)"
proof -
  have upd: "map_of (map (\<lambda>(k', v'). if k' = k then (k', v) else (k', v')) al) =
      (if k \<in> fst ` set al then (map_of al)(k \<mapsto> v) else map_of al)" for al
    by (induction al) (auto simp: fun_eq_iff)
  show ?thesis
  proof (cases "k \<in> fst ` set al")
    case True
    then show ?thesis by (simp add: aput_def upd)
  next
    case False
    then have "map_of al k = None" by (simp add: map_of_eq_None_iff)
    with False show ?thesis
      by (auto simp: aput_def fun_eq_iff map_add_def split: option.splits)
  qed
qed

lemma keys_aput:
  "map fst (aput k v al) = (if k \<in> fst ` set al then map fst al else map fst al @ [k])"
  by (auto simp: aput_def)

lemma distinct_aput: "distinct (map fst al) \<Longrightarrow> distinct (map fst (aput k v al))"
  by (auto simp: keys_aput)

end
