(* ===== verification/Decimal_Arith.thy ===== *)
theory Decimal_Arith
  imports Prelude
begin

text \<open>
  Finite values of Python's \<open>decimal.Decimal\<close>. A value is a rational number; every
  arithmetic operation computes the exact result and rounds it to the precision of the
  context, 28 significant digits in the default context, half to even. Comparisons are
  exact. The exponent of the representation (\<open>1.0\<close> against \<open>1.00\<close>) is not part of a
  value, as it is not part of \<open>==\<close> in Python. NaN, the infinities and the exponent limits
  of the context (\<open>Emin\<close>, \<open>Emax\<close>) are not modelled.
\<close>

section \<open>Rounding to a number of significant digits\<close>

type_synonym decimal = rat

fun ndigits :: "nat \<Rightarrow> nat" where
  "ndigits n = (if n = 0 then 0 else Suc (ndigits (n div 10)))"

declare ndigits.simps [simp del]

definition round_half_even :: "rat \<Rightarrow> int" where
  "round_half_even x =
     (let f = \<lfloor>x\<rfloor>; d = x - of_int f
      in if d < 1/2 then f else if 1/2 < d then f + 1 else if even f then f else f + 1)"

text \<open>\<open>Decimal.adjusted()\<close> of a non-zero value: the exponent of its leading digit.\<close>

definition adjusted :: "rat \<Rightarrow> int" where
  "adjusted x =
     (if 1 \<le> \<bar>x\<bar> then int (ndigits (nat \<lfloor>\<bar>x\<bar>\<rfloor>)) - 1
      else - int (ndigits (nat (\<lceil>1 / \<bar>x\<bar>\<rceil> - 1))))"

definition rnd_prec :: "nat \<Rightarrow> rat \<Rightarrow> rat" where
  "rnd_prec p x =
     (if x = 0 then 0
      else let e = adjusted x - int p + 1
           in of_int (round_half_even (x * 10 powi (- e))) * 10 powi e)"

lemma ndigits_bounds: "n < 10 ^ ndigits n \<and> (0 < n \<longrightarrow> 10 ^ (ndigits n - 1) \<le> n)"
proof (induction n rule: ndigits.induct)
  case (1 n)
  show ?case
  proof (cases "n = 0")
    case True
    then show ?thesis by (simp add: ndigits.simps)
  next
    case False
    have eq: "ndigits n = Suc (ndigits (n div 10))"
      using False by (simp add: ndigits.simps [of n])
    have ih: "n div 10 < 10 ^ ndigits (n div 10)"
      "0 < n div 10 \<longrightarrow> 10 ^ (ndigits (n div 10) - 1) \<le> n div 10"
      using 1 False by auto
    have "n < 10 * 10 ^ ndigits (n div 10)"
      using ih(1) by linarith
    moreover have "10 ^ ndigits (n div 10) \<le> n"
    proof (cases "n div 10 = 0")
      case True
      then show ?thesis using False by (simp add: ndigits.simps)
    next
      case nz: False
      then have "ndigits (n div 10) = Suc (ndigits (n div 10) - 1)"
        by (simp add: ndigits.simps [of "n div 10"])
      then have "(10::nat) ^ ndigits (n div 10) = 10 * 10 ^ (ndigits (n div 10) - 1)"
        by (metis power_Suc)
      with ih(2) nz show ?thesis by linarith
    qed
    ultimately show ?thesis by (simp add: eq)
  qed
qed

lemma ndigits_pos: "0 < n \<Longrightarrow> 0 < ndigits n"
  by (simp add: ndigits.simps [of n])

lemma powi10_pos [simp]: "0 < (10::rat) powi e"
  by (simp add: zero_less_power_int)

lemma powi10_nonzero [simp]: "(10::rat) powi e \<noteq> 0"
  using powi10_pos [of e] by linarith

lemma powi10_less_iff: "(10::rat) powi a < 10 powi b \<longleftrightarrow> a < b"
  using power_int_strict_increasing [of a b "10::rat"] power_int_strict_increasing [of b a "10::rat"]
  by (cases a b rule: linorder_cases) auto

lemma powi10_le_iff: "(10::rat) powi a \<le> 10 powi b \<longleftrightarrow> a \<le> b"
  by (simp add: powi10_less_iff flip: not_less)

lemma powi10_mult: "(10::rat) powi a * 10 powi b = 10 powi (a + b)"
  by (simp add: power_int_add)

lemma pow10_powi: "of_int (10 ^ n) * (10::rat) powi e = 10 powi (int n + e)"
  by (simp add: power_int_add)

lemma adjusted_bounds:
  assumes "x \<noteq> 0"
  shows "10 powi adjusted x \<le> \<bar>x\<bar> \<and> \<bar>x\<bar> < 10 powi (adjusted x + 1)"
proof (cases "1 \<le> \<bar>x\<bar>")
  case True
  define n where "n = nat \<lfloor>\<bar>x\<bar>\<rfloor>"
  have "1 \<le> \<lfloor>\<bar>x\<bar>\<rfloor>" using True by linarith
  then have npos: "0 < n" and fl: "\<lfloor>\<bar>x\<bar>\<rfloor> = int n" by (auto simp: n_def)
  have nle: "of_nat n \<le> \<bar>x\<bar>" and nlt: "\<bar>x\<bar> < of_nat n + 1"
    using fl by linarith+
  define k where "k = ndigits n - 1"
  have dig: "ndigits n = Suc k" using ndigits_pos [OF npos] by (simp add: k_def)
  have b: "10 ^ k \<le> n" "n + 1 \<le> 10 ^ Suc k"
    using ndigits_bounds [of n] npos by (auto simp: dig)
  have adj: "adjusted x = int k"
    using True by (simp add: adjusted_def flip: n_def) (simp add: dig)
  have "(10::rat) ^ k = of_nat (10 ^ k)" by simp
  also have "\<dots> \<le> of_nat n" using b(1) by (simp only: of_nat_le_iff)
  also note nle
  finally have "(10::rat) ^ k \<le> \<bar>x\<bar>" .
  moreover have "(of_nat (n + 1) :: rat) \<le> of_nat (10 ^ Suc k)" using b(2) by (simp only: of_nat_le_iff)
  with nlt have "\<bar>x\<bar> < 10 * (10::rat) ^ k" by simp
  ultimately show ?thesis by (simp add: adj power_int_add)
next
  case False
  define m where "m = nat (\<lceil>1 / \<bar>x\<bar>\<rceil> - 1)"
  have xpos: "0 < \<bar>x\<bar>" using assms by simp
  have gt1: "1 < 1 / \<bar>x\<bar>" using False xpos by (simp add: field_simps)
  then have "2 \<le> \<lceil>1 / \<bar>x\<bar>\<rceil>" by linarith
  then have mpos: "0 < m" and cl: "\<lceil>1 / \<bar>x\<bar>\<rceil> = int m + 1" by (auto simp: m_def)
  have mlt: "of_nat m < 1 / \<bar>x\<bar>" and mge: "1 / \<bar>x\<bar> \<le> of_nat m + 1"
    using cl by linarith+
  define k where "k = ndigits m - 1"
  have dig: "ndigits m = Suc k" using ndigits_pos [OF mpos] by (simp add: k_def)
  have b: "10 ^ k \<le> m" "m + 1 \<le> 10 ^ Suc k"
    using ndigits_bounds [of m] mpos by (auto simp: dig)
  have adj: "adjusted x = - int (Suc k)"
    using False by (simp add: adjusted_def flip: m_def) (simp add: dig)
  have "(10::rat) ^ k = of_nat (10 ^ k)" by simp
  also have "\<dots> \<le> of_nat m" using b(1) by (simp only: of_nat_le_iff)
  also note mlt
  finally have lo: "(10::rat) ^ k < 1 / \<bar>x\<bar>" .
  have "(of_nat (m + 1) :: rat) \<le> of_nat (10 ^ Suc k)" using b(2) by (simp only: of_nat_le_iff)
  with mge have hi: "1 / \<bar>x\<bar> \<le> (10::rat) ^ Suc k" by simp
  have "10 powi adjusted x \<le> \<bar>x\<bar>"
  proof -
    have "10 powi adjusted x = 1 / (10::rat) ^ Suc k"
      unfolding adj by (simp add: power_int_minus power_int_of_nat divide_inverse del: of_nat_Suc power_Suc)
    also have "\<dots> \<le> \<bar>x\<bar>" using hi xpos by (simp add: field_simps del: power_Suc)
    finally show ?thesis .
  qed
  moreover have "\<bar>x\<bar> < 10 powi (adjusted x + 1)"
  proof -
    have "10 powi (adjusted x + 1) = 1 / (10::rat) ^ k"
      unfolding adj by (simp add: power_int_minus power_int_of_nat divide_inverse)
    moreover have "\<bar>x\<bar> < 1 / (10::rat) ^ k" using lo xpos by (simp add: field_simps)
    ultimately show ?thesis by simp
  qed
  ultimately show ?thesis by simp
qed

lemma adjusted_unique:
  assumes "10 powi a \<le> \<bar>x\<bar>" and "\<bar>x\<bar> < 10 powi (a + 1)"
  shows "adjusted x = a"
proof -
  have "x \<noteq> 0" using assms(1) powi10_pos [of a] by (auto simp: not_le [symmetric])
  note b = adjusted_bounds [OF this]
  have "(10::rat) powi a < 10 powi (adjusted x + 1)" "(10::rat) powi adjusted x < 10 powi (a + 1)"
    using assms b by linarith+
  then show ?thesis by (simp add: powi10_less_iff)
qed

lemma adjusted_mono:
  assumes "0 < x" and "x \<le> y"
  shows "adjusted x \<le> adjusted y"
proof -
  have "10 powi adjusted x \<le> x" "y < 10 powi (adjusted y + 1)"
    using adjusted_bounds [of x] adjusted_bounds [of y] assms by auto
  then have "(10::rat) powi adjusted x < 10 powi (adjusted y + 1)" using assms by linarith
  then show ?thesis by (simp add: powi10_less_iff)
qed

lemma adjusted_minus [simp]: "adjusted (- x) = adjusted x"
  by (simp add: adjusted_def)

lemma round_half_even_of_int [simp]: "round_half_even (of_int n) = n"
  by (simp add: round_half_even_def)

lemma round_half_even_bounds: "x - 1/2 \<le> of_int (round_half_even x) \<and> of_int (round_half_even x) \<le> x + 1/2"
  unfolding round_half_even_def Let_def by (auto; linarith)

lemma round_half_even_mono: "x \<le> y \<Longrightarrow> round_half_even x \<le> round_half_even y"
proof -
  assume le: "x \<le> y"
  then have fl: "\<lfloor>x\<rfloor> \<le> \<lfloor>y\<rfloor>" by (rule floor_mono)
  show ?thesis
  proof (cases "\<lfloor>x\<rfloor> = \<lfloor>y\<rfloor>")
    case True
    with le show ?thesis by (auto simp: round_half_even_def Let_def)
  next
    case False
    with fl have "\<lfloor>x\<rfloor> + 1 \<le> \<lfloor>y\<rfloor>" by linarith
    then show ?thesis by (auto simp: round_half_even_def Let_def)
  qed
qed

lemma round_half_even_minus: "round_half_even (- x) = - round_half_even x"
proof (cases "x = of_int \<lfloor>x\<rfloor>")
  case True
  then obtain n where "x = of_int n" by blast
  then show ?thesis by (metis of_int_minus round_half_even_of_int)
next
  case False
  then have "\<lfloor>- x\<rfloor> = - \<lfloor>x\<rfloor> - 1" by linarith
  then show ?thesis unfolding round_half_even_def Let_def by (auto; linarith)
qed


definition representable :: "nat \<Rightarrow> rat \<Rightarrow> bool" where
  "representable p x \<longleftrightarrow> (\<exists>c e. x = of_int c * 10 powi e \<and> \<bar>c\<bar> < 10 ^ p)"

lemma representable_0 [simp]: "representable p 0"
  unfolding representable_def by (rule exI [of _ 0]) simp

lemma representable_powi: "0 < p \<Longrightarrow> representable p (10 powi e)"
  unfolding representable_def by (rule exI [of _ 1], rule exI [of _ e]) (simp add: one_less_power)

lemma representable_minus: "representable p x \<Longrightarrow> representable p (- x)"
  unfolding representable_def by (metis abs_minus mult_minus_left of_int_minus)

lemma rnd_prec_0 [simp]: "rnd_prec p 0 = 0"
  by (simp add: rnd_prec_def)

lemma rnd_prec_minus: "rnd_prec p (- x) = - rnd_prec p x"
  by (simp add: rnd_prec_def round_half_even_minus)

lemma rnd_prec_representable_id:
  assumes "representable p x"
  shows "rnd_prec p x = x"
proof (cases "x = 0")
  case False
  from assms obtain c e0 where x: "x = of_int c * 10 powi e0" and c: "\<bar>c\<bar> < 10 ^ p"
    by (auto simp: representable_def)
  define e where "e = adjusted x - int p + 1"
  have "\<bar>x\<bar> = of_int \<bar>c\<bar> * 10 powi e0" by (simp add: x abs_mult)
  also have "\<dots> < 10 ^ p * 10 powi e0"
    using c by (metis mult_strict_right_mono of_int_less_iff of_int_numeral of_int_power powi10_pos)
  also have "\<dots> = 10 powi (int p + e0)" by (simp add: power_int_add)
  finally have "10 powi adjusted x < (10::rat) powi (int p + e0)"
    using adjusted_bounds [OF False] by linarith
  then have "e \<le> e0" by (simp add: powi10_less_iff e_def)
  then have "(10::rat) powi (e0 - e) = of_int (10 ^ nat (e0 - e))"
    by (simp add: power_int_def)
  then have int: "x * 10 powi (- e) = of_int (c * 10 ^ nat (e0 - e))"
    by (simp add: x mult.assoc powi10_mult)
  have "of_int (c * 10 ^ nat (e0 - e)) * (10::rat) powi e = x"
    unfolding int [symmetric] by (simp add: mult.assoc powi10_mult)
  then show ?thesis using False
    by (simp add: rnd_prec_def int round_half_even_of_int flip: e_def del: of_int_mult)
qed simp

lemma rnd_prec_pos_bounds:
  assumes "0 < x" and "0 < p"
  shows "10 powi adjusted x \<le> rnd_prec p x \<and> rnd_prec p x \<le> 10 powi (adjusted x + 1)"
proof -
  define e where "e = adjusted x - int p + 1"
  define y where "y = x * 10 powi (- e)"
  have b: "10 powi adjusted x \<le> x" "x < 10 powi (adjusted x + 1)"
    using adjusted_bounds [of x] assms by auto
  have "10 powi adjusted x * 10 powi (- e) \<le> y" "y \<le> 10 powi (adjusted x + 1) * 10 powi (- e)"
    unfolding y_def using b by (auto intro!: mult_right_mono)
  moreover have "(10::rat) powi adjusted x * 10 powi (- e) = of_int (10 ^ (p - 1))"
  proof -
    have "adjusted x + - e = int (p - 1)" using assms(2) by (simp add: e_def of_nat_diff)
    then show ?thesis by (simp only: powi10_mult power_int_of_nat of_int_power of_int_numeral)
  qed
  moreover have "(10::rat) powi (adjusted x + 1) * 10 powi (- e) = of_int (10 ^ p)"
  proof -
    have "adjusted x + 1 + - e = int p" by (simp add: e_def)
    then show ?thesis by (simp only: powi10_mult power_int_of_nat of_int_power of_int_numeral)
  qed
  ultimately have "of_int (10 ^ (p - 1)) \<le> y" "y \<le> of_int (10 ^ p)" by simp_all
  then have "10 ^ (p - 1) \<le> round_half_even y" "round_half_even y \<le> 10 ^ p"
    by (metis round_half_even_mono round_half_even_of_int)+
  then have "(of_int (10 ^ (p - 1)) :: rat) \<le> of_int (round_half_even y)"
      "(of_int (round_half_even y) :: rat) \<le> of_int (10 ^ p)"
    by (metis of_int_le_iff)+
  then have "of_int (10 ^ (p - 1)) * 10 powi e \<le> rnd_prec p x"
      "rnd_prec p x \<le> of_int (10 ^ p) * 10 powi e"
    using assms(1) unfolding rnd_prec_def Let_def e_def [symmetric] y_def [symmetric]
    by (simp_all del: of_int_power)
  moreover have "int (p - 1) + e = adjusted x" "int p + e = adjusted x + 1"
    using assms(2) by (simp_all add: e_def of_nat_diff)
  moreover have "of_int (10 ^ (p - 1)) * (10::rat) powi e = 10 powi (int (p - 1) + e)"
      "of_int (10 ^ p) * (10::rat) powi e = 10 powi (int p + e)"
    by (rule pow10_powi)+
  ultimately show ?thesis by (simp only:)
qed

lemma rnd_prec_pos: "0 < x \<Longrightarrow> 0 < p \<Longrightarrow> 0 < rnd_prec p x"
  using rnd_prec_pos_bounds [of x p] powi10_pos [of "adjusted x"] by linarith

lemma rnd_prec_mono_pos:
  assumes "0 < x" and "x \<le> y" and "0 < p"
  shows "rnd_prec p x \<le> rnd_prec p y"
proof (cases "adjusted x = adjusted y")
  case True
  define e where "e = adjusted x - int p + 1"
  have "x * 10 powi (- e) \<le> y * 10 powi (- e)" using assms(2) by (simp add: mult_right_mono)
  then have "round_half_even (x * 10 powi (- e)) \<le> round_half_even (y * 10 powi (- e))"
    by (rule round_half_even_mono)
  then have "(of_int (round_half_even (x * 10 powi (- e))) :: rat) \<le> of_int (round_half_even (y * 10 powi (- e)))"
    by simp
  then show ?thesis using assms
    unfolding rnd_prec_def Let_def True [symmetric] e_def [symmetric]
    by (simp add: mult_right_mono)
next
  case False
  then have "adjusted x + 1 \<le> adjusted y" using adjusted_mono [OF assms(1,2)] by linarith
  then have "(10::rat) powi (adjusted x + 1) \<le> 10 powi adjusted y" by (simp add: powi10_le_iff)
  then show ?thesis
    using rnd_prec_pos_bounds [of x p] rnd_prec_pos_bounds [of y p] assms by linarith
qed

lemma rnd_prec_mono:
  assumes "x \<le> y" and "0 < p"
  shows "rnd_prec p x \<le> rnd_prec p y"
proof -
  consider "0 < x" | "x \<le> 0" "0 \<le> y" | "y < 0" by linarith
  then show ?thesis
  proof cases
    case 1
    then show ?thesis using rnd_prec_mono_pos assms by blast
  next
    case 2
    have "rnd_prec p x \<le> 0"
      using 2 rnd_prec_pos [of "- x" p] assms(2) rnd_prec_minus [of p x] by (cases "x = 0") auto
    moreover have "0 \<le> rnd_prec p y"
      using 2 rnd_prec_pos [of y p] assms(2) by (cases "y = 0") auto
    ultimately show ?thesis by linarith
  next
    case 3
    then show ?thesis
      using rnd_prec_mono_pos [of "- y" "- x" p] assms by (simp add: rnd_prec_minus)
  qed
qed

lemma rnd_prec_representable:
  assumes "0 < p"
  shows "representable p (rnd_prec p x)"
proof -
  have pos: "representable p (rnd_prec p z)" if "0 < z" for z
  proof -
    define e where "e = adjusted z - int p + 1"
    define n where "n = round_half_even (z * 10 powi (- e))"
    have r: "rnd_prec p z = of_int n * 10 powi e"
      using that by (simp add: rnd_prec_def n_def e_def)
    have "rnd_prec p z \<le> 10 powi (adjusted z + 1)" "0 < rnd_prec p z"
      using rnd_prec_pos_bounds [OF that assms] rnd_prec_pos [OF that assms] by auto
    moreover have "(10::rat) powi (adjusted z + 1) = of_int (10 ^ p) * 10 powi e"
      unfolding pow10_powi by (simp add: e_def)
    ultimately have "of_int n * 10 powi e \<le> of_int (10 ^ p) * (10::rat) powi e"
      "0 < of_int n * (10::rat) powi e" by (simp_all only: r)
    then have "(of_int n :: rat) \<le> of_int (10 ^ p)" "0 < (of_int n :: rat)"
      using powi10_pos [of e] by (simp_all only: mult_le_cancel_right_pos zero_less_mult_pos2)
    then have n: "0 < n" "n \<le> 10 ^ p" by (simp_all only: of_int_le_iff of_int_0_less_iff)
    show ?thesis
    proof (cases "n = 10 ^ p")
      case True
      then have "rnd_prec p z = 10 powi (int p + e)" by (simp only: r pow10_powi)
      then show ?thesis using representable_powi assms by simp
    next
      case False
      with n have "\<bar>n\<bar> < 10 ^ p" by linarith
      then show ?thesis using r unfolding representable_def by blast
    qed
  qed
  consider "0 < x" | "x = 0" | "0 < - x" by linarith
  then show ?thesis
  proof cases
    case 3
    from pos [OF this] have "representable p (- rnd_prec p x)" by (simp add: rnd_prec_minus)
    from representable_minus [OF this] show ?thesis by simp
  qed (use pos in auto)
qed

section \<open>The laws of a decimal context\<close>

text \<open>
  What the price computations rely on: rounding is monotone, leaves its own results and
  \<open>1\<close> alone, is odd and keeps positive values positive. The consequences are proved once
  here; the default context of the code is an interpretation below.
\<close>

locale decimal_context =
  fixes rnd :: "rat \<Rightarrow> rat"
  assumes rnd_mono: "x \<le> y \<Longrightarrow> rnd x \<le> rnd y"
    and rnd_idem: "rnd (rnd x) = rnd x"
    and rnd_minus: "rnd (- x) = - rnd x"
    and rnd_pos: "0 < x \<Longrightarrow> 0 < rnd x"
    and rnd_one: "rnd 1 = 1"
begin

lemma rnd_zero: "rnd 0 = 0"
  using rnd_minus [of 0] by simp

lemma rnd_nonneg: "0 \<le> x \<Longrightarrow> 0 \<le> rnd x"
  using rnd_mono [of 0 x] by (simp add: rnd_zero)

lemma rnd_pos_iff: "0 < rnd x \<longleftrightarrow> 0 < x"
  using rnd_pos [of x] rnd_mono [of x 0] by (auto simp: rnd_zero not_less [symmetric])

lemma rnd_neg_iff: "rnd x < 0 \<longleftrightarrow> x < 0"
  using rnd_pos_iff [of "- x"] by (simp add: rnd_minus)

lemma rnd_eq_0_iff: "rnd x = 0 \<longleftrightarrow> x = 0"
  using rnd_pos_iff [of x] rnd_neg_iff [of x] by (auto simp: rnd_zero)

lemma rnd_lessD: "rnd x < rnd y \<Longrightarrow> x < y"
  using rnd_mono [of y x] by (auto simp: not_le [symmetric])

lemma rnd_le_fix: "x \<le> y \<Longrightarrow> rnd y = y \<Longrightarrow> rnd x \<le> y"
  using rnd_mono [of x y] by simp

lemma rnd_ge_fix: "y \<le> x \<Longrightarrow> rnd y = y \<Longrightarrow> y \<le> rnd x"
  using rnd_mono [of y x] by simp

lemma rnd_unit: "0 \<le> x \<Longrightarrow> x \<le> 1 \<Longrightarrow> 0 \<le> rnd x \<and> rnd x \<le> 1"
  using rnd_nonneg rnd_le_fix rnd_one by blast

lemma rnd_abs: "\<bar>rnd x\<bar> = rnd \<bar>x\<bar>"
  using rnd_nonneg [of x] rnd_neg_iff [of x] by (auto simp: abs_if rnd_minus)

end

interpretation ctx_prec: decimal_context "rnd_prec (Suc p)" for p
proof
  show "rnd_prec (Suc p) (rnd_prec (Suc p) x) = rnd_prec (Suc p) x" for x
    by (simp add: rnd_prec_representable rnd_prec_representable_id)
  show "rnd_prec (Suc p) 1 = 1"
    using representable_powi [of "Suc p" 0] by (simp add: rnd_prec_representable_id)
qed (simp_all add: rnd_prec_mono rnd_prec_minus rnd_prec_pos)

section \<open>The default context\<close>

definition rnd :: "rat \<Rightarrow> decimal" where
  "rnd = rnd_prec 28"

interpretation dc: decimal_context rnd
  using ctx_prec.decimal_context_axioms [of 27] by (simp add: rnd_def)

definition dadd :: "decimal \<Rightarrow> decimal \<Rightarrow> decimal" where "dadd a b = rnd (a + b)"
definition dsub :: "decimal \<Rightarrow> decimal \<Rightarrow> decimal" where "dsub a b = rnd (a - b)"
definition dmul :: "decimal \<Rightarrow> decimal \<Rightarrow> decimal" where "dmul a b = rnd (a * b)"
definition dneg :: "decimal \<Rightarrow> decimal" where "dneg a = rnd (- a)"
definition dabs :: "decimal \<Rightarrow> decimal" where "dabs a = rnd \<bar>a\<bar>"

text \<open>Division by a value the code has tested, and division that may raise.\<close>

definition ddiv :: "decimal \<Rightarrow> decimal \<Rightarrow> decimal" where "ddiv a b = rnd (a / b)"

definition rdiv :: "decimal \<Rightarrow> decimal \<Rightarrow> decimal res" where
  "rdiv x y = (if y = 0 then Inl (if x = 0 then InvalidOperation else DivisionByZero)
     else Inr (ddiv x y))"

text \<open>\<open>sum(values, Decimal())\<close>.\<close>

definition dsum :: "decimal list \<Rightarrow> decimal" where
  "dsum xs = foldl dadd 0 xs"

text \<open>\<open>statistics.median\<close>.\<close>

definition median :: "decimal list \<Rightarrow> decimal res" where
  "median xs =
     (let data = sort xs; n = length xs
      in if n = 0 then Inl StatisticsError
         else if odd n then Inr (data ! (n div 2))
         else Inr (ddiv (dadd (data ! (n div 2 - 1)) (data ! (n div 2))) 2))"

lemmas dec_ops = dadd_def dsub_def dmul_def dneg_def dabs_def ddiv_def

lemma rnd_exact: "x = of_int c / 10 ^ k \<Longrightarrow> \<bar>c\<bar> < 10 ^ 28 \<Longrightarrow> rnd x = x"
  unfolding rnd_def
proof (rule rnd_prec_representable_id)
  assume "x = of_int c / 10 ^ k" "\<bar>c\<bar> < 10 ^ 28"
  then have "x = of_int c * 10 powi (- int k) \<and> \<bar>c\<bar> < 10 ^ 28"
    by (simp add: power_int_minus divide_inverse)
  then show "representable 28 x" unfolding representable_def by blast
qed

text \<open>Evaluation: short decimals are their own rounding.\<close>

lemma rnd_code [code]:
  "rnd x = (let (n, d) = quotient_of x
            in if 1000000 mod d = 0 \<and> \<bar>n\<bar> < 10000000000000000000000 then x else rnd_prec 28 x)"
proof -
  obtain n d where q: "quotient_of x = (n, d)" by (cases "quotient_of x")
  have "rnd x = x" if m: "1000000 mod d = 0" and n: "\<bar>n\<bar> < 10000000000000000000000"
  proof -
    have d: "0 < d" and x: "x = of_int n / of_int d"
      using quotient_of_denom_pos [OF q] quotient_of_div [OF q] by auto
    from m have "d dvd 1000000" by (simp add: mod_eq_0_iff_dvd)
    then obtain k where k: "1000000 = d * k" by (rule dvdE)
    then have k0: "0 < k" using d zero_less_mult_pos [of d k] by simp
    have "k * 1 \<le> k * d" using d k0 by (intro mult_left_mono) auto
    then have k1: "k \<le> 1000000" using k by (simp add: mult.commute)
    have dk: "of_int d * of_int k = (10 ^ 6 :: rat)"
      using arg_cong [OF k, of "of_int :: int \<Rightarrow> rat"] by simp
    have "x = (of_int n * of_int k) / (of_int d * of_int k)" using x k0 by simp
    then have "x = of_int (n * k) / 10 ^ 6" unfolding dk by simp
    moreover have "\<bar>n * k\<bar> < 10 ^ 28"
    proof -
      have "\<bar>n * k\<bar> = \<bar>n\<bar> * k" using k0 by (simp add: abs_mult)
      also have "\<dots> \<le> \<bar>n\<bar> * 1000000" using k1 by (intro mult_left_mono) auto
      also have "\<dots> < 10000000000000000000000 * 1000000" using n by simp
      finally show ?thesis by simp
    qed
    ultimately show ?thesis by (rule rnd_exact)
  qed
  then show ?thesis by (simp add: q rnd_def)
qed

lemma rnd_of_ops [simp]:
  "rnd (dadd a b) = dadd a b" "rnd (dsub a b) = dsub a b" "rnd (dmul a b) = dmul a b"
  "rnd (ddiv a b) = ddiv a b" "rnd (dabs a) = dabs a" "rnd (dneg a) = dneg a"
  by (simp_all add: dec_ops dc.rnd_idem)

lemma rnd_0 [simp]: "rnd 0 = 0"
  by (rule dc.rnd_zero)

lemma dabs_dsub [simp]: "dabs (dsub a b) = \<bar>dsub a b\<bar>"
  by (simp add: dec_ops dc.rnd_abs dc.rnd_idem)

lemma dabs_nonneg [simp]: "0 \<le> dabs a"
  by (simp add: dabs_def dc.rnd_nonneg)

lemma dadd_mono: "a \<le> c \<Longrightarrow> b \<le> d \<Longrightarrow> dadd a b \<le> dadd c d"
  by (simp add: dadd_def dc.rnd_mono)

lemma dsub_mono: "a \<le> c \<Longrightarrow> d \<le> b \<Longrightarrow> dsub a b \<le> dsub c d"
  by (simp add: dsub_def dc.rnd_mono)

lemma dmul_mono: "0 \<le> a \<Longrightarrow> c \<le> d \<Longrightarrow> dmul c a \<le> dmul d a"
  by (simp add: dmul_def dc.rnd_mono mult_right_mono)

lemma dmul_pos: "0 < c \<Longrightarrow> 0 < a \<Longrightarrow> 0 < dmul c a"
  by (simp add: dmul_def dc.rnd_pos)

lemma dmul_nonneg: "0 \<le> c \<Longrightarrow> 0 \<le> a \<Longrightarrow> 0 \<le> dmul c a"
  by (simp add: dmul_def dc.rnd_nonneg)

lemma dsub_pos_iff [simp]: "0 < dsub a b \<longleftrightarrow> b < a"
  by (simp add: dsub_def dc.rnd_pos_iff)

lemma dsub_neg_iff [simp]: "dsub a b < 0 \<longleftrightarrow> a < b"
  by (simp add: dsub_def dc.rnd_neg_iff)

lemma dsub_nonneg_iff [simp]: "0 \<le> dsub a b \<longleftrightarrow> b \<le> a"
  by (simp flip: not_less)

lemma dsub_nonpos_iff [simp]: "dsub a b \<le> 0 \<longleftrightarrow> a \<le> b"
  by (simp flip: not_less)

lemma dsub_eq_0_iff [simp]: "dsub a b = 0 \<longleftrightarrow> a = b"
  by (simp add: dsub_def dc.rnd_eq_0_iff)

lemma ddiv_nonneg: "0 \<le> a \<Longrightarrow> 0 \<le> b \<Longrightarrow> 0 \<le> ddiv a b"
  by (simp add: ddiv_def dc.rnd_nonneg)

lemma ddiv_unit: "0 \<le> a \<Longrightarrow> a \<le> b \<Longrightarrow> 0 < b \<Longrightarrow> 0 \<le> ddiv a b \<and> ddiv a b \<le> 1"
  by (simp add: ddiv_def dc.rnd_unit)

lemma foldl_dadd_nonneg: "0 \<le> a \<Longrightarrow> (\<And>x. x \<in> set xs \<Longrightarrow> 0 \<le> x) \<Longrightarrow> 0 \<le> foldl dadd a xs"
proof (induction xs arbitrary: a)
  case (Cons x xs)
  have "0 \<le> dadd a x" using Cons.prems by (simp add: dadd_def dc.rnd_nonneg)
  then show ?case using Cons by simp
qed simp

lemma dsum_nonneg: "(\<And>x. x \<in> set xs \<Longrightarrow> 0 \<le> x) \<Longrightarrow> 0 \<le> dsum xs"
  by (simp add: dsum_def foldl_dadd_nonneg)

lemma median_bounds:
  assumes "median xs = Inr m" and "\<And>x. x \<in> set xs \<Longrightarrow> lo \<le> x \<and> x \<le> hi"
    and "rnd (2 * lo) = 2 * lo" "rnd (2 * hi) = 2 * hi" "rnd lo = lo" "rnd hi = hi"
  shows "lo \<le> m \<and> m \<le> hi"
proof -
  let ?d = "sort xs" and ?n = "length xs"
  have n0: "?n \<noteq> 0" using assms(1) by (auto simp: median_def Let_def)
  have el: "lo \<le> ?d ! i \<and> ?d ! i \<le> hi" if "i < ?n" for i
    using that assms(2) nth_mem [of i ?d] by simp
  show ?thesis
  proof (cases "odd ?n")
    case True
    then show ?thesis using assms(1) n0 el [of "?n div 2"] by (auto simp: median_def Let_def)
  next
    case False
    let ?a = "?d ! (?n div 2 - 1)" and ?b = "?d ! (?n div 2)"
    have idx: "?n div 2 - 1 < ?n" "?n div 2 < ?n" using n0 by linarith+
    have ab: "2 * lo \<le> ?a + ?b" "?a + ?b \<le> 2 * hi"
      using el [of "?n div 2 - 1"] el [of "?n div 2"] idx by linarith+
    have m: "m = rnd (rnd (?a + ?b) / 2)"
      using assms(1) n0 False by (auto simp: median_def Let_def dec_ops)
    have "2 * lo \<le> rnd (?a + ?b)" "rnd (?a + ?b) \<le> 2 * hi"
      using ab assms(3,4) dc.rnd_ge_fix dc.rnd_le_fix by blast+
    then have "lo \<le> rnd (?a + ?b) / 2" "rnd (?a + ?b) / 2 \<le> hi" by simp_all
    then show ?thesis unfolding m using assms(5,6) dc.rnd_ge_fix dc.rnd_le_fix by blast
  qed
qed

lemma median_returns [simp]: "xs \<noteq> [] \<Longrightarrow> returns (median xs)"
  by (simp add: median_def Let_def)

end
