(* ===== verification/Kernel_Types.thy ===== *)
theory Kernel_Types
  imports Decimal_Arith
begin

text \<open>
  The immutable contracts of the strategy kernel,
  \<^verbatim>\<open>src/src/trader_assist_v0/multi_asset_shadow/strategy_kernel/types.py\<close>: the enumerations,
  the candle, zone, decision and event records with the checks of their constructors, and
  the event ledger.

  SHA-256 and the text of a \<open>Decimal\<close> enter only the identities; they are the two fields of
  \<open>hashing\<close>, an argument of every definition that forms an identity. A decimal is its value: \<open>1.0\<close> and
  \<open>1.00\<close>, whose texts differ, have one text here.
\<close>

section \<open>Identities\<close>

record hashing =
  hexdigest :: "string \<Rightarrow> string"  \<comment> \<open>\<open>sha256(text.encode("utf-8")).hexdigest()\<close>\<close>
  dec_str :: "decimal \<Rightarrow> string"   \<comment> \<open>\<open>str(Decimal)\<close>\<close>

function int_digits :: "int \<Rightarrow> string" where
  "int_digits i =
     (if i < 10 then [''0123456789'' ! nat i]
      else int_digits (i div 10) @ [''0123456789'' ! nat (i mod 10)])"
  by auto
termination by (relation "measure nat") auto

declare int_digits.simps [simp del]

definition int_str :: "int \<Rightarrow> string" where
  "int_str i = (if i < 0 then CHR ''-'' # int_digits (- i) else int_digits i)"

fun join_str :: "string \<Rightarrow> string list \<Rightarrow> string" where
  "join_str sep [] = []"
| "join_str sep [x] = x"
| "join_str sep (x # y # xs) = x @ sep @ join_str sep (y # xs)"

definition STRATEGY_VERSION :: string where
  "STRATEGY_VERSION = ''FL-MA-PRICE-ACTION-v0.1''"

definition PARAMETER_VERSION :: string where
  "PARAMETER_VERSION = ''2026-08-03-r1''"

definition SCANNER_VERSION :: string where
  "SCANNER_VERSION = ''SESSION-MOMENTUM-R3''"

definition SCHEMA_VERSION :: string where
  "SCHEMA_VERSION = ''1''"

section \<open>Enumerations\<close>

datatype side = LONG | SHORT

fun opposite :: "side \<Rightarrow> side" where
  "opposite LONG = SHORT"
| "opposite SHORT = LONG"

fun side_value :: "side \<Rightarrow> string" where
  "side_value LONG = ''LONG''"
| "side_value SHORT = ''SHORT''"

datatype setup_family = SWEEP_RECLAIM | BREAKOUT_RETEST | RANGE_EDGE_REJECTION

datatype setup_mode = MICRO_FAST | STANDARD

datatype retest_type = DEEP | SHALLOW

datatype decision_kind =
    DK_WAIT | DK_FORMAL_SETUP_CONFIRMED | DK_INVALIDATED | DK_SUPERSEDED | DK_DATA_INVALID

datatype event_status =
    ACTIVE | CONFIRMED | INVALIDATED | SUPERSEDED | DATA_INVALID | UNRESOLVED_AT_SHUTDOWN

definition terminal :: "event_status \<Rightarrow> bool" where
  "terminal s \<longleftrightarrow> s \<noteq> ACTIVE"

datatype zone_type = ZHIGH | ZLOW

fun zone_type_value :: "zone_type \<Rightarrow> string" where
  "zone_type_value ZHIGH = ''HIGH''"
| "zone_type_value ZLOW = ''LOW''"

datatype zone_quality = ZQ1 | ZQ2 | ZQ3

fun quality_rank :: "zone_quality \<Rightarrow> int" where
  "quality_rank ZQ1 = 1"
| "quality_rank ZQ2 = 2"
| "quality_rank ZQ3 = 3"

datatype htf_momentum =
    HTF_MOMENTUM_UP | HTF_MOMENTUM_DOWN | HTF_MOMENTUM_NEUTRAL | HTF_MOMENTUM_UNAVAILABLE

datatype htf_structure =
    HTF_STRUCTURE_UP | HTF_STRUCTURE_DOWN | HTF_STRUCTURE_RANGE | HTF_STRUCTURE_TRANSITION
  | HTF_STRUCTURE_INSUFFICIENT | HTF_STRUCTURE_UNAVAILABLE

datatype htf_relation =
    ALIGNED_STRONG | ALIGNED_PARTIAL | COUNTERTREND_STRONG | COUNTERTREND_PARTIAL
  | CONFLICTED | NEUTRAL | CONTEXT_INCOMPLETE

datatype scanner_state =
    WATCH_MOMENTUM | WATCH_NEAR_LEVEL | WATCH_NEW_MARKET | BREAKOUT_DETECTED | RETEST_PENDING
  | BREAKOUT_RETEST_READY | FAILED_BREAKOUT_SWEEP_WATCH | FAILED_INVALIDATED_INSIDE_RANGE
  | LATE_WATCH | REJECTED_CHASE_FOR_ACTION | EXPIRED_NO_RETEST

fun scanner_state_value :: "scanner_state \<Rightarrow> string" where
  "scanner_state_value WATCH_MOMENTUM = ''WATCH_MOMENTUM''"
| "scanner_state_value WATCH_NEAR_LEVEL = ''WATCH_NEAR_LEVEL''"
| "scanner_state_value WATCH_NEW_MARKET = ''WATCH_NEW_MARKET''"
| "scanner_state_value BREAKOUT_DETECTED = ''BREAKOUT_DETECTED''"
| "scanner_state_value RETEST_PENDING = ''RETEST_PENDING''"
| "scanner_state_value BREAKOUT_RETEST_READY = ''BREAKOUT_RETEST_READY''"
| "scanner_state_value FAILED_BREAKOUT_SWEEP_WATCH = ''FAILED_BREAKOUT_SWEEP_WATCH''"
| "scanner_state_value FAILED_INVALIDATED_INSIDE_RANGE = ''FAILED_INVALIDATED_INSIDE_RANGE''"
| "scanner_state_value LATE_WATCH = ''LATE_WATCH''"
| "scanner_state_value REJECTED_CHASE_FOR_ACTION = ''REJECTED_CHASE_FOR_ACTION''"
| "scanner_state_value EXPIRED_NO_RETEST = ''EXPIRED_NO_RETEST''"

datatype scanner_chase = CHASE_EARLY | CHASE_LATE | CHASE_REJECTED

datatype target_kind =
    TARGET_ZONE | RANGE_CENTER | SOURCE_ZONE_CENTER | DIRECTIONAL_ZONE_SET_FROZEN
  | OPEN_SPACE_REFERENCE

section \<open>Candles\<close>

record bar =
  bar_market_id :: string
  bar_interval :: string
  bar_open_time_ms :: int
  bar_close_time_ms :: int
  bar_open :: decimal
  bar_high :: decimal
  bar_low :: decimal
  bar_close :: decimal
  bar_volume :: decimal
  bar_source_identity :: string

text \<open>\<open>Bar.__post_init__\<close>: the constructor returns the bar or raises.\<close>

definition make_bar :: "bar \<Rightarrow> bar res" where
  "make_bar b =
     (if bar_market_id b = [] \<or> bar_interval b \<notin> {''5m'', ''15m'', ''1h''}
      then Inl (KernelInputError ''bar identity or interval is invalid'')
      else if bar_open_time_ms b < 0 \<or> bar_close_time_ms b \<le> bar_open_time_ms b
      then Inl (KernelInputError ''bar time geometry is invalid'')
      else if \<not> (0 < bar_open b \<and> 0 < bar_high b \<and> 0 < bar_low b \<and> 0 < bar_close b)
      then Inl (KernelInputError ''OHLC values must be positive and finite'')
      else if bar_volume b < 0
      then Inl (KernelInputError ''volume must be nonnegative and finite'')
      else if bar_high b < max (bar_open b) (bar_close b) \<or> min (bar_open b) (bar_close b) < bar_low b
      then Inl (KernelInputError ''bar OHLC range is invalid'')
      else Inr b)"

definition wf_bar :: "bar \<Rightarrow> bool" where
  "wf_bar b \<longleftrightarrow>
     bar_market_id b \<noteq> [] \<and> bar_interval b \<in> {''5m'', ''15m'', ''1h''} \<and>
     0 \<le> bar_open_time_ms b \<and> bar_open_time_ms b < bar_close_time_ms b \<and>
     0 < bar_low b \<and> 0 \<le> bar_volume b \<and>
     bar_low b \<le> bar_open b \<and> bar_low b \<le> bar_close b \<and>
     bar_open b \<le> bar_high b \<and> bar_close b \<le> bar_high b"

lemma make_bar_iff: "make_bar b = Inr b' \<longleftrightarrow> b' = b \<and> wf_bar b"
  by (auto simp: make_bar_def wf_bar_def)

lemma wf_bar_range: "wf_bar b \<Longrightarrow> bar_low b \<le> bar_high b"
  by (auto simp: wf_bar_def)

definition candle_id :: "hashing \<Rightarrow> bar \<Rightarrow> string" where
  "candle_id H b =
     hexdigest H (join_str ''|''
       [bar_market_id b, bar_interval b, int_str (bar_open_time_ms b),
        int_str (bar_close_time_ms b), dec_str H (bar_open b), dec_str H (bar_high b),
        dec_str H (bar_low b), dec_str H (bar_close b), dec_str H (bar_volume b),
        bar_source_identity b])"

section \<open>Zones\<close>

record reaction =
  reaction_id :: string
  re_market_id :: string
  re_zone_type :: zone_type
  pivot_bar_index :: int
  confirmed_bar_index :: int
  re_price :: decimal
  a15_reaction :: decimal

record zone_snapshot =
  zone_id :: string
  zone_market_id :: string
  zone_kind :: zone_type
  zone_center :: decimal
  zone_low :: decimal
  zone_high :: decimal
  half_width :: decimal
  quality :: zone_quality
  reaction_count :: int
  latest_reaction_bar_index :: int
  member_reaction_ids :: "string list"
  active_for_new_event :: bool
  suppressed :: bool

definition make_zone :: "zone_snapshot \<Rightarrow> zone_snapshot res" where
  "make_zone z =
     (if zone_id z = [] \<or> zone_center z < zone_low z \<or> zone_high z < zone_center z
      then Inl (KernelInputError ''zone geometry is invalid'')
      else if half_width z \<le> 0 \<or> reaction_count z \<noteq> int (length (member_reaction_ids z))
      then Inl (KernelInputError ''zone membership is invalid'')
      else Inr z)"

definition zone_width :: "zone_snapshot \<Rightarrow> decimal" where
  "zone_width z = dsub (zone_high z) (zone_low z)"

definition zone_contains :: "zone_snapshot \<Rightarrow> decimal \<Rightarrow> bool" where
  "zone_contains z v \<longleftrightarrow> zone_low z \<le> v \<and> v \<le> zone_high z"

record htf_context =
  ctx_momentum :: htf_momentum
  ctx_structure :: htf_structure
  er8_1h :: "decimal option"
  d8_1h :: "decimal option"

record scanner_linkage =
  link_candidate_id :: string
  link_state :: scanner_state
  link_scanner_version :: string

record target_reference =
  target_kind :: target_kind
  target_price :: "decimal option"
  target_zone_id :: "string option"
  frozen_directional_zones :: "zone_snapshot list"

record breakout_linkage =
  underlying_breakout_event_id :: string
  initial_breakout_candle_id :: string
  accepted_reentry_source_event_id :: "string option"

section \<open>Decisions\<close>

record strategy_decision =
  dec_market_id :: string
  dec_setup_family :: setup_family
  dec_setup_mode :: "setup_mode option"
  dec_retest_type :: "retest_type option"
  dec_side :: side
  decision :: decision_kind
  reason :: string
  dec_market_event_id :: string
  dec_zone_id :: string
  dec_zone_snapshot :: zone_snapshot
  dec_a5_event :: decimal
  dec_m20_event :: decimal
  dec_htf_relation :: htf_relation
  dec_breakout_linkage :: "breakout_linkage option"
  dec_ideal_entry_low :: "decimal option"
  dec_ideal_entry_high :: "decimal option"
  dec_chase_limit :: "decimal option"
  dec_structural_stop :: "decimal option"
  dec_target_reference :: "target_reference option"
  dec_transition :: string
  dec_scanner_linkage :: "scanner_linkage option"
  dec_strategy_version :: string
  dec_parameter_version :: string
  dec_scanner_version :: string
  dec_schema_version :: string

definition make_decision :: "strategy_decision \<Rightarrow> strategy_decision res" where
  "make_decision d =
     (if decision d \<noteq> DK_FORMAL_SETUP_CONFIRMED then
        (if dec_setup_mode d \<noteq> None \<or> dec_retest_type d \<noteq> None
         then Inl (KernelInputError ''non-formal decisions cannot expose confirmation mode'')
         else Inr d)
      else if dec_setup_family d \<noteq> BREAKOUT_RETEST then
        (if dec_setup_mode d \<noteq> None \<or> dec_retest_type d \<noteq> None
         then Inl (KernelInputError ''non-breakout decisions cannot expose breakout mode'')
         else Inr d)
      else if dec_setup_mode d = Some MICRO_FAST then
        (if dec_retest_type d \<noteq> None
         then Inl (KernelInputError ''MICRO_FAST cannot expose a STANDARD retest type'')
         else Inr d)
      else if dec_setup_mode d = Some STANDARD \<and> dec_retest_type d \<noteq> None then Inr d
      else Inl (KernelInputError ''formal Breakout Retest requires MICRO_FAST or typed STANDARD''))"

section \<open>Market events and their ledger\<close>

record market_event =
  market_event_id :: string
  ev_market_id :: string
  ev_setup_family :: setup_family
  ev_side :: side
  ev_status :: event_status
  ev_transition :: string
  ev_zone :: zone_snapshot
  created_bar :: bar
  latest_bar :: bar
  a5_event :: decimal
  m20_event :: decimal
  ev_htf_relation :: htf_relation
  ev_scanner_linkage :: "scanner_linkage option"
  ev_breakout_linkage :: "breakout_linkage option"
  reclaim_candle_high :: "decimal option"
  reclaim_candle_low :: "decimal option"
  sweep_extreme :: "decimal option"
  initial_breakout_open :: "decimal option"
  initial_breakout_high :: "decimal option"
  initial_breakout_low :: "decimal option"
  initial_breakout_close :: "decimal option"
  previous_close :: "decimal option"
  previous_high :: "decimal option"
  previous_low :: "decimal option"
  pullback_started :: bool
  impulse_extreme :: "decimal option"
  pullback_extreme :: "decimal option"
  ev_retest_type :: "retest_type option"
  retest_seen_bar_time_ms :: "int option"
  formal_mode :: "setup_mode option"
  ideal_entry_low :: "decimal option"
  ideal_entry_high :: "decimal option"
  chase_limit :: "decimal option"
  structural_stop :: "decimal option"
  ev_target_reference :: "target_reference option"

text \<open>
  The ledger is the tuple of its events. Entries are distinct objects (each is created by
  one constructor call or one \<open>evolve\<close>), so the identity tests of the code are tests of the
  position in the tuple.
\<close>

type_synonym event_ledger = "market_event list"

definition matches_active :: "string \<Rightarrow> setup_family \<Rightarrow> side \<Rightarrow> market_event \<Rightarrow> bool" where
  "matches_active market family sd e \<longleftrightarrow>
     ev_market_id e = market \<and> ev_setup_family e = family \<and> ev_side e = sd \<and> ev_status e = ACTIVE"

text \<open>\<open>EventLedger.active\<close> returns the last matching event; the model returns its position.\<close>

definition ledger_active :: "event_ledger \<Rightarrow> string \<Rightarrow> setup_family \<Rightarrow> side \<Rightarrow> nat option" where
  "ledger_active evs market family sd =
     find (\<lambda>i. matches_active market family sd (evs ! i)) (rev [0..<length evs])"

text \<open>
  \<open>EventLedger.replace_event\<close>. \<open>same i\<close> says whether the entry at position \<open>i\<close> is the object
  \<open>v\<close> itself.
\<close>

fun replace_event_loop ::
  "hashing \<Rightarrow> (nat \<Rightarrow> bool) \<Rightarrow> market_event \<Rightarrow> nat \<Rightarrow> bool \<Rightarrow> event_ledger \<Rightarrow> event_ledger \<times> bool" where
  "replace_event_loop H same v i replaced [] = ([], replaced)"
| "replace_event_loop H same v i replaced (e # es) =
     (if same i then
        (let (r, f) = replace_event_loop H same v (Suc i) replaced es in (e # r, f))
      else if \<not> replaced \<and> market_event_id e = market_event_id v \<and>
          ev_setup_family e = ev_setup_family v \<and> ev_side e = ev_side v \<and>
          candle_id H (created_bar e) = candle_id H (created_bar v) then
        (let (r, f) = replace_event_loop H same v (Suc i) True es in (v # r, f))
      else
        (let (r, f) = replace_event_loop H same v (Suc i) replaced es in (e # r, f)))"

definition replace_event ::
  "hashing \<Rightarrow> (nat \<Rightarrow> bool) \<Rightarrow> event_ledger \<Rightarrow> market_event \<Rightarrow> event_ledger res" where
  "replace_event H same evs v =
     (let (r, f) = replace_event_loop H same v 0 False evs
      in if f then Inr r else Inl (KernelInputError ''event to replace is not present''))"

definition ledger_append :: "event_ledger \<Rightarrow> market_event \<Rightarrow> event_ledger" where
  "ledger_append evs v = evs @ [v]"

record zone_book =
  zones :: "zone_snapshot list"
  reactions :: "reaction list"
  active_support :: "zone_snapshot option"
  active_resistance :: "zone_snapshot option"

record kernel_result =
  res_ledger :: event_ledger
  res_decisions :: "strategy_decision list"
  res_zones :: "zone_snapshot list"
  res_active_support :: "zone_snapshot option"
  res_active_resistance :: "zone_snapshot option"
  res_htf_context :: htf_context

section \<open>Facts about the ledger\<close>

lemma find_rev_upt:
  "find P (rev [0..<n]) = Some i \<longleftrightarrow> i < n \<and> P i \<and> (\<forall>j. i < j \<and> j < n \<longrightarrow> \<not> P j)"
  by (induction n) (auto simp: less_Suc_eq)

lemma find_rev_upt_None: "find P (rev [0..<n]) = None \<longleftrightarrow> (\<forall>i < n. \<not> P i)"
  by (auto simp: find_None_iff)

lemma ledger_active_Some:
  "ledger_active evs m f s = Some i \<longleftrightarrow>
     i < length evs \<and> matches_active m f s (evs ! i) \<and>
     (\<forall>j. i < j \<and> j < length evs \<longrightarrow> \<not> matches_active m f s (evs ! j))"
  by (simp add: ledger_active_def find_rev_upt)

lemma ledger_active_None:
  "ledger_active evs m f s = None \<longleftrightarrow> (\<forall>i < length evs. \<not> matches_active m f s (evs ! i))"
  by (simp add: ledger_active_def find_rev_upt_None)

lemma ledger_active_None_set:
  "ledger_active evs m f s = None \<longleftrightarrow> (\<forall>e \<in> set evs. \<not> matches_active m f s e)"
  by (simp add: ledger_active_None all_set_conv_all_nth)

lemma opposite_neq [simp]: "opposite s \<noteq> s" "s \<noteq> opposite s"
  by (cases s; simp)+

lemma opposite_opposite [simp]: "opposite (opposite s) = s"
  by (cases s) auto

end
