(* ===== verification/Indicators.thy ===== *)
theory Indicators
  imports Kernel_Types
begin

text \<open>
  Causal aggregation and the frozen indicators,
  \<^verbatim>\<open>src/src/trader_assist_v0/multi_asset_shadow/strategy_kernel/indicators.py\<close>. Definitions
  first, then the lemmas and the properties of each.
\<close>

section \<open>Series\<close>

definition FIVE_MINUTES_MS :: int where "FIVE_MINUTES_MS = 300000"

definition interval_ms :: "string \<Rightarrow> int option" where
  "interval_ms iv =
     (if iv = ''5m'' then Some FIVE_MINUTES_MS
      else if iv = ''15m'' then Some 900000
      else if iv = ''1h'' then Some 3600000 else None)"

fun validate_loop :: "string \<Rightarrow> string \<Rightarrow> int \<Rightarrow> int option \<Rightarrow> bar list \<Rightarrow> unit res" where
  "validate_loop m iv ms prev [] = Inr ()"
| "validate_loop m iv ms prev (b # bs) =
     (if bar_market_id b \<noteq> m \<or> bar_interval b \<noteq> iv
      then Inl (KernelInputError ''bar history identity is inconsistent'')
      else if bar_open_time_ms b mod ms \<noteq> 0
      then Inl (KernelInputError ''bar history is not UTC-aligned'')
      else if (case prev of None \<Rightarrow> False | Some p \<Rightarrow> bar_open_time_ms b \<noteq> p + ms)
      then Inl (KernelInputError ''bar history has a gap or overlap'')
      else validate_loop m iv ms (Some (bar_open_time_ms b)) bs)"

text \<open>
  \<open>interval or bars[0].interval\<close>: every caller passes no interval or a non-empty literal.
\<close>

definition validate_series :: "bar list \<Rightarrow> string option \<Rightarrow> unit res" where
  "validate_series bars interval =
     (case bars of
        [] \<Rightarrow> Inl (KernelInputError ''bar history is empty'')
      | b # _ \<Rightarrow>
          (let expected = (case interval of None \<Rightarrow> bar_interval b | Some iv \<Rightarrow> iv)
           in case interval_ms expected of
                None \<Rightarrow> Inl KeyError
              | Some ms \<Rightarrow> validate_loop (bar_market_id b) expected ms None bars))"

section \<open>Aggregation of closed 5m bars\<close>

definition bucket_of :: "int \<Rightarrow> bar \<Rightarrow> int" where
  "bucket_of bucket_ms b = bar_open_time_ms b - bar_open_time_ms b mod bucket_ms"

definition add_to_group :: "int \<Rightarrow> (int \<times> bar list) list \<Rightarrow> bar \<Rightarrow> (int \<times> bar list) list" where
  "add_to_group bucket_ms g b =
     (let k = bucket_of bucket_ms b
      in aput k ((case map_of g k of None \<Rightarrow> [] | Some ms \<Rightarrow> ms) @ [b]) g)"

definition group_bars :: "int \<Rightarrow> bar list \<Rightarrow> (int \<times> bar list) list" where
  "group_bars bucket_ms bars = foldl (add_to_group bucket_ms) [] bars"

definition expected_opens :: "int \<Rightarrow> nat \<Rightarrow> int list" where
  "expected_opens bucket required = map (\<lambda>i. bucket + int i * FIVE_MINUTES_MS) [0..<required]"

definition bucket_bar :: "string \<Rightarrow> int \<Rightarrow> bar list \<Rightarrow> bar" where
  "bucket_bar interval bucket members =
     \<lparr> bar_market_id = bar_market_id (hd members), bar_interval = interval,
       bar_open_time_ms = bucket, bar_close_time_ms = bar_close_time_ms (last members),
       bar_open = bar_open (hd members), bar_high = list_max (map bar_high members),
       bar_low = list_min (map bar_low members), bar_close = bar_close (last members),
       bar_volume = dsum (map bar_volume members),
       bar_source_identity = ''CAUSAL_LOCAL_FROM_CLOSED_5M'' \<rparr>"

definition aggregate_bucket :: "string \<Rightarrow> int \<Rightarrow> bar list \<Rightarrow> bar res" where
  "aggregate_bucket interval bucket members = make_bar (bucket_bar interval bucket members)"

definition complete_bucket :: "nat \<Rightarrow> int \<times> bar list \<Rightarrow> bool" where
  "complete_bucket required g \<longleftrightarrow> map bar_open_time_ms (snd g) = expected_opens (fst g) required"

definition aggregate_closed_5m_causally :: "bar list \<Rightarrow> int \<Rightarrow> bar list res" where
  "aggregate_closed_5m_causally bars minutes =
     (if minutes \<notin> {15, 60}
      then Inl (KernelInputError ''only local 15m and 1h aggregation is frozen'')
      else rbind (validate_series bars (Some ''5m'')) (\<lambda>_.
        if \<exists>(l, r) \<in> set (pairwise bars). bar_open_time_ms r \<noteq> bar_open_time_ms l + FIVE_MINUTES_MS
        then Inl (KernelInputError ''5m history has a gap'')
        else
          let bucket_ms = minutes * 60000;
              required = nat (minutes div 5);
              interval = (if minutes = 15 then ''15m'' else ''1h'')
          in rmap (\<lambda>(k, ms). aggregate_bucket interval k ms)
               (filter (complete_bucket required) (sort_key fst (group_bars bucket_ms bars)))))"

section \<open>Average true range, volume, close location\<close>

definition true_range :: "bar \<Rightarrow> decimal \<Rightarrow> decimal" where
  "true_range b prev =
     max (dsub (bar_high b) (bar_low b))
       (max (dabs (dsub (bar_high b) prev)) (dabs (dsub (bar_low b) prev)))"

definition true_ranges :: "bar list \<Rightarrow> decimal list" where
  "true_ranges bars = map (\<lambda>(p, c). true_range c (bar_close p)) (pairwise bars)"

fun atr_loop :: "decimal \<Rightarrow> decimal list \<Rightarrow> decimal option list" where
  "atr_loop current [] = []"
| "atr_loop current (r # rs) =
     (let c = ddiv (dadd (dmul 13 current) r) 14
      in (if 0 < c then Some c else None) # atr_loop c rs)"

definition atr_values_of :: "bar list \<Rightarrow> decimal option list" where
  "atr_values_of bars =
     (if length bars < 15 then replicate (length bars) None
      else let ranges = true_ranges bars; seed = ddiv (dsum (take 14 ranges)) 14
           in if seed \<le> 0 then replicate (length bars) None
              else replicate 14 None @ Some seed # atr_loop seed (drop 14 ranges))"

definition wilder_atr14_series :: "bar list \<Rightarrow> decimal option list res" where
  "wilder_atr14_series bars = rbind (validate_series bars None) (\<lambda>_. Inr (atr_values_of bars))"

definition wilder_atr14 :: "bar list \<Rightarrow> decimal res" where
  "wilder_atr14 bars =
     rbind (wilder_atr14_series bars) (\<lambda>vs.
       case last vs of
         None \<Rightarrow> Inl (KernelInputError ''ATR14 requires at least 15 valid closed bars'')
       | Some v \<Rightarrow> Inr v)"

definition median_previous_20_volume :: "bar list \<Rightarrow> decimal res" where
  "median_previous_20_volume bars =
     rbind (validate_series bars None) (\<lambda>_.
       if length bars < 21
       then Inl (KernelInputError ''M20 requires 20 bars before the current bar'')
       else rbind (median (map bar_volume (butlast (last_n 21 bars)))) (\<lambda>v.
         if v < 0 then Inl (KernelInputError ''M20 is invalid'') else Inr v))"

definition clv_long :: "bar \<Rightarrow> decimal res" where
  "clv_long b =
     (let span = dsub (bar_high b) (bar_low b)
      in if span \<le> 0 then Inl (KernelInputError ''CLV requires a positive candle range'')
         else Inr (ddiv (dsub (bar_close b) (bar_low b)) span))"

definition clv_short :: "bar \<Rightarrow> decimal res" where
  "clv_short b =
     (let span = dsub (bar_high b) (bar_low b)
      in if span \<le> 0 then Inl (KernelInputError ''CLV requires a positive candle range'')
         else Inr (ddiv (dsub (bar_high b) (bar_close b)) span))"

text \<open>Path length and efficiency of a list of bars, as in \<open>directional_efficiency_8\<close>.\<close>

definition close_path :: "bar list \<Rightarrow> decimal" where
  "close_path bars = dsum (map (\<lambda>(l, r). dabs (dsub (bar_close r) (bar_close l))) (pairwise bars))"

definition efficiency_of :: "bar list \<Rightarrow> decimal" where
  "efficiency_of selected =
     (let denominator = close_path selected
      in if denominator = 0 then 0
         else ddiv (dabs (dsub (bar_close (last selected)) (bar_close (hd selected)))) denominator)"

definition directional_efficiency_8 :: "bar list \<Rightarrow> decimal res" where
  "directional_efficiency_8 bars =
     rbind (validate_series bars None) (\<lambda>_.
       if length bars < 9 then Inl (KernelInputError ''ER8 requires 9 closed bars'')
       else Inr (efficiency_of (last_n 9 bars)))"

text \<open>\<open>bars[-k]\<close> for a positive \<open>k\<close> no greater than the length.\<close>

definition from_end :: "nat \<Rightarrow> 'a list \<Rightarrow> 'a" where
  "from_end k xs = xs ! (length xs - k)"

definition directional_move_8 :: "bar list \<Rightarrow> decimal \<Rightarrow> decimal res" where
  "directional_move_8 bars atr =
     rbind (validate_series bars None) (\<lambda>_.
       if length bars < 9 \<or> atr \<le> 0
       then Inl (KernelInputError ''D8 requires 9 bars and positive ATR'')
       else Inr (ddiv (dsub (bar_close (last bars)) (bar_close (from_end 9 bars))) atr))"

section \<open>Pivots and the higher-timeframe context\<close>

definition pivot_high_at :: "bar list \<Rightarrow> nat \<Rightarrow> bool" where
  "pivot_high_at bars i \<longleftrightarrow>
     bar_high (bars ! (i - 1)) < bar_high (bars ! i) \<and>
     bar_high (bars ! (i + 1)) \<le> bar_high (bars ! i)"

definition pivot_low_at :: "bar list \<Rightarrow> nat \<Rightarrow> bool" where
  "pivot_low_at bars i \<longleftrightarrow>
     bar_low (bars ! i) < bar_low (bars ! (i - 1)) \<and>
     bar_low (bars ! i) \<le> bar_low (bars ! (i + 1))"

definition causal_pivot_high_indices :: "bar list \<Rightarrow> nat list res" where
  "causal_pivot_high_indices bars =
     rbind (validate_series bars None) (\<lambda>_.
       Inr (filter (pivot_high_at bars) [1..<length bars - 1]))"

definition causal_pivot_low_indices :: "bar list \<Rightarrow> nat list res" where
  "causal_pivot_low_indices bars =
     rbind (validate_series bars None) (\<lambda>_.
       Inr (filter (pivot_low_at bars) [1..<length bars - 1]))"

datatype high_state = HH | LH | EH
datatype low_state = HL | LL | EL

definition htf_structure_of :: "high_state \<Rightarrow> low_state \<Rightarrow> htf_structure" where
  "htf_structure_of h l =
     (if h = HH \<and> l = HL then HTF_STRUCTURE_UP
      else if h = LH \<and> l = LL then HTF_STRUCTURE_DOWN
      else if h \<in> {LH, EH} \<and> l \<in> {HL, EL} then HTF_STRUCTURE_RANGE
      else HTF_STRUCTURE_TRANSITION)"

definition htf_context_unavailable :: htf_context where
  "htf_context_unavailable =
     \<lparr> ctx_momentum = HTF_MOMENTUM_UNAVAILABLE, ctx_structure = HTF_STRUCTURE_UNAVAILABLE,
       er8_1h = None, d8_1h = None \<rparr>"

definition htf_momentum_of :: "decimal \<Rightarrow> decimal \<Rightarrow> htf_momentum" where
  "htf_momentum_of er8 d8 =
     (if 0.35 \<le> er8 \<and> 0.75 \<le> d8 then HTF_MOMENTUM_UP
      else if 0.35 \<le> er8 \<and> d8 \<le> - 0.75 then HTF_MOMENTUM_DOWN
      else HTF_MOMENTUM_NEUTRAL)"

definition htf_structure_from ::
  "bar list \<Rightarrow> decimal \<Rightarrow> nat list \<Rightarrow> nat list \<Rightarrow> htf_structure" where
  "htf_structure_from bars a1h highs lows =
     (if length highs < 2 \<or> length lows < 2 then HTF_STRUCTURE_INSUFFICIENT
      else
        let epsilon = dmul 0.10 a1h;
            first_high = bar_high (bars ! from_end 2 highs);
            second_high = bar_high (bars ! last highs);
            first_low = bar_low (bars ! from_end 2 lows);
            second_low = bar_low (bars ! last lows);
            h = (if dadd first_high epsilon < second_high then HH
                 else if second_high < dsub first_high epsilon then LH else EH);
            l = (if dadd first_low epsilon < second_low then HL
                 else if second_low < dsub first_low epsilon then LL else EL)
        in htf_structure_of h l)"

definition htf_context_of :: "bar list \<Rightarrow> htf_context res" where
  "htf_context_of bars =
     (if bars = [] then Inr htf_context_unavailable
      else
        rbind (validate_series bars (Some ''1h'')) (\<lambda>_.
        rbind (wilder_atr14_series bars) (\<lambda>vs.
          case last vs of
            None \<Rightarrow> Inr htf_context_unavailable
          | Some a1h \<Rightarrow>
              if length bars < 9 then Inr htf_context_unavailable
              else
                rbind (directional_efficiency_8 bars) (\<lambda>er8.
                rbind (directional_move_8 bars a1h) (\<lambda>d8.
                rbind (causal_pivot_high_indices bars) (\<lambda>highs.
                rbind (causal_pivot_low_indices bars) (\<lambda>lows.
                  Inr \<lparr> ctx_momentum = htf_momentum_of er8 d8,
                        ctx_structure = htf_structure_from bars a1h highs lows,
                        er8_1h = Some er8, d8_1h = Some d8 \<rparr>)))))))"

fun momentum_direction :: "htf_momentum \<Rightarrow> int" where
  "momentum_direction HTF_MOMENTUM_UP = 1"
| "momentum_direction HTF_MOMENTUM_DOWN = -1"
| "momentum_direction HTF_MOMENTUM_NEUTRAL = 0"
| "momentum_direction HTF_MOMENTUM_UNAVAILABLE = 0"

fun structure_direction :: "htf_structure \<Rightarrow> int" where
  "structure_direction HTF_STRUCTURE_UP = 1"
| "structure_direction HTF_STRUCTURE_DOWN = -1"
| "structure_direction HTF_STRUCTURE_RANGE = 0"
| "structure_direction HTF_STRUCTURE_TRANSITION = 0"
| "structure_direction HTF_STRUCTURE_INSUFFICIENT = 0"
| "structure_direction HTF_STRUCTURE_UNAVAILABLE = 0"

definition htf_relation_of :: "htf_context \<Rightarrow> side \<Rightarrow> htf_relation" where
  "htf_relation_of ctx sd =
     (if ctx_momentum ctx = HTF_MOMENTUM_UNAVAILABLE \<or> ctx_structure ctx = HTF_STRUCTURE_UNAVAILABLE
      then CONTEXT_INCOMPLETE
      else
        let m = momentum_direction (ctx_momentum ctx);
            s = structure_direction (ctx_structure ctx);
            sig = (if sd = LONG then 1 else -1)
        in if m = sig \<and> s = sig then ALIGNED_STRONG
           else if sig \<in> {m, s} \<and> 0 \<in> {m, s} then ALIGNED_PARTIAL
           else if m = - sig \<and> s = - sig then COUNTERTREND_STRONG
           else if - sig \<in> {m, s} \<and> 0 \<in> {m, s} then COUNTERTREND_PARTIAL
           else if sig \<in> {m, s} \<and> - sig \<in> {m, s} then CONFLICTED
           else NEUTRAL)"

section \<open>Valid series\<close>

text \<open>
  What \<open>validate_series\<close> accepts: a non-empty run of one market and interval whose opens
  start on a multiple of the interval and advance by it.
\<close>

definition series_at :: "string \<Rightarrow> int \<Rightarrow> int \<Rightarrow> string \<Rightarrow> bar list \<Rightarrow> bool" where
  "series_at iv ms t0 m bars \<longleftrightarrow>
     bars \<noteq> [] \<and> interval_ms iv = Some ms \<and> t0 mod ms = 0 \<and>
     (\<forall>i < length bars. bar_open_time_ms (bars ! i) = t0 + int i * ms) \<and>
     (\<forall>b \<in> set bars. bar_market_id b = m \<and> bar_interval b = iv)"

definition series_of :: "string \<Rightarrow> bar list \<Rightarrow> bool" where
  "series_of iv bars \<longleftrightarrow> (\<exists>ms t0 m. series_at iv ms t0 m bars)"

lemma validate_loop_iff:
  "validate_loop m iv ms prev bars = Inr () \<longleftrightarrow>
     (\<forall>b \<in> set bars. bar_market_id b = m \<and> bar_interval b = iv \<and> bar_open_time_ms b mod ms = 0) \<and>
     (case prev of
        None \<Rightarrow> (\<forall>i < length bars. bar_open_time_ms (bars ! i) = bar_open_time_ms (hd bars) + int i * ms)
      | Some p \<Rightarrow> (\<forall>i < length bars. bar_open_time_ms (bars ! i) = p + int (Suc i) * ms))"
proof (induction m iv ms prev bars rule: validate_loop.induct)
  case (2 m iv ms prev b bs)
  have shift: "(\<forall>i < length (b # bs). bar_open_time_ms ((b # bs) ! i) = q + int i * ms) \<longleftrightarrow>
      bar_open_time_ms b = q \<and> (\<forall>i < length bs. bar_open_time_ms (bs ! i) = q + int (Suc i) * ms)" for q
    by (auto simp: nth_Cons less_Suc_eq_0_disj split: nat.splits)
  have shift2: "(\<forall>i < length (b # bs). bar_open_time_ms ((b # bs) ! i) = q + int (Suc i) * ms) \<longleftrightarrow>
      bar_open_time_ms b = q + ms \<and>
      (\<forall>i < length bs. bar_open_time_ms (bs ! i) = (q + ms) + int (Suc i) * ms)" for q
    using shift [of "q + ms"] by (simp add: algebra_simps)
  show ?case
  proof (cases "bar_market_id b = m \<and> bar_interval b = iv \<and> bar_open_time_ms b mod ms = 0")
    case False
    then show ?thesis by auto
  next
    case True
    show ?thesis
    proof (cases prev)
      case None
      show ?thesis unfolding None using True 2 None shift [of "bar_open_time_ms b"] by auto
    next
      case (Some p)
      show ?thesis unfolding Some using True 2 Some shift2 [of p] by auto
    qed
  qed
qed (auto split: option.splits)

lemma interval_ms_pos: "interval_ms iv = Some ms \<Longrightarrow> 0 < ms"
  by (auto simp: interval_ms_def FIVE_MINUTES_MS_def split: if_splits)

lemma validate_series_Some: "validate_series bars (Some iv) = Inr u \<longleftrightarrow> series_of iv bars"
proof (cases bars)
  case (Cons b bs)
  have hd: "t0 = bar_open_time_ms b \<and> m = bar_market_id b" if "series_at iv ms t0 m bars" for ms t0 m
    using that by (auto simp: series_at_def Cons dest: spec [of _ 0])
  have al: "\<forall>c \<in> set bars. bar_open_time_ms c mod ms = 0"
    if "series_at iv ms t0 m bars" for ms t0 m
    using that unfolding series_at_def all_set_conv_all_nth by auto
  show ?thesis
  proof (cases "interval_ms iv")
    case (Some ms)
    have "validate_series bars (Some iv) = validate_loop (bar_market_id b) iv ms None bars"
      using Some by (simp only: validate_series_def Cons list.case option.case Let_def)
    then have v: "validate_series bars (Some iv) = Inr u \<longleftrightarrow>
        (\<forall>c \<in> set bars. bar_market_id c = bar_market_id b \<and> bar_interval c = iv \<and>
           bar_open_time_ms c mod ms = 0) \<and>
        (\<forall>i < length bars. bar_open_time_ms (bars ! i) = bar_open_time_ms b + int i * ms)"
      using validate_loop_iff [of "bar_market_id b" iv ms None bars] by (simp add: Cons)
    have b: "b \<in> set bars" "bars \<noteq> []" by (simp_all add: Cons)
    have "validate_series bars (Some iv) = Inr u \<longleftrightarrow>
        series_at iv ms (bar_open_time_ms b) (bar_market_id b) bars"
    proof
      assume "validate_series bars (Some iv) = Inr u"
      note r = this [unfolded v]
      from r b(1) have "bar_open_time_ms b mod ms = 0" by blast
      with Some b(2) show "series_at iv ms (bar_open_time_ms b) (bar_market_id b) bars"
        unfolding series_at_def using conjunct1 [OF r] conjunct2 [OF r] by (intro conjI) blast+
    next
      assume r: "series_at iv ms (bar_open_time_ms b) (bar_market_id b) bars"
      from al [OF r] r show "validate_series bars (Some iv) = Inr u"
        unfolding v series_at_def by (intro conjI ballI) blast+
    qed
    moreover have "ms' = ms" if "series_at iv ms' t0 m bars" for ms' t0 m
      using that Some by (simp add: series_at_def)
    ultimately show ?thesis using hd unfolding series_of_def by blast
  qed (simp add: validate_series_def Cons series_of_def series_at_def)
qed (simp add: validate_series_def series_of_def series_at_def)

lemma validate_series_None:
  "validate_series bars None = Inr u \<longleftrightarrow> bars \<noteq> [] \<and> series_of (bar_interval (hd bars)) bars"
proof (cases bars)
  case (Cons b bs)
  have "validate_series bars None = validate_series bars (Some (bar_interval b))"
    by (simp add: validate_series_def Cons)
  then show ?thesis by (simp add: validate_series_Some Cons)
qed (simp add: validate_series_def)

lemma series_of_hd: "series_of iv bars \<Longrightarrow> bars \<noteq> [] \<and> bar_interval (hd bars) = iv"
  unfolding series_of_def series_at_def by (metis hd_in_set)

lemma series_of_None: "series_of iv bars \<Longrightarrow> validate_series bars None = Inr ()"
  unfolding validate_series_None using series_of_hd [of iv bars] by simp

lemma series_at_append:
  assumes "series_at iv ms t0 m (xs @ ys)" and "xs \<noteq> []"
  shows "series_at iv ms t0 m xs"
proof -
  have "bar_open_time_ms (xs ! i) = t0 + int i * ms" if "i < length xs" for i
    using assms(1) that by (auto simp: series_at_def nth_append dest: spec [of _ i])
  then show ?thesis using assms by (simp add: series_at_def)
qed

lemma series_of_append: "series_of iv (xs @ ys) \<Longrightarrow> xs \<noteq> [] \<Longrightarrow> series_of iv xs"
  unfolding series_of_def using series_at_append by blast

lemma interval_ms_eqs [simp]:
  "interval_ms ''5m'' = Some 300000" "interval_ms ''15m'' = Some 900000"
  "interval_ms ''1h'' = Some 3600000"
  by (simp_all add: interval_ms_def FIVE_MINUTES_MS_def)

section \<open>The average true range\<close>

lemma pairwise_append:
  "xs \<noteq> [] \<Longrightarrow> pairwise (xs @ ys) = pairwise xs @ pairwise (last xs # ys)"
  by (induction xs rule: pairwise.induct) auto

lemma length_pairwise [simp]: "length (pairwise xs) = length xs - 1"
  by (induction xs rule: pairwise.induct) auto

lemma pairwise_nth: "Suc i < length xs \<Longrightarrow> pairwise xs ! i = (xs ! i, xs ! Suc i)"
  by (induction xs arbitrary: i rule: pairwise.induct) (auto simp: nth_Cons split: nat.splits)

lemma length_true_ranges [simp]: "length (true_ranges bars) = length bars - 1"
  by (simp add: true_ranges_def)

lemma true_ranges_append:
  "xs \<noteq> [] \<Longrightarrow> true_ranges (xs @ ys) = true_ranges xs @ true_ranges (last xs # ys)"
  by (simp add: true_ranges_def pairwise_append)

lemma length_atr_loop [simp]: "length (atr_loop c rs) = length rs"
  by (induction c rs rule: atr_loop.induct) (auto simp: Let_def)

lemma atr_loop_append: "\<exists>vs. atr_loop c (rs @ ss) = atr_loop c rs @ vs"
  by (induction c rs rule: atr_loop.induct) (auto simp: Let_def)

lemma length_atr_values_of [simp]: "length (atr_values_of bars) = length bars"
  by (auto simp: atr_values_of_def Let_def)

lemma atr_values_of_prefix: "take (length xs) (atr_values_of (xs @ ys)) = atr_values_of xs"
proof (cases "length xs < 15")
  case True
  show ?thesis
  proof (cases "length (xs @ ys) < 15")
    case False
    with True show ?thesis by (auto simp: atr_values_of_def Let_def take_Cons' not_less)
  qed (use True in \<open>auto simp: atr_values_of_def\<close>)
next
  case False
  then have ne: "xs \<noteq> []" by auto
  obtain rs ss where rs: "true_ranges xs = rs" and ss: "true_ranges (last xs # ys) = ss" by blast
  have len: "length rs = length xs - 1" using rs length_true_ranges [of xs] by simp
  define seed where "seed = ddiv (dsum (take 14 rs)) 14"
  obtain vs where vs: "atr_loop seed (drop 14 rs @ ss) = atr_loop seed (drop 14 rs) @ vs"
    using atr_loop_append by blast
  have l: "14 \<le> length rs" "length xs = 15 + length (drop 14 rs)" using False len by simp_all
  have "atr_values_of (xs @ ys) =
      (if seed \<le> 0 then replicate (length xs + length ys) None
       else replicate 14 None @ Some seed # atr_loop seed (drop 14 rs) @ vs)"
    using False l(1) vs by (simp add: atr_values_of_def true_ranges_append ne rs ss seed_def Let_def)
  moreover have "atr_values_of xs =
      (if seed \<le> 0 then replicate (length xs) None
       else replicate 14 None @ Some seed # atr_loop seed (drop 14 rs))"
    using False by (simp add: atr_values_of_def rs seed_def Let_def)
  ultimately show ?thesis using l(2) by (simp add: min_def)
qed

lemma true_range_nonneg: "wf_bar b \<Longrightarrow> 0 \<le> true_range b prev"
  by (simp add: true_range_def max_def wf_bar_range)

lemma true_ranges_nonneg: "(\<And>b. b \<in> set bars \<Longrightarrow> wf_bar b) \<Longrightarrow> r \<in> set (true_ranges bars) \<Longrightarrow> 0 \<le> r"
  unfolding true_ranges_def by (auto dest!: set_pairwise intro: true_range_nonneg)

lemma atr_loop_pos:
  assumes "0 < c" and "\<And>r. r \<in> set rs \<Longrightarrow> 0 \<le> r"
  shows "\<forall>v \<in> set (atr_loop c rs). \<exists>x > 0. v = Some x"
  using assms
proof (induction c rs rule: atr_loop.induct)
  case (2 c r rs)
  have "0 < dmul 13 c" using 2 by (simp add: dmul_pos)
  moreover have "0 \<le> r" using 2 by simp
  ultimately have "0 < dadd (dmul 13 c) r" by (simp add: dadd_def dc.rnd_pos)
  then have "0 < ddiv (dadd (dmul 13 c) r) 14" by (simp add: ddiv_def dc.rnd_pos)
  with 2 show ?case by (auto simp: Let_def)
qed simp

lemma atr_values_of_shape:
  assumes "\<And>b. b \<in> set bars \<Longrightarrow> wf_bar b"
  shows "(\<forall>i < length bars. atr_values_of bars ! i = None) \<or>
    (\<forall>i < length bars. (i < 14 \<longrightarrow> atr_values_of bars ! i = None) \<and>
       (14 \<le> i \<longrightarrow> (\<exists>x > 0. atr_values_of bars ! i = Some x)))"
proof -
  let ?rs = "true_ranges bars" and ?v = "atr_values_of bars"
  let ?seed = "ddiv (dsum (take 14 ?rs)) 14"
  show ?thesis
  proof (cases "length bars < 15 \<or> ?seed \<le> 0")
    case True
    then have "?v = replicate (length bars) None" by (auto simp: atr_values_of_def Let_def)
    then show ?thesis by simp
  next
    case False
    then have v: "?v = replicate 14 None @ Some ?seed # atr_loop ?seed (drop 14 ?rs)"
      by (simp add: atr_values_of_def Let_def)
    have pos: "\<forall>u \<in> set (Some ?seed # atr_loop ?seed (drop 14 ?rs)). \<exists>x > 0. u = Some x"
      using atr_loop_pos [of ?seed "drop 14 ?rs"] False true_ranges_nonneg [OF assms]
      by (auto dest: in_set_dropD)
    have "\<exists>x > 0. ?v ! i = Some x" if "i < length bars" "14 \<le> i" for i
    proof -
      have "i - 14 < length (Some ?seed # atr_loop ?seed (drop 14 ?rs))"
        using that False by simp
      then have "(Some ?seed # atr_loop ?seed (drop 14 ?rs)) ! (i - 14) \<in>
          set (Some ?seed # atr_loop ?seed (drop 14 ?rs))" by (rule nth_mem)
      moreover have "?v ! i = (Some ?seed # atr_loop ?seed (drop 14 ?rs)) ! (i - 14)"
        using that by (simp add: v nth_append)
      ultimately show ?thesis using pos by metis
    qed
    moreover have "?v ! i = None" if "i < 14" for i
      using that by (simp add: v nth_append)
    ultimately show ?thesis by blast
  qed
qed

lemma wilder_atr14_pos:
  assumes "wilder_atr14 bars = Inr a" and "\<And>b. b \<in> set bars \<Longrightarrow> wf_bar b"
  shows "0 < a"
proof -
  have ne: "bars \<noteq> []" and last: "last (atr_values_of bars) = Some a"
    using assms(1) by (auto simp: wilder_atr14_def wilder_atr14_series_def res_simps
        validate_series_None split: option.splits)
  have "atr_values_of bars \<noteq> []" using ne length_atr_values_of [of bars] by force
  then have v: "atr_values_of bars ! (length bars - 1) = Some a"
    using last by (simp add: last_conv_nth)
  have i: "length bars - 1 < length bars" using ne by simp
  from atr_values_of_shape [of bars, OF assms(2)] show ?thesis
  proof
    assume "\<forall>i < length bars. atr_values_of bars ! i = None"
    with i v show ?thesis by force
  next
    assume "\<forall>i < length bars. (i < 14 \<longrightarrow> atr_values_of bars ! i = None) \<and>
       (14 \<le> i \<longrightarrow> (\<exists>x > 0. atr_values_of bars ! i = Some x))"
    with i v show ?thesis by (metis not_less option.distinct(1) option.inject)
  qed
qed

section \<open>Aggregation\<close>

text \<open>
  The grouping of the code, by dictionary and in iteration order, on a valid series: one
  group per bucket, in ascending order, each the sublist of its bars.
\<close>

lemma remdups_adj_snoc:
  "remdups_adj (xs @ [y]) = (if xs \<noteq> [] \<and> last xs = y then remdups_adj xs else remdups_adj xs @ [y])"
proof (cases xs rule: rev_cases)
  case (snoc zs z)
  then show ?thesis using remdups_adj_append_two [of zs z y] by simp
qed simp

lemma sorted_le_last: "sorted xs \<Longrightarrow> x \<in> set xs \<Longrightarrow> x \<le> last xs"
  by (induction xs) auto

lemma distinct_remdups_adj: "sorted xs \<Longrightarrow> distinct (remdups_adj xs)"
  by (induction xs rule: remdups_adj.induct) auto

lemma group_bars_sorted:
  assumes "sorted (map (bucket_of B) bars)"
  shows "group_bars B bars =
    map (\<lambda>k. (k, filter (\<lambda>b. bucket_of B b = k) bars)) (remdups_adj (map (bucket_of B) bars))"
  using assms
proof (induction bars rule: rev_induct)
  case (snoc b bars)
  let ?bk = "bucket_of B" and ?K = "remdups_adj (map (bucket_of B) bars)"
  let ?k = "bucket_of B b"
  have IH: "group_bars B bars = map (\<lambda>k. (k, filter (\<lambda>b. ?bk b = k) bars)) ?K"
    using snoc by (simp add: sorted_append)
  have mo: "map_of (group_bars B bars) k =
      (if k \<in> set (map ?bk bars) then Some (filter (\<lambda>b. ?bk b = k) bars) else None)" for k
    unfolding IH by (simp add: map_of_map_keys map_of_map_restrict restrict_map_def)
  have keys: "fst ` set (group_bars B bars) = set (map ?bk bars)"
    unfolding IH by force
  have step: "group_bars B (bars @ [b]) =
      aput ?k (filter (\<lambda>c. ?bk c = ?k) bars @ [b]) (group_bars B bars)"
  proof -
    have "(case map_of (group_bars B bars) ?k of None \<Rightarrow> [] | Some ms \<Rightarrow> ms) =
        filter (\<lambda>c. ?bk c = ?k) bars"
      by (auto simp: mo image_iff intro!: filter_False [symmetric])
    then show ?thesis by (simp add: group_bars_def add_to_group_def Let_def)
  qed
  show ?case
  proof (cases "?k \<in> set (map ?bk bars)")
    case True
    then have ne: "bars \<noteq> []" by auto
    have "?bk (last bars) \<le> ?k" using snoc.prems ne by (simp add: sorted_append)
    moreover have "?k \<le> ?bk (last bars)"
      using sorted_le_last [of "map ?bk bars" ?k] snoc.prems True ne
      by (simp add: sorted_append last_map)
    ultimately have "last (map ?bk bars) = ?k" using ne by (simp add: last_map)
    then have "remdups_adj (map ?bk (bars @ [b])) = ?K"
      using ne by (simp add: remdups_adj_snoc)
    with True show ?thesis
      unfolding step aput_def keys by (auto simp: IH)
  next
    case False
    have nk: "?bk x \<noteq> ?k" if "x \<in> set bars" for x
      using False imageI [OF that, of ?bk] by (metis list.set_map)
    have "remdups_adj (map ?bk (bars @ [b])) = ?K @ [?k]"
      using nk [OF last_in_set] by (cases "bars = []") (simp_all add: remdups_adj_snoc last_map)
    moreover have "filter (\<lambda>c. ?bk c = ?k) bars = []"
      using nk by (simp add: filter_empty_conv)
    moreover have "filter (\<lambda>c. ?bk c = k) (bars @ [b]) = filter (\<lambda>c. ?bk c = k) bars"
      if "k \<in> set ?K" for k
      using that False by auto
    moreover have "aput ?k v (group_bars B bars) = group_bars B bars @ [(?k, v)]" for v
      using False by (simp add: aput_def keys)
    ultimately show ?thesis unfolding step by (simp add: IH)
  qed
qed (simp add: group_bars_def)

lemma filter_upt_interval:
  assumes "b \<le> n" and "\<And>i. i < n \<Longrightarrow> P i \<longleftrightarrow> a \<le> i \<and> i < b"
  shows "filter P [0..<n] = [a..<b]"
  using assms by (intro sorted_distinct_set_unique) (auto simp: sorted_wrt_filter)

lemma map_nth_upt: "a + k \<le> length xs \<Longrightarrow> map ((!) xs) [a..<a + k] = take k (drop a xs)"
  by (rule nth_equalityI) auto

text \<open>The blocks of a series: \<open>r\<close> consecutive bars that start at a multiple of the bucket.\<close>

definition block :: "bar list \<Rightarrow> int \<Rightarrow> int \<Rightarrow> int \<Rightarrow> bar list" where
  "block bars q r j = take (nat r) (drop (nat (r * j - q)) bars)"

definition blocks_of :: "bar list \<Rightarrow> int \<Rightarrow> int \<Rightarrow> int list" where
  "blocks_of bars q r = [(q + r - 1) div r .. (q + int (length bars)) div r - 1]"

lemma le_zdiv_iff: "0 < r \<Longrightarrow> k \<le> x div r \<longleftrightarrow> k * r \<le> x" for k x r :: int
proof
  assume r: "0 < r"
  show "k * r \<le> x" if "k \<le> x div r"
  proof -
    have "k * r \<le> x div r * r" using r that by (simp add: mult_right_mono)
    also have "\<dots> \<le> x" using pos_mod_sign [OF r, of x] div_mult_mod_eq [of x r] by linarith
    finally show ?thesis .
  qed
  show "k \<le> x div r" if "k * r \<le> x"
    using zdiv_mono1 [OF that r] r by simp
qed

lemma in_blocks_of:
  assumes "0 < r"
  shows "j \<in> set (blocks_of bars q r) \<longleftrightarrow> q \<le> r * j \<and> r * j + r \<le> q + int (length bars)"
proof -
  have "(q + r - 1) div r \<le> j \<longleftrightarrow> q \<le> r * j"
  proof -
    have "(q + r - 1) div r \<le> j \<longleftrightarrow> (q + r - 1) div r < j + 1" by simp
    also have "\<dots> \<longleftrightarrow> q + r - 1 < (j + 1) * r"
      using le_zdiv_iff [OF assms, of "j + 1" "q + r - 1"] by linarith
    also have "\<dots> \<longleftrightarrow> q \<le> r * j" by (auto simp: algebra_simps)
    finally show ?thesis .
  qed
  moreover have "j \<le> (q + int (length bars)) div r - 1 \<longleftrightarrow> r * j + r \<le> q + int (length bars)"
  proof -
    have "j \<le> (q + int (length bars)) div r - 1 \<longleftrightarrow> j + 1 \<le> (q + int (length bars)) div r" by linarith
    also have "\<dots> \<longleftrightarrow> (j + 1) * r \<le> q + int (length bars)" using assms by (rule le_zdiv_iff)
    finally show ?thesis by (auto simp: algebra_simps)
  qed
  ultimately show ?thesis by (simp add: blocks_of_def)
qed

lemma bucket_of_nth:
  assumes "series_at ''5m'' 300000 (300000 * q) m bars" and "i < length bars" and "0 < r"
  shows "bucket_of (300000 * r) (bars ! i) = 300000 * r * ((q + int i) div r)"
proof -
  have o: "bar_open_time_ms (bars ! i) = 300000 * (q + int i)"
    using assms(1,2) by (simp add: series_at_def)
  have "300000 * (q + int i) div (300000 * r) = (q + int i) div r"
    by (rule div_mult_mult1) simp
  then show ?thesis
    by (simp add: bucket_of_def o minus_mod_eq_mult_div)
qed

lemma sorted_buckets:
  assumes "series_at ''5m'' 300000 (300000 * q) m bars" and "0 < r"
  shows "sorted (map (bucket_of (300000 * r)) bars)"
  unfolding sorted_iff_nth_mono
proof (intro allI impI)
  fix i j assume ij: "i \<le> j" "j < length (map (bucket_of (300000 * r)) bars)"
  have "(q + int i) div r \<le> (q + int j) div r" using ij(1) assms(2) by (intro zdiv_mono1) auto
  then show "map (bucket_of (300000 * r)) bars ! i \<le> map (bucket_of (300000 * r)) bars ! j"
    using ij assms by (simp add: bucket_of_nth [OF assms(1)])
qed

lemma members_of_block:
  assumes "series_at ''5m'' 300000 (300000 * q) m bars" and "0 < r"
    and "q \<le> r * j" and "r * j + r \<le> q + int (length bars)"
  shows "filter (\<lambda>b. bucket_of (300000 * r) b = 300000 * r * j) bars = block bars q r j"
proof -
  let ?n = "length bars" and ?a = "nat (r * j - q)"
  let ?P = "\<lambda>b. bucket_of (300000 * r) b = 300000 * r * j"
  have mem: "?P (bars ! i) \<longleftrightarrow> ?a \<le> i \<and> i < ?a + nat r" if "i < ?n" for i
  proof -
    have "?P (bars ! i) \<longleftrightarrow> (q + int i) div r = j"
      using assms(2) by (simp add: bucket_of_nth [OF assms(1) that])
    also have "\<dots> \<longleftrightarrow> r * j \<le> q + int i \<and> q + int i < r * j + r"
    proof
      assume "(q + int i) div r = j"
      then show "r * j \<le> q + int i \<and> q + int i < r * j + r"
        using assms(2) pos_mod_bound [of r "q + int i"] pos_mod_sign [of r "q + int i"]
          mult_div_mod_eq [of r "q + int i"] by (auto; linarith)
    next
      assume "r * j \<le> q + int i \<and> q + int i < r * j + r"
      then show "(q + int i) div r = j"
        by (intro int_div_pos_eq [of _ _ _ "q + int i - r * j"]) auto
    qed
    finally show ?thesis using assms(2,3) by auto
  qed
  have "filter ?P bars = map ((!) bars) (filter (\<lambda>i. ?P (bars ! i)) [0..<?n])"
    by (metis (no_types, lifting) filter_map map_nth comp_apply filter_cong)
  also have "filter (\<lambda>i. ?P (bars ! i)) [0..<?n] = [?a..<?a + nat r]"
    using assms(2-4) mem by (intro filter_upt_interval) auto
  also have "map ((!) bars) [?a..<?a + nat r] = block bars q r j"
    unfolding block_def using assms(2-4) by (intro map_nth_upt) auto
  finally show ?thesis .
qed

text \<open>
  The reference definition: one bar per block, in order. The code's grouping, sorting and
  filtering compute it.
\<close>

lemma complete_bucket_iff:
  assumes "series_at ''5m'' 300000 (300000 * q) m bars" and "0 < r"
  shows "complete_bucket (nat r) (300000 * r * j,
      filter (\<lambda>b. bucket_of (300000 * r) b = 300000 * r * j) bars) \<longleftrightarrow>
    q \<le> r * j \<and> r * j + r \<le> q + int (length bars)"
    (is "complete_bucket _ (?k, ?ms) \<longleftrightarrow> _")
proof
  have opens: "bar_open_time_ms (bars ! i) = 300000 * (q + int i)" if "i < length bars" for i
    using assms(1) that by (simp add: series_at_def)
  assume "complete_bucket (nat r) (?k, ?ms)"
  then have eq: "map bar_open_time_ms ?ms = expected_opens ?k (nat r)"
    by (simp add: complete_bucket_def)
  have pick: "\<exists>l < length bars. bar_open_time_ms (bars ! l) = ?k + int i * 300000" if "i < nat r" for i
  proof -
    have "?k + int i * 300000 \<in> set (expected_opens ?k (nat r))"
      using that by (auto simp: expected_opens_def FIVE_MINUTES_MS_def)
    then have "?k + int i * 300000 \<in> set (map bar_open_time_ms ?ms)" by (simp only: eq)
    then show ?thesis by (auto simp: in_set_conv_nth)
  qed
  from pick [of 0] assms(2) obtain l0 where "l0 < length bars" "300000 * (q + int l0) = ?k"
    using opens by auto
  then have "q \<le> r * j" by simp
  moreover from pick [of "nat r - 1"] assms(2) obtain l1
    where l1: "l1 < length bars" "300000 * (q + int l1) = ?k + int (nat r - 1) * 300000"
    using opens by auto
  have "int (nat r - 1) = r - 1" using assms(2) by simp
  with l1 have "q + int l1 = r * j + (r - 1)" by simp
  with l1(1) have "r * j + r \<le> q + int (length bars)" by linarith
  ultimately show "q \<le> r * j \<and> r * j + r \<le> q + int (length bars)" by simp
next
  assume j: "q \<le> r * j \<and> r * j + r \<le> q + int (length bars)"
  have ms: "?ms = block bars q r j" using members_of_block assms j by blast
  have "nat r \<le> length bars - nat (r * j - q)" using j assms(2) by linarith
  then have len: "length (block bars q r j) = nat r" by (simp add: block_def)
  have "map bar_open_time_ms (block bars q r j) = expected_opens ?k (nat r)"
  proof (rule nth_equalityI)
    show "length (map bar_open_time_ms (block bars q r j)) = length (expected_opens ?k (nat r))"
      by (simp add: len expected_opens_def)
  next
    fix i assume "i < length (map bar_open_time_ms (block bars q r j))"
    then have i: "i < nat r" "nat (r * j - q) + i < length bars" by (auto simp: block_def)
    have "bar_open_time_ms (bars ! (nat (r * j - q) + i)) = 300000 * (q + int (nat (r * j - q) + i))"
      using assms(1) i(2) by (simp add: series_at_def)
    also have "\<dots> = ?k + int i * 300000" using j by (simp add: algebra_simps)
    finally show "map bar_open_time_ms (block bars q r j) ! i = expected_opens ?k (nat r) ! i"
      using i by (simp add: block_def expected_opens_def FIVE_MINUTES_MS_def)
  qed
  then show "complete_bucket (nat r) (?k, ?ms)" by (simp add: complete_bucket_def ms)
qed

lemma complete_groups:
  assumes "series_at ''5m'' 300000 (300000 * q) m bars" and "0 < r"
  shows "filter (complete_bucket (nat r)) (sort_key fst (group_bars (300000 * r) bars)) =
    map (\<lambda>j. (300000 * r * j, block bars q r j)) (blocks_of bars q r)"
proof -
  let ?B = "300000 * r"
  let ?K = "remdups_adj (map (bucket_of ?B) bars)"
  let ?f = "\<lambda>k. (k, filter (\<lambda>b. bucket_of ?B b = k) bars)"
  have srt: "sorted (map (bucket_of ?B) bars)" using sorted_buckets [OF assms] .
  have "sort_key fst (group_bars ?B bars) = map ?f ?K"
    unfolding group_bars_sorted [OF srt]
    using srt by (intro sort_key_id_if_sorted) (simp add: comp_def)
  then have "filter (complete_bucket (nat r)) (sort_key fst (group_bars ?B bars)) =
      map ?f (filter (\<lambda>k. complete_bucket (nat r) (?f k)) ?K)"
    by (simp add: filter_map comp_def)
  also have "filter (\<lambda>k. complete_bucket (nat r) (?f k)) ?K = map ((*) ?B) (blocks_of bars q r)"
  proof (rule sorted_distinct_set_unique)
    show "sorted (filter (\<lambda>k. complete_bucket (nat r) (?f k)) ?K)"
      using srt by (simp add: sorted_wrt_filter)
    have "distinct ?K" using srt by (rule distinct_remdups_adj)
    then show "distinct (filter (\<lambda>k. complete_bucket (nat r) (?f k)) ?K)" by simp
    show "sorted (map ((*) ?B) (blocks_of bars q r))"
      using assms(2) by (simp add: blocks_of_def sorted_iff_nth_mono nth_upto)
    show "distinct (map ((*) ?B) (blocks_of bars q r))"
      using assms(2) by (simp add: distinct_map inj_on_def blocks_of_def)
    show "set (filter (\<lambda>k. complete_bucket (nat r) (?f k)) ?K) = set (map ((*) ?B) (blocks_of bars q r))"
    proof -
      have key: "\<exists>j. k = ?B * j" if "k \<in> set ?K" for k
        using that bucket_of_nth [OF assms(1) _ assms(2)] by (auto simp: in_set_conv_nth)
      have mem: "?B * j \<in> set ?K" if "q \<le> r * j" "r * j + r \<le> q + int (length bars)" for j
      proof -
        have "filter (\<lambda>b. bucket_of ?B b = ?B * j) bars = block bars q r j"
          using members_of_block [OF assms that] .
        moreover have "block bars q r j \<noteq> []" using that assms(2) by (auto simp: block_def)
        ultimately have "filter (\<lambda>b. bucket_of ?B b = ?B * j) bars \<noteq> []" by simp
        then obtain b where "b \<in> set bars" "bucket_of ?B b = ?B * j"
          by (auto simp: filter_empty_conv)
        then have "?B * j \<in> bucket_of ?B ` set bars" by (rule rev_image_eqI [OF _ sym])
        then show ?thesis by simp
      qed
      show ?thesis
        using key mem complete_bucket_iff [OF assms] in_blocks_of [OF assms(2)] by fastforce
    qed
  qed
  also have "map ?f (map ((*) ?B) (blocks_of bars q r)) =
      map (\<lambda>j. (?B * j, block bars q r j)) (blocks_of bars q r)"
    using members_of_block [OF assms] in_blocks_of [OF assms(2)] by simp
  finally show ?thesis .
qed


lemma wf_bucket_bar:
  assumes "members \<noteq> []" and "\<And>b. b \<in> set members \<Longrightarrow> wf_bar b"
    and "interval \<in> {''5m'', ''15m'', ''1h''}" and "bucket = bar_open_time_ms (hd members)"
    and "bar_open_time_ms (hd members) \<le> bar_open_time_ms (last members)"
  shows "wf_bar (bucket_bar interval bucket members)"
proof -
  have hd: "wf_bar (hd members)" and last: "wf_bar (last members)" using assms by auto
  have "bar_low (hd members) \<in> set (map bar_low members)"
      "bar_low (last members) \<in> set (map bar_low members)"
      "bar_high (hd members) \<in> set (map bar_high members)"
      "bar_high (last members) \<in> set (map bar_high members)"
    using assms(1) by simp_all
  then have "list_min (map bar_low members) \<le> bar_low (hd members)"
      "list_min (map bar_low members) \<le> bar_low (last members)"
      "bar_high (hd members) \<le> list_max (map bar_high members)"
      "bar_high (last members) \<le> list_max (map bar_high members)"
    by (simp_all only: list_min_le list_max_ge)
  moreover have "0 < list_min (map bar_low members)"
  proof -
    have "list_min (map bar_low members) \<in> set (map bar_low members)"
      using assms(1) by (intro list_min_in) simp
    then show ?thesis using assms(2) by (auto simp: wf_bar_def)
  qed
  moreover have "0 \<le> dsum (map bar_volume members)"
    using assms(2) by (intro dsum_nonneg) (auto simp: wf_bar_def)
  ultimately show ?thesis
    using hd last assms(3-5) by (auto simp: wf_bar_def bucket_bar_def)
qed

lemma block_nonempty:
  assumes "0 < r" and "j \<in> set (blocks_of bars q r)"
  shows "block bars q r j \<noteq> []" and "length (block bars q r j) = nat r"
    and "\<And>i. i < nat r \<Longrightarrow> block bars q r j ! i = bars ! (nat (r * j - q) + i)"
    and "\<And>i. i < nat r \<Longrightarrow> nat (r * j - q) + i < length bars"
proof -
  have j: "q \<le> r * j" "r * j + r \<le> q + int (length bars)"
    using assms by (simp_all add: in_blocks_of)
  then have "nat r \<le> length bars - nat (r * j - q)" using assms(1) by linarith
  then show len: "length (block bars q r j) = nat r" by (simp add: block_def)
  show "block bars q r j \<noteq> []" using len assms(1) by auto
  show lt: "nat (r * j - q) + i < length bars" if "i < nat r" for i
    using j assms(1) that by linarith
  show "block bars q r j ! i = bars ! (nat (r * j - q) + i)" if "i < nat r" for i
    using that lt [OF that] by (simp add: block_def)
qed

lemma block_opens:
  assumes "series_at ''5m'' 300000 (300000 * q) m bars" and "0 < r" and "j \<in> set (blocks_of bars q r)"
    and "i < nat r"
  shows "bar_open_time_ms (block bars q r j ! i) = 300000 * (r * j + int i)"
proof -
  have "q \<le> r * j" using assms by (simp add: in_blocks_of)
  moreover have "bar_open_time_ms (bars ! (nat (r * j - q) + i)) =
      300000 * q + int (nat (r * j - q) + i) * 300000"
    using assms(1) block_nonempty(4) [OF assms(2,3,4)] by (simp add: series_at_def)
  ultimately show ?thesis using block_nonempty(3) [OF assms(2,3,4)] by (simp add: algebra_simps)
qed

lemma wf_block_bar:
  assumes "series_at ''5m'' 300000 (300000 * q) m bars" and "0 < r" and "j \<in> set (blocks_of bars q r)"
    and "\<And>b. b \<in> set bars \<Longrightarrow> wf_bar b" and "interval \<in> {''5m'', ''15m'', ''1h''}"
  shows "wf_bar (bucket_bar interval (300000 * r * j) (block bars q r j))"
proof (rule wf_bucket_bar)
  note ne = block_nonempty(1) [OF assms(2,3)] and len = block_nonempty(2) [OF assms(2,3)]
  show "block bars q r j \<noteq> []" by fact
  show "wf_bar b" if "b \<in> set (block bars q r j)" for b
    using that assms(4) by (auto simp: block_def dest: in_set_takeD in_set_dropD)
  have hd: "bar_open_time_ms (hd (block bars q r j)) = 300000 * (r * j)"
    using block_opens [OF assms(1-3), of 0] assms(2) ne by (simp add: hd_conv_nth)
  then show "300000 * r * j = bar_open_time_ms (hd (block bars q r j))" by simp
  have "bar_open_time_ms (last (block bars q r j)) = 300000 * (r * j + int (nat r - 1))"
    using block_opens [OF assms(1-3), of "nat r - 1"] assms(2) ne len by (simp add: last_conv_nth)
  then show "bar_open_time_ms (hd (block bars q r j)) \<le> bar_open_time_ms (last (block bars q r j))"
    using hd by simp
  show "interval \<in> {''5m'', ''15m'', ''1h''}" by fact
qed

lemma no_gap_pairs:
  assumes "series_at iv ms t0 m bars" and "(l, r) \<in> set (pairwise bars)"
  shows "bar_open_time_ms r = bar_open_time_ms l + ms"
proof -
  from assms(2) obtain i where "i < length (pairwise bars)" "pairwise bars ! i = (l, r)"
    by (auto simp: in_set_conv_nth)
  then have "Suc i < length bars" "l = bars ! i" "r = bars ! Suc i"
    by (auto simp: pairwise_nth)
  with assms(1) show ?thesis by (simp add: series_at_def algebra_simps)
qed

lemma series_at_5m_aligned:
  assumes "series_of ''5m'' bars"
  obtains q m where "series_at ''5m'' 300000 (300000 * q) m bars"
proof -
  from assms obtain ms t0 m where s: "series_at ''5m'' ms t0 m bars" by (auto simp: series_of_def)
  then have "ms = 300000" "t0 mod ms = 0" by (auto simp: series_at_def)
  then have "t0 = 300000 * (t0 div 300000)" by auto
  with s \<open>ms = 300000\<close> that show thesis by metis
qed

abbreviation agg_interval :: "int \<Rightarrow> string" where
  "agg_interval r \<equiv> if r = 3 then ''15m'' else ''1h''"

lemma aggregate_blocks:
  assumes s: "series_at ''5m'' 300000 (300000 * q) m bars"
    and wf: "\<And>b. b \<in> set bars \<Longrightarrow> wf_bar b" and r: "r \<in> {3, 12}"
  shows "aggregate_closed_5m_causally bars (5 * r) =
    Inr (map (\<lambda>j. bucket_bar (agg_interval r) (300000 * r * j) (block bars q r j)) (blocks_of bars q r))"
proof -
  have r0: "0 < r" using r by auto
  have v: "validate_series bars (Some ''5m'') = Inr ()"
    unfolding validate_series_Some series_of_def using s by blast
  have gap: "\<not> (\<exists>(l, r) \<in> set (pairwise bars). bar_open_time_ms r \<noteq> bar_open_time_ms l + FIVE_MINUTES_MS)"
    using no_gap_pairs [OF s] by (auto simp: FIVE_MINUTES_MS_def)
  have min: "5 * r \<in> {15, 60}" "5 * r * 60000 = 300000 * r" "5 * r div 5 = r"
    "(if 5 * r = 15 then ''15m'' else ''1h'') = agg_interval r" using r by auto
  have "rmap (\<lambda>(k, ms). aggregate_bucket (agg_interval r) k ms)
      (map (\<lambda>j. (300000 * r * j, block bars q r j)) (blocks_of bars q r)) =
    Inr (map (\<lambda>(k, ms). bucket_bar (agg_interval r) k ms)
      (map (\<lambda>j. (300000 * r * j, block bars q r j)) (blocks_of bars q r)))"
  proof (rule rmap_total)
    fix g assume "g \<in> set (map (\<lambda>j. (300000 * r * j, block bars q r j)) (blocks_of bars q r))"
    then obtain j where j: "j \<in> set (blocks_of bars q r)" "g = (300000 * r * j, block bars q r j)"
      by auto
    have "wf_bar (bucket_bar (agg_interval r) (300000 * r * j) (block bars q r j))"
      using wf_block_bar [OF s r0 j(1) wf] by simp
    then show "(case g of (k, ms) \<Rightarrow> aggregate_bucket (agg_interval r) k ms) =
        Inr (case g of (k, ms) \<Rightarrow> bucket_bar (agg_interval r) k ms)"
      by (simp add: j(2) aggregate_bucket_def make_bar_iff)
  qed
  then show ?thesis
    unfolding aggregate_closed_5m_causally_def
    using v gap min complete_groups [OF s r0] by (simp add: Let_def comp_def)
qed

lemma blocks_of_append:
  assumes "0 < r"
  shows "\<exists>js. blocks_of (xs @ ys) q r = blocks_of xs q r @ js \<and>
    (\<forall>j \<in> set js. q + int (length xs) < r * j + r)"
proof -
  let ?a = "(q + r - 1) div r" and ?b = "(q + int (length xs)) div r"
    and ?c = "(q + int (length xs + length ys)) div r"
  have bc: "?b \<le> ?c" using assms by (intro zdiv_mono1) auto
  have late: "q + int (length xs) < r * j + r" if "?b \<le> j" for j
    using that le_zdiv_iff [OF assms, of "j + 1" "q + int (length xs)"] by (simp add: algebra_simps)
  show ?thesis
  proof (cases "?a \<le> ?b")
    case True
    have "[?a .. ?c - 1] = [?a .. ?b - 1] @ [?b .. ?c - 1]"
      using upto_split1 [of ?a ?b "?c - 1"] True bc by (cases "?b \<le> ?c - 1") auto
    then show ?thesis using late by (auto simp: blocks_of_def)
  next
    case False
    then have "blocks_of xs q r = []" by (simp add: blocks_of_def)
    moreover have "\<forall>j \<in> set (blocks_of (xs @ ys) q r). ?b \<le> j" using False by (auto simp: blocks_of_def)
    ultimately show ?thesis using late by auto
  qed
qed

lemma block_append:
  assumes "0 < r" and "j \<in> set (blocks_of xs q r)"
  shows "block (xs @ ys) q r j = block xs q r j"
proof -
  have "nat (r * j - q) + nat r \<le> length xs"
    using assms by (simp add: in_blocks_of) linarith
  then show ?thesis by (simp add: block_def)
qed

section \<open>Properties\<close>

lemma series_of_code [code]: "series_of iv bars \<longleftrightarrow> validate_series bars (Some iv) = Inr ()"
  by (simp add: validate_series_Some)

text \<open>A concrete history used by the witnesses: \<open>n\<close> closed 5m bars of one market.\<close>

definition sample_5m :: "nat \<Rightarrow> bar list" where
  "sample_5m n = map (\<lambda>i. \<lparr> bar_market_id = ''BTC'', bar_interval = ''5m'',
       bar_open_time_ms = 900000 + int i * 300000, bar_close_time_ms = 1199999 + int i * 300000,
       bar_open = 100, bar_high = 103 + of_nat (i mod 3), bar_low = 98, bar_close = 101 + of_nat (i mod 2),
       bar_volume = 5, bar_source_identity = ''TEST'' \<rparr>) [0..<n]"

lemma series_of_5m_hd:
  assumes "series_of ''5m'' bars"
  shows "\<exists>m. series_at ''5m'' 300000 (300000 * (bar_open_time_ms (hd bars) div 300000)) m bars"
proof -
  from assms obtain q m where s: "series_at ''5m'' 300000 (300000 * q) m bars"
    by (rule series_at_5m_aligned)
  then have "bar_open_time_ms (bars ! 0) = 300000 * q" "bars \<noteq> []" by (auto simp: series_at_def)
  then have "bar_open_time_ms (hd bars) div 300000 = q" by (simp add: hd_conv_nth)
  with s show ?thesis by auto
qed

lemma bucket_bar_reference:
  assumes "bs \<noteq> []"
  shows "bucket_bar iv t bs =
    \<lparr> bar_market_id = bar_market_id (hd bs), bar_interval = iv, bar_open_time_ms = t,
      bar_close_time_ms = bar_close_time_ms (last bs), bar_open = bar_open (hd bs),
      bar_high = Max (bar_high ` set bs), bar_low = Min (bar_low ` set bs),
      bar_close = bar_close (last bs), bar_volume = dsum (map bar_volume bs),
      bar_source_identity = ''CAUSAL_LOCAL_FROM_CLOSED_5M'' \<rparr>"
  using assms by (simp add: bucket_bar_def list_max_Max list_min_Min)

text \<open>
  C5: on a valid history of 5m bars the dictionary grouping, sorting and completeness filter of
  \<open>aggregate_closed_5m_causally\<close> return exactly one bar for every aligned block of
  \<open>minutes / 5\<close> consecutive bars that lies wholly inside the history, in time order, built from
  that block alone: it opens with the first bar, closes with the last, spans the greatest high and
  the least low and sums the volumes. No error branch is taken.
\<close>

theorem aggregate_closed_5m_reference:
  assumes "series_of ''5m'' bars" and "list_all wf_bar bars" and "r = 3 \<or> r = 12"
  shows "aggregate_closed_5m_causally bars (5 * r) =
    (let q = bar_open_time_ms (hd bars) div 300000
     in Inr (map (\<lambda>j. let bs = take (nat r) (drop (nat (r * j - q)) bars) in
          \<lparr> bar_market_id = bar_market_id (hd bs), bar_interval = (if r = 3 then ''15m'' else ''1h''),
            bar_open_time_ms = 300000 * r * j, bar_close_time_ms = bar_close_time_ms (last bs),
            bar_open = bar_open (hd bs), bar_high = Max (bar_high ` set bs),
            bar_low = Min (bar_low ` set bs), bar_close = bar_close (last bs),
            bar_volume = dsum (map bar_volume bs),
            bar_source_identity = ''CAUSAL_LOCAL_FROM_CLOSED_5M'' \<rparr>)
          [(q + r - 1) div r .. (q + int (length bars)) div r - 1]))"
proof -
  define q where "q = bar_open_time_ms (hd bars) div 300000"
  obtain m where s: "series_at ''5m'' 300000 (300000 * q) m bars"
    using series_of_5m_hd [OF assms(1)] unfolding q_def by blast
  have "block bars q r j \<noteq> []" if "j \<in> set (blocks_of bars q r)" for j
    using block_nonempty(1) [OF _ that] assms(3) by auto
  then have "map (\<lambda>j. bucket_bar (agg_interval r) (300000 * r * j) (block bars q r j)) (blocks_of bars q r) =
    map (\<lambda>j. let bs = block bars q r j in
          \<lparr> bar_market_id = bar_market_id (hd bs), bar_interval = agg_interval r,
            bar_open_time_ms = 300000 * r * j, bar_close_time_ms = bar_close_time_ms (last bs),
            bar_open = bar_open (hd bs), bar_high = Max (bar_high ` set bs),
            bar_low = Min (bar_low ` set bs), bar_close = bar_close (last bs),
            bar_volume = dsum (map bar_volume bs),
            bar_source_identity = ''CAUSAL_LOCAL_FROM_CLOSED_5M'' \<rparr>) (blocks_of bars q r)"
    by (simp add: bucket_bar_reference Let_def)
  then show ?thesis
    using aggregate_blocks [OF s, of r] assms(2,3)
    by (simp add: list_all_iff Let_def block_def blocks_of_def flip: q_def)
qed

theorem aggregate_closed_5m_reference_witness:
  "series_of ''5m'' (sample_5m 8) \<and> list_all wf_bar (sample_5m 8) \<and>
   (\<exists>x y. aggregate_closed_5m_causally (sample_5m 8) 15 = Inr [x, y] \<and>
     bar_open_time_ms x = 900000 \<and> bar_open_time_ms y = 1800000 \<and>
     bar_high x = Max (bar_high ` set (take 3 (sample_5m 8))) \<and>
     bar_close y = bar_close (last (take 3 (drop 3 (sample_5m 8)))))"
proof -
  have v: "series_of ''5m'' (sample_5m 8)" by code_simp
  have w: "list_all wf_bar (sample_5m 8)" by code_simp
  have q: "bar_open_time_ms (hd (sample_5m 8)) div 300000 = 3" by code_simp
  have u: "[1..2::int] = [1, 2]" by code_simp
  have l: "length (sample_5m 8) = 8" by (simp add: sample_5m_def)
  show ?thesis
    using v w aggregate_closed_5m_reference [OF v w, of 3] u by (simp add: Let_def q l)
qed

text \<open>
  C11: aggregation is causal. Closing further 5m bars never changes or removes a bar
  aggregated before; it only appends bars whose bucket had not ended at the last old bar.
\<close>

theorem aggregate_causal:
  assumes "series_of ''5m'' (xs @ ys)" and "xs \<noteq> []" and "list_all wf_bar (xs @ ys)"
    and "minutes = 15 \<or> minutes = 60"
  shows "\<exists>old new. aggregate_closed_5m_causally xs minutes = Inr old \<and>
    aggregate_closed_5m_causally (xs @ ys) minutes = Inr (old @ new) \<and>
    (\<forall>b \<in> set new. bar_open_time_ms (last xs) + 300000 < bar_open_time_ms b + minutes * 60000)"
proof -
  define r where "r = minutes div 5"
  have r: "r \<in> {3, 12}" "0 < r" "minutes = 5 * r" using assms(4) by (auto simp: r_def)
  obtain q m where s: "series_at ''5m'' 300000 (300000 * q) m (xs @ ys)"
    using assms(1) by (rule series_at_5m_aligned)
  note sx = series_at_append [OF s assms(2)]
  have wf: "\<And>b. b \<in> set (xs @ ys) \<Longrightarrow> wf_bar b" "\<And>b. b \<in> set xs \<Longrightarrow> wf_bar b"
    using assms(3) by (auto simp: list_all_iff)
  let ?f = "\<lambda>bs j. bucket_bar (agg_interval r) (300000 * r * j) (block bs q r j)"
  obtain js where js: "blocks_of (xs @ ys) q r = blocks_of xs q r @ js"
    "\<forall>j \<in> set js. q + int (length xs) < r * j + r"
    using blocks_of_append [OF r(2)] by blast
  have "aggregate_closed_5m_causally (xs @ ys) minutes =
      Inr (map (?f xs) (blocks_of xs q r) @ map (?f (xs @ ys)) js)"
  proof -
    have "map (?f (xs @ ys)) (blocks_of xs q r) = map (?f xs) (blocks_of xs q r)"
      using block_append [OF r(2)] by (simp cong: map_cong)
    then show ?thesis
      unfolding r(3) using aggregate_blocks [OF s wf(1) r(1)] by (simp only: js(1) map_append)
  qed
  moreover have "aggregate_closed_5m_causally xs minutes = Inr (map (?f xs) (blocks_of xs q r))"
    unfolding r(3) by (rule aggregate_blocks [OF sx wf(2) r(1)])
  moreover have "bar_open_time_ms (last xs) = 300000 * (q + int (length xs) - 1)"
    using sx assms(2) by (simp add: series_at_def last_conv_nth of_nat_diff Suc_leI algebra_simps)
  ultimately show ?thesis using js(2) r(3) by (fastforce simp: bucket_bar_def)
qed

theorem aggregate_causal_witness:
  "\<exists>old new. aggregate_closed_5m_causally (sample_5m 4) 15 = Inr old \<and>
    aggregate_closed_5m_causally (sample_5m 4 @ drop 4 (sample_5m 6)) 15 = Inr (old @ new) \<and>
    (\<forall>b \<in> set new. bar_open_time_ms (last (sample_5m 4)) + 300000 < bar_open_time_ms b + 15 * 60000)"
proof (rule aggregate_causal)
  show "series_of ''5m'' (sample_5m 4 @ drop 4 (sample_5m 6))" by code_simp
  show "list_all wf_bar (sample_5m 4 @ drop 4 (sample_5m 6))" by code_simp
qed (simp_all add: sample_5m_def)

text \<open>
  C12: what aggregation returns is again a valid history: every bar satisfies the
  \<open>Bar\<close> contract, and unless the result is empty it passes \<open>validate_series\<close> for its interval,
  so the 15m and 1h consumers of the kernel never see a gap.
\<close>

theorem aggregate_valid:
  assumes "series_of ''5m'' bars" and "list_all wf_bar bars" and "minutes = 15 \<or> minutes = 60"
  shows "\<exists>out. aggregate_closed_5m_causally bars minutes = Inr out \<and> list_all wf_bar out \<and>
    (out = [] \<or> validate_series out (Some (if minutes = 15 then ''15m'' else ''1h'')) = Inr ())"
proof -
  define r where "r = minutes div 5"
  have r: "r \<in> {3, 12}" "0 < r" "minutes = 5 * r" using assms(3) by (auto simp: r_def)
  obtain q m where s: "series_at ''5m'' 300000 (300000 * q) m bars"
    using assms(1) by (rule series_at_5m_aligned)
  let ?f = "\<lambda>j. bucket_bar (agg_interval r) (300000 * r * j) (block bars q r j)"
  let ?js = "blocks_of bars q r"
  have wf: "\<And>b. b \<in> set bars \<Longrightarrow> wf_bar b" using assms(2) by (simp add: list_all_iff)
  have out: "aggregate_closed_5m_causally bars minutes = Inr (map ?f ?js)"
    unfolding r(3) by (rule aggregate_blocks [OF s wf r(1)])
  have wfo: "list_all wf_bar (map ?f ?js)"
    using wf_block_bar [OF s r(2) _ wf, of _ "agg_interval r"] by (simp add: list_all_iff)
  have "series_at (agg_interval r) (300000 * r) (300000 * r * hd ?js) m (map ?f ?js)" if ne: "?js \<noteq> []"
  proof -
    have nth: "?js ! i = hd ?js + int i" if "i < length ?js" for i
      using that ne by (simp add: blocks_of_def hd_conv_nth)
    have "bar_market_id (hd (block bars q r j)) = m" if "j \<in> set ?js" for j
    proof -
      have "hd (block bars q r j) \<in> set bars"
        using hd_in_set [OF block_nonempty(1) [OF r(2) that]]
        by (auto simp: block_def dest: in_set_takeD in_set_dropD)
      then show ?thesis using s by (simp add: series_at_def)
    qed
    moreover have "bar_open_time_ms (map ?f ?js ! i) = 300000 * r * hd ?js + int i * (300000 * r)"
      if "i < length (map ?f ?js)" for i
      using that nth [of i] by (simp add: bucket_bar_def algebra_simps)
    ultimately show ?thesis
      using ne r(1) unfolding series_at_def by (auto simp: bucket_bar_def)
  qed
  then have "map ?f ?js = [] \<or> validate_series (map ?f ?js) (Some (agg_interval r)) = Inr ()"
    unfolding validate_series_Some series_of_def by blast
  with out wfo r show ?thesis by auto
qed

theorem aggregate_valid_witness:
  "\<exists>out. aggregate_closed_5m_causally (sample_5m 7) 15 = Inr out \<and> list_all wf_bar out \<and>
    (out = [] \<or> validate_series out (Some (if (15::int) = 15 then ''15m'' else ''1h'')) = Inr ())"
  by (rule aggregate_valid; code_simp)

text \<open>The range of a bar against the close before it, and a bar that does not move from that close.\<close>

definition range_at :: "bar list \<Rightarrow> nat \<Rightarrow> decimal" where
  "range_at bars i =
     (let b = bars ! i; prev = bar_close (bars ! (i - 1))
      in max (dsub (bar_high b) (bar_low b)) (max \<bar>dsub (bar_high b) prev\<bar> \<bar>dsub (bar_low b) prev\<bar>))"

definition unmoved :: "bar list \<Rightarrow> nat \<Rightarrow> bool" where
  "unmoved bars i \<longleftrightarrow> bar_high (bars ! i) = bar_close (bars ! (i - 1)) \<and> bar_low (bars ! i) = bar_close (bars ! (i - 1))"

lemma nth_true_ranges: "i < length bars - 1 \<Longrightarrow> true_ranges bars ! i = range_at bars (Suc i)"
proof -
  have "i < length xs - 1 \<Longrightarrow> pairwise xs ! i = (xs ! i, xs ! Suc i)" for xs :: "bar list"
  proof (induction xs arbitrary: i rule: pairwise.induct)
    case (1 x y xs)
    then show ?case by (cases i) simp_all
  qed simp_all
  moreover assume "i < length bars - 1"
  ultimately show ?thesis
    using length_true_ranges [of bars] by (simp add: true_ranges_def true_range_def range_at_def Let_def)
qed

lemma range_at_zero: "wf_bar (bars ! i) \<Longrightarrow> range_at bars i \<le> 0 \<longleftrightarrow> unmoved bars i"
  by (auto simp: range_at_def unmoved_def Let_def)

lemma foldl_dadd_pos: "0 \<le> a \<Longrightarrow> (\<And>x. x \<in> set xs \<Longrightarrow> 0 \<le> x) \<Longrightarrow> 0 < foldl dadd a xs \<longleftrightarrow> 0 < a \<or> (\<exists>x \<in> set xs. 0 < x)"
proof (induction xs arbitrary: a)
  case (Cons x xs)
  have x: "0 \<le> x" using Cons.prems(2) by simp
  have "0 \<le> dadd a x" using Cons.prems(1) x by (simp add: dadd_def dc.rnd_nonneg)
  moreover have "0 < dadd a x \<longleftrightarrow> 0 < a \<or> 0 < x" using Cons.prems(1) x by (auto simp: dadd_def dc.rnd_pos_iff)
  ultimately show ?case using Cons.IH [of "dadd a x"] Cons.prems(2) by auto
qed simp

lemma seed_positive:
  assumes "\<And>b. b \<in> set bars \<Longrightarrow> wf_bar b" "15 \<le> length bars"
  shows "0 < ddiv (dsum (take 14 (true_ranges bars))) 14 \<longleftrightarrow> \<not> (\<forall>i \<in> {1..14}. unmoved bars i)"
proof -
  let ?rs = "take 14 (true_ranges bars)"
  have rs: "?rs = map (range_at bars) [1..<15]" using assms(2) by (intro nth_equalityI) (simp_all add: nth_true_ranges)
  have nn: "0 \<le> r" if "r \<in> set ?rs" for r using true_ranges_nonneg [OF assms(1)] that by (auto dest: in_set_takeD)
  have "0 < ddiv (dsum ?rs) 14 \<longleftrightarrow> (\<exists>r \<in> set ?rs. 0 < r)"
    using foldl_dadd_pos [of 0 ?rs] nn by (simp add: ddiv_def dc.rnd_pos_iff dsum_def)
  also have "\<dots> \<longleftrightarrow> (\<exists>i \<in> {1..<15}. 0 < range_at bars i)" unfolding rs by simp
  also have "\<dots> \<longleftrightarrow> (\<exists>i \<in> {1..<15}. \<not> unmoved bars i)"
    using range_at_zero [of bars] assms by (intro bex_cong refl) (auto simp: not_le [symmetric])
  finally show ?thesis by (auto simp: atLeastLessThanSuc_atLeastAtMost [symmetric])
qed

lemma nth_atr_loop:
  assumes "0 < c" "\<And>r. r \<in> set rs \<Longrightarrow> 0 \<le> r" "j < length rs"
  shows "\<exists>x > 0. (Some c # atr_loop c rs) ! j = Some x \<and> atr_loop c rs ! j = Some (ddiv (dadd (dmul 13 x) (rs ! j)) 14)"
  using assms
proof (induction c rs arbitrary: j rule: atr_loop.induct)
  case (2 c r rs)
  let ?d = "ddiv (dadd (dmul 13 c) r) 14"
  have "0 < dmul 13 c" using 2 by (simp add: dmul_pos)
  moreover have "0 \<le> r" using 2 by simp
  ultimately have d: "0 < ?d" by (simp add: dadd_def ddiv_def dc.rnd_pos)
  show ?case
  proof (cases j)
    case 0
    then show ?thesis using d "2.prems"(1) by (simp add: Let_def)
  next
    case (Suc i)
    then show ?thesis using "2.IH" [OF refl d, of i] "2.prems" d by (simp add: Let_def)
  qed
qed simp

text \<open>
  C13: the ATR series is causal and is Wilder's average. On a valid history the
  value at an index does not depend on later bars. There is no value at all if the history has fewer than
  15 bars or if the bars 1 to 14 never leave the close before them; otherwise there is none before index
  14, at index 14 it is the mean of the first 14 ranges, and at every later index it is the value before
  it, weighted 13 to 1 with the range of the bar; all these values are positive.
\<close>

theorem wilder_atr14_series_causal:
  assumes "series_of iv (xs @ ys)" and "xs \<noteq> []" and "list_all wf_bar (xs @ ys)"
  defines "bars \<equiv> xs @ ys"
  shows "\<exists>vs. wilder_atr14_series bars = Inr vs \<and>
    wilder_atr14_series xs = Inr (take (length xs) vs) \<and> length vs = length bars \<and>
    (if length bars < 15 \<or> (\<forall>i \<in> {1..14}. unmoved bars i) then \<forall>i < length vs. vs ! i = None
     else (\<forall>i < 14. vs ! i = None) \<and> vs ! 14 = Some (ddiv (dsum (map (range_at bars) [1..<15])) 14) \<and>
       (\<forall>i < length vs. 14 \<le> i \<longrightarrow> (\<exists>a > 0. vs ! i = Some a)) \<and>
       (\<forall>i < length vs. 14 < i \<longrightarrow> vs ! i = Some (ddiv (dadd (dmul 13 (the (vs ! (i - 1)))) (range_at bars i)) 14)))"
proof -
  note v = series_of_None [OF assms(1)] series_of_None [OF series_of_append [OF assms(1,2)]]
  have wf: "\<And>b. b \<in> set bars \<Longrightarrow> wf_bar b" using assms(3) by (simp add: list_all_iff bars_def)
  let ?v = "atr_values_of bars" and ?rs = "true_ranges bars" let ?seed = "ddiv (dsum (take 14 ?rs)) 14"
  have len: "length ?v = length bars" by simp
  have main: "if length bars < 15 \<or> (\<forall>i \<in> {1..14}. unmoved bars i) then \<forall>i < length ?v. ?v ! i = None
     else (\<forall>i < 14. ?v ! i = None) \<and> ?v ! 14 = Some (ddiv (dsum (map (range_at bars) [1..<15])) 14) \<and>
       (\<forall>i < length ?v. 14 \<le> i \<longrightarrow> (\<exists>a > 0. ?v ! i = Some a)) \<and>
       (\<forall>i < length ?v. 14 < i \<longrightarrow> ?v ! i = Some (ddiv (dadd (dmul 13 (the (?v ! (i - 1)))) (range_at bars i)) 14))"
  proof (cases "length bars < 15 \<or> ?seed \<le> 0")
    case True
    then have "?v = replicate (length bars) None" by (auto simp: atr_values_of_def Let_def)
    then show ?thesis using True seed_positive [of bars, OF wf] by auto
  next
    case False
    then have sp: "0 < ?seed" "15 \<le> length bars" and move: "\<not> (\<forall>i \<in> {1..14}. unmoved bars i)"
      using seed_positive [of bars, OF wf] by auto
    have e: "?v = replicate 14 None @ Some ?seed # atr_loop ?seed (drop 14 ?rs)" using sp by (simp add: atr_values_of_def Let_def)
    have rl: "length ?rs = length bars - 1" by (rule length_true_ranges)
    have first: "take 14 ?rs = map (range_at bars) [1..<15]"
      using rl sp(2) by (intro nth_equalityI) (simp_all add: nth_true_ranges)
    have nn: "\<And>r. r \<in> set (drop 14 ?rs) \<Longrightarrow> 0 \<le> r" using true_ranges_nonneg [OF wf] by (auto dest: in_set_dropD)
    have step: "?v ! i = Some (ddiv (dadd (dmul 13 (the (?v ! (i - 1)))) (range_at bars i)) 14)" if i: "14 < i" "i < length bars" for i
    proof -
      have j: "i - 15 < length (drop 14 ?rs)" using i rl by simp
      have "drop 14 ?rs ! (i - 15) = range_at bars i" using i rl by (simp add: nth_true_ranges)
      moreover have "?v ! (i - 1) = (Some ?seed # atr_loop ?seed (drop 14 ?rs)) ! (i - 15)" "?v ! i = atr_loop ?seed (drop 14 ?rs) ! (i - 15)"
      proof -
        obtain k where "i = 15 + k" using i(1) by (metis Suc_leI eval_nat_numeral(3) le_Suc_ex)
        then show "?v ! (i - 1) = (Some ?seed # atr_loop ?seed (drop 14 ?rs)) ! (i - 15)" "?v ! i = atr_loop ?seed (drop 14 ?rs) ! (i - 15)"
          unfolding e by (simp_all add: nth_append)
      qed
      ultimately show ?thesis using nth_atr_loop [OF sp(1) nn j] by auto
    qed
    have "?v ! i = None" if "i < 14" for i using that by (simp add: e nth_append)
    moreover have "?v ! 14 = Some ?seed" by (simp add: e nth_append)
    moreover have "\<exists>a > 0. ?v ! i = Some a" if "i < length bars" "14 \<le> i" for i
      using atr_values_of_shape [of bars, OF wf] that \<open>?v ! 14 = Some ?seed\<close> by (metis option.distinct(1) order_le_less_trans)
    ultimately show ?thesis using move sp(2) step unfolding first len by auto
  qed
  show ?thesis
  proof (intro exI [of _ ?v] conjI)
    show "wilder_atr14_series bars = Inr ?v" "wilder_atr14_series xs = Inr (take (length xs) ?v)"
      using v by (simp_all add: wilder_atr14_series_def bars_def atr_values_of_prefix)
  qed (use main in simp_all)
qed

theorem wilder_atr14_series_causal_witness:
  "\<exists>vs a. wilder_atr14_series (sample_5m 15 @ drop 15 (sample_5m 17)) = Inr vs \<and>
    wilder_atr14_series (sample_5m 15) = Inr (take (length (sample_5m 15)) vs) \<and> vs ! 13 = None \<and> vs ! 16 = Some a \<and> 0 < a"
proof -
  let ?b = "sample_5m 15 @ drop 15 (sample_5m 17)"
  have s: "series_of ''5m'' ?b" "list_all wf_bar ?b" by code_simp+
  have l: "length ?b = 17" by code_simp
  have u: "\<not> unmoved ?b 1" by code_simp
  have m: "\<not> (length ?b < 15 \<or> (\<forall>i \<in> {1..14}. unmoved ?b i))" using l u by auto
  from wilder_atr14_series_causal [OF s(1) _ s(2)] obtain vs where vs: "wilder_atr14_series ?b = Inr vs"
    "wilder_atr14_series (sample_5m 15) = Inr (take (length (sample_5m 15)) vs)" "length vs = length ?b"
    "\<forall>i < 14. vs ! i = None" "\<forall>i < length vs. 14 \<le> i \<longrightarrow> (\<exists>a > 0. vs ! i = Some a)"
    unfolding if_not_P [OF m] by (auto simp: sample_5m_def)
  from vs(4) [rule_format, of 13] vs(5) [rule_format, of 16] vs(1-3) l show ?thesis by auto
qed

lemma clv_unit:
  assumes "wf_bar b" and "bar_low b < bar_high b"
  shows "\<exists>v. clv_long b = Inr v \<and> 0 \<le> v \<and> v \<le> 1" and "\<exists>v. clv_short b = Inr v \<and> 0 \<le> v \<and> v \<le> 1"
proof -
  have "dsub (bar_close b) (bar_low b) \<le> dsub (bar_high b) (bar_low b)"
    "dsub (bar_high b) (bar_close b) \<le> dsub (bar_high b) (bar_low b)"
    using assms(1) by (auto simp: wf_bar_def intro!: dsub_mono)
  moreover have "0 < dsub (bar_high b) (bar_low b)" using assms(2) by simp
  ultimately show "\<exists>v. clv_long b = Inr v \<and> 0 \<le> v \<and> v \<le> 1" "\<exists>v. clv_short b = Inr v \<and> 0 \<le> v \<and> v \<le> 1"
    using assms(1) by (auto simp: clv_long_def clv_short_def Let_def wf_bar_def not_le ddiv_unit)
qed

section \<open>Efficiency on the tick grid\<close>

text \<open>Prices that are multiples of \<open>10 ^ -k\<close> and leave room for the sums of the code.\<close>

definition on_grid :: "nat \<Rightarrow> rat \<Rightarrow> bool" where
  "on_grid k x \<longleftrightarrow> (\<exists>c. x = of_int c / 10 ^ k \<and> \<bar>c\<bar> \<le> 10 ^ 26)"

lemma dsub_grid:
  assumes "on_grid k a" and "on_grid k b"
  shows "dsub a b = a - b" and "\<exists>c. a - b = of_int c / 10 ^ k \<and> \<bar>c\<bar> \<le> 2 * 10 ^ 26"
proof -
  obtain c d where c: "a = of_int c / 10 ^ k" "\<bar>c\<bar> \<le> 10 ^ 26" and d: "b = of_int d / 10 ^ k" "\<bar>d\<bar> \<le> 10 ^ 26"
    using assms unfolding on_grid_def by blast
  have e: "a - b = of_int (c - d) / 10 ^ k" "\<bar>c - d\<bar> \<le> 2 * 10 ^ 26"
    using c d by (simp_all add: diff_divide_distrib)
  then show "\<exists>c. a - b = of_int c / 10 ^ k \<and> \<bar>c\<bar> \<le> 2 * 10 ^ 26" by blast
  show "dsub a b = a - b" unfolding dsub_def by (rule rnd_exact [OF e(1)]) (use e(2) in simp)
qed

lemma foldl_dadd_exact:
  assumes "\<And>x. x \<in> set xs \<Longrightarrow> \<exists>c. x = of_int c / 10 ^ k \<and> \<bar>c\<bar> \<le> 2 * 10 ^ 26"
    and "a = of_int n / 10 ^ k" and "\<bar>n\<bar> + int (length xs) * (2 * 10 ^ 26) < 10 ^ 28"
  shows "foldl dadd a xs = a + sum_list xs"
  using assms
proof (induction xs arbitrary: a n)
  case (Cons x xs)
  obtain c where c: "x = of_int c / 10 ^ k" "\<bar>c\<bar> \<le> 2 * 10 ^ 26" using Cons.prems(1) [of x] by auto
  have sum: "a + x = of_int (n + c) / 10 ^ k" using Cons.prems(2) c(1) by (simp add: add_divide_distrib)
  have "\<bar>n + c\<bar> + int (length xs) * (2 * 10 ^ 26) < 10 ^ 28"
    using Cons.prems(3) c(2) by (simp add: algebra_simps)
  moreover have "0 \<le> int (length xs) * (2 * 10 ^ 26)" by simp
  ultimately have small: "\<bar>n + c\<bar> + int (length xs) * (2 * 10 ^ 26) < 10 ^ 28" "\<bar>n + c\<bar> < 10 ^ 28"
    by linarith+
  have "dadd a x = a + x"
    unfolding dadd_def by (rule rnd_exact [OF sum small(2)])
  then show ?case using Cons.IH [OF Cons.prems(1) sum small(1)] by (simp add: add.assoc)
qed simp

lemma telescope_abs: "xs \<noteq> [] \<Longrightarrow>
  \<bar>f (last xs) - f (hd xs)\<bar> \<le> (\<Sum>(l, r) \<leftarrow> pairwise xs. \<bar>f r - f l\<bar>)" for f :: "'a \<Rightarrow> rat"
proof (induction xs rule: pairwise.induct)
  case (1 x y xs)
  then have "\<bar>f (last (y # xs)) - f y\<bar> \<le> (\<Sum>(l, r) \<leftarrow> pairwise (y # xs). \<bar>f r - f l\<bar>)" by simp
  then show ?case by simp
qed auto

lemma efficiency_unit:
  assumes "sel \<noteq> []" and "length sel \<le> 9" and grid: "\<And>b. b \<in> set sel \<Longrightarrow> on_grid k (bar_close b)"
  shows "0 \<le> efficiency_of sel \<and> efficiency_of sel \<le> 1"
proof -
  let ?f = "\<lambda>(l, r). dabs (dsub (bar_close r) (bar_close l))"
  let ?g = "\<lambda>(l, r). \<bar>bar_close r - bar_close l\<bar>"
  have fg: "?f p = ?g p \<and> (\<exists>c. ?g p = of_int c / 10 ^ k \<and> \<bar>c\<bar> \<le> 2 * 10 ^ 26)" if "p \<in> set (pairwise sel)" for p
  proof -
    obtain l r where lr: "p = (l, r)" by (cases p)
    with that have p: "p = (l, r)" "l \<in> set sel" "r \<in> set sel"
      using set_pairwise [of l r sel] by simp_all
    obtain c where c: "bar_close r - bar_close l = of_int c / 10 ^ k" "\<bar>c\<bar> \<le> 2 * 10 ^ 26"
      using dsub_grid(2) [OF grid [OF p(3)] grid [OF p(2)]] by blast
    show ?thesis using dsub_grid(1) [OF grid [OF p(3)] grid [OF p(2)]] c
      by (auto simp: p(1) intro!: exI [of _ "\<bar>c\<bar>"])
  qed
  have path: "close_path sel = sum_list (map ?g (pairwise sel))"
  proof -
    have "dsum (map ?g (pairwise sel)) = 0 + sum_list (map ?g (pairwise sel))"
      unfolding dsum_def
      by (rule foldl_dadd_exact [where k = k and n = 0]) (use fg assms(2) in \<open>auto simp: le_Suc_eq\<close>)
    moreover have "map ?f (pairwise sel) = map ?g (pairwise sel)" using fg by auto
    ultimately show ?thesis unfolding close_path_def by (metis add_0)
  qed
  have num: "dabs (dsub (bar_close (last sel)) (bar_close (hd sel))) = \<bar>bar_close (last sel) - bar_close (hd sel)\<bar>"
    unfolding dabs_dsub using dsub_grid(1) [OF grid grid] assms(1) by simp
  have "\<bar>bar_close (last sel) - bar_close (hd sel)\<bar> \<le> close_path sel"
    unfolding path using telescope_abs [OF assms(1), of bar_close] by simp
  moreover from this have "0 \<le> close_path sel" by linarith
  ultimately show ?thesis
    unfolding efficiency_of_def Let_def num
    using ddiv_unit [of "\<bar>bar_close (last sel) - bar_close (hd sel)\<bar>" "close_path sel"] by auto
qed

lemma hd_last_n: "0 < n \<Longrightarrow> n \<le> length xs \<Longrightarrow> last_n n xs \<noteq> []"
  by (auto simp: last_n_def)

text \<open>
  C17: ER8 lies between 0 and 1 for closes on a tick grid, so the kernel's
  0.35 threshold is a fraction of a well-defined ratio. The rounding of the context is exact there:
  without the grid hypothesis the accumulated rounding of the path could exceed the net move.
\<close>

theorem directional_efficiency_8_unit:
  assumes "series_of iv bars" and "9 \<le> length bars"
    and "\<And>b. b \<in> set bars \<Longrightarrow> on_grid k (bar_close b)"
  shows "\<exists>e. directional_efficiency_8 bars = Inr e \<and> 0 \<le> e \<and> e \<le> 1"
proof -
  have "last_n 9 bars \<noteq> []" using assms(2) by (simp add: hd_last_n)
  moreover have "\<And>b. b \<in> set (last_n 9 bars) \<Longrightarrow> on_grid k (bar_close b)"
    using set_last_n [of 9 bars] assms(3) by blast
  ultimately show ?thesis
    using efficiency_unit [of "last_n 9 bars" k] assms(2)
    by (simp add: directional_efficiency_8_def series_of_None [OF assms(1)])
qed

theorem directional_efficiency_8_unit_witness:
  "\<exists>e. directional_efficiency_8 (sample_5m 9) = Inr e \<and> 0 \<le> e \<and> e \<le> 1"
proof (rule directional_efficiency_8_unit)
  show "series_of ''5m'' (sample_5m 9)" by code_simp
  show "9 \<le> length (sample_5m 9)" by (simp add: sample_5m_def)
  show "on_grid 0 (bar_close b)" if "b \<in> set (sample_5m 9)" for b
  proof -
    from that obtain i where "bar_close b = of_int (101 + int (i mod 2)) / 10 ^ 0"
      by (auto simp: sample_5m_def)
    moreover have "\<bar>101 + int (i mod 2)\<bar> \<le> 10 ^ 26" by auto
    ultimately show ?thesis unfolding on_grid_def by blast
  qed
qed

end
