(* ===== verification/Zones.thy ===== *)
theory Zones
  imports Indicators
begin

text \<open>
  The deterministic 15m reaction-zone engine,
  \<^verbatim>\<open>src/src/trader_assist_v0/multi_asset_shadow/strategy_kernel/zones.py\<close>: qualified reactions,
  their clusters, the zone geometry, the suppression of overlapping zones and the choice of
  the active support and resistance.
\<close>

section \<open>Identities\<close>

definition ZONE_LOOKBACK_15M :: int where "ZONE_LOOKBACK_15M = 96"

definition zone_digest :: "hashing \<Rightarrow> string \<Rightarrow> string" where
  "zone_digest H v = hexdigest H v"

definition make_reaction_id :: "hashing \<Rightarrow> string \<Rightarrow> zone_type \<Rightarrow> bar \<Rightarrow> int \<Rightarrow> string" where
  "make_reaction_id H market zt pivot confirmed =
     zone_digest H (market @ zone_type_value zt @ candle_id H pivot @ int_str confirmed @
       PARAMETER_VERSION)"

definition make_zone_id :: "hashing \<Rightarrow> string \<Rightarrow> zone_type \<Rightarrow> string list \<Rightarrow> string" where
  "make_zone_id H market zt reaction_ids =
     zone_digest H (market @ zone_type_value zt @ concat (sort reaction_ids) @ PARAMETER_VERSION)"

section \<open>Qualified reactions\<close>

text \<open>\<open>bars[pivot_index + 1 : index + 1]\<close>, non-empty because \<open>index\<close> is beyond the pivot.\<close>

definition bars_between :: "bar list \<Rightarrow> nat \<Rightarrow> nat \<Rightarrow> bar list" where
  "bars_between bars p i = take (i - p) (drop (p + 1) bars)"

definition move_away :: "zone_type \<Rightarrow> bar list \<Rightarrow> nat \<Rightarrow> nat \<Rightarrow> decimal" where
  "move_away zt bars p i =
     (if zt = ZHIGH then dsub (bar_high (bars ! p)) (list_min (map bar_low (bars_between bars p i)))
      else dsub (list_max (map bar_high (bars_between bars p i))) (bar_low (bars ! p)))"

definition qualifying_index :: "zone_type \<Rightarrow> bar list \<Rightarrow> nat \<Rightarrow> decimal \<Rightarrow> nat option" where
  "qualifying_index zt bars p a15 =
     find (\<lambda>i. dmul 0.50 a15 \<le> move_away zt bars p i) [p + 1 ..< min (p + 5) (length bars)]"

definition pivot_price :: "zone_type \<Rightarrow> bar \<Rightarrow> decimal" where
  "pivot_price zt b = (if zt = ZHIGH then bar_high b else bar_low b)"

definition reaction_at ::
  "hashing \<Rightarrow> bar list \<Rightarrow> int \<Rightarrow> zone_type \<Rightarrow> nat \<Rightarrow> decimal \<Rightarrow> nat \<Rightarrow> reaction" where
  "reaction_at H bars offset zt p a15 qi =
     (let pivot = bars ! p in
      \<lparr> reaction_id = make_reaction_id H (bar_market_id pivot) zt pivot (offset + int qi),
        re_market_id = bar_market_id pivot, re_zone_type = zt,
        pivot_bar_index = offset + int p, confirmed_bar_index = offset + int qi,
        re_price = pivot_price zt pivot, a15_reaction = a15 \<rparr>)"

text \<open>The body of the loop over the pivots of one type; \<open>typed\<close> is the list built so far.\<close>

definition reaction_step ::
  "hashing \<Rightarrow> bar list \<Rightarrow> decimal option list \<Rightarrow> int \<Rightarrow> zone_type \<Rightarrow> reaction list \<Rightarrow> nat \<Rightarrow> reaction list"
where
  "reaction_step H bars atr offset zt typed p =
     (if int p < max 1 (int (length bars) - ZONE_LOOKBACK_15M) then typed
      else case atr ! (p + 1) of
        None \<Rightarrow> typed
      | Some a15 \<Rightarrow>
          (case qualifying_index zt bars p a15 of
             None \<Rightarrow> typed
           | Some qi \<Rightarrow>
               let r = reaction_at H bars offset zt p a15 qi
               in if typed \<noteq> [] \<and> offset + int p - pivot_bar_index (last typed) < 2 then
                    (if (if zt = ZHIGH then re_price (last typed) < re_price r
                         else re_price r < re_price (last typed))
                     then butlast typed @ [r] else typed)
                  else typed @ [r]))"

definition typed_reactions ::
  "hashing \<Rightarrow> bar list \<Rightarrow> decimal option list \<Rightarrow> int \<Rightarrow> zone_type \<Rightarrow> nat list \<Rightarrow> reaction list" where
  "typed_reactions H bars atr offset zt pivots = foldl (reaction_step H bars atr offset zt) [] pivots"

definition reaction_key :: "reaction \<Rightarrow> int \<times> string \<times> int \<times> string" where
  "reaction_key r =
     (confirmed_bar_index r, zone_type_value (re_zone_type r), pivot_bar_index r, reaction_id r)"

definition qualified_reactions ::
  "hashing \<Rightarrow> bar list \<Rightarrow> decimal option list option \<Rightarrow> int \<Rightarrow> reaction list res" where
  "qualified_reactions H bars atr_values offset =
     rbind (case atr_values of None \<Rightarrow> wilder_atr14_series bars | Some vs \<Rightarrow> Inr vs) (\<lambda>atr.
       if length atr \<noteq> length bars \<or> offset < 0
       then Inl (KernelInputError ''zone continuation identity is invalid'')
       else
         rbind (causal_pivot_high_indices bars) (\<lambda>highs.
         rbind (causal_pivot_low_indices bars) (\<lambda>lows.
           Inr (sort_key reaction_key
             (typed_reactions H bars atr offset ZHIGH highs @
              typed_reactions H bars atr offset ZLOW lows)))))"

section \<open>Clusters\<close>

record cluster =
  cl_zone_type :: zone_type
  cl_members :: "reaction list"
  cl_created_bar_index :: int

definition cluster_center :: "cluster \<Rightarrow> decimal res" where
  "cluster_center c = median (map re_price (cl_members c))"

definition cluster_identity :: "hashing \<Rightarrow> cluster \<Rightarrow> string" where
  "cluster_identity H c =
     make_zone_id H (re_market_id (hd (cl_members c))) (cl_zone_type c) (map reaction_id (cl_members c))"

text \<open>
  The scan for eligible clusters. The code keeps a reference to the cluster object; the model
  keeps its position.
\<close>

fun eligible_clusters ::
  "hashing \<Rightarrow> decimal \<Rightarrow> reaction \<Rightarrow> nat \<Rightarrow> cluster list \<Rightarrow> (decimal \<times> int \<times> string \<times> nat) list res" where
  "eligible_clusters H tick r i [] = Inr []"
| "eligible_clusters H tick r i (c # cs) =
     (if cl_zone_type c \<noteq> re_zone_type r then eligible_clusters H tick r (Suc i) cs
      else
        rbind (cluster_center c) (\<lambda>center.
          let distance = dabs (dsub (re_price r) center);
              threshold = max (dmul 0.20 (a15_reaction r)) (dmul 2 tick)
          in rbind (eligible_clusters H tick r (Suc i) cs) (\<lambda>rest.
               Inr (if distance \<le> threshold
                    then (distance, cl_created_bar_index c, cluster_identity H c, i) # rest
                    else rest))))"

definition eligible_key :: "decimal \<times> int \<times> string \<times> nat \<Rightarrow> decimal \<times> int \<times> string" where
  "eligible_key = (\<lambda>(d, b, s, _). (d, b, s))"

definition cluster_step :: "hashing \<Rightarrow> decimal \<Rightarrow> reaction \<Rightarrow> cluster list \<Rightarrow> cluster list res" where
  "cluster_step H tick r cs =
     rbind (eligible_clusters H tick r 0 cs) (\<lambda>el.
       case sort_key eligible_key el of
         [] \<Rightarrow> Inr (cs @ [\<lparr> cl_zone_type = re_zone_type r, cl_members = [r],
                           cl_created_bar_index = confirmed_bar_index r \<rparr>])
       | (_, _, _, i) # _ \<Rightarrow>
           Inr (cs[i := (cs ! i)\<lparr> cl_members := cl_members (cs ! i) @ [r] \<rparr>]))"

definition clusters :: "hashing \<Rightarrow> reaction list \<Rightarrow> decimal \<Rightarrow> cluster list res" where
  "clusters H rs tick = rfold (cluster_step H tick) rs []"

section \<open>Overlap suppression\<close>

definition distance_to_zone :: "decimal \<Rightarrow> zone_snapshot \<Rightarrow> decimal" where
  "distance_to_zone v z =
     (if zone_contains z v then 0
      else min (dabs (dsub v (zone_low z))) (dabs (dsub v (zone_high z))))"

definition overlap_reaches_threshold :: "zone_snapshot \<Rightarrow> zone_snapshot \<Rightarrow> bool" where
  "overlap_reaches_threshold l r \<longleftrightarrow>
     (let overlap = dsub (min (zone_high l) (zone_high r)) (max (zone_low l) (zone_low r))
      in if overlap \<le> 0 then False
         else dmul 0.50 (min (zone_width l) (zone_width r)) \<le> overlap)"

definition zone_candidate :: "zone_snapshot \<Rightarrow> bool" where
  "zone_candidate z \<longleftrightarrow> active_for_new_event z \<and> quality_rank ZQ2 \<le> quality_rank (quality z)"

definition suppress_key ::
  "decimal \<Rightarrow> zone_snapshot \<Rightarrow> int \<times> int \<times> int \<times> decimal \<times> string" where
  "suppress_key close z =
     (- quality_rank (quality z), - reaction_count z, - latest_reaction_bar_index z,
      distance_to_zone close z, zone_id z)"

fun winner_loop ::
  "zone_snapshot list \<Rightarrow> zone_snapshot list \<Rightarrow> string set \<Rightarrow> zone_snapshot list \<times> string set" where
  "winner_loop [] winners ids = (winners, ids)"
| "winner_loop (c # cs) winners ids =
     (if \<exists>w \<in> set winners. overlap_reaches_threshold c w
      then winner_loop cs winners (insert (zone_id c) ids)
      else winner_loop cs (winners @ [c]) ids)"

definition suppress_type ::
  "decimal \<Rightarrow> zone_snapshot list \<Rightarrow> zone_type \<Rightarrow> zone_snapshot list" where
  "suppress_type close output zt =
     (let candidates = filter (\<lambda>z. zone_kind z = zt \<and> zone_candidate z) output;
          ids = snd (winner_loop (sort_key (suppress_key close) candidates) [] {})
      in map (\<lambda>z. if zone_id z \<in> ids then z\<lparr> suppressed := True \<rparr> else z) output)"

definition zone_order_key :: "zone_snapshot \<Rightarrow> string \<times> decimal \<times> string" where
  "zone_order_key z = (zone_type_value (zone_kind z), zone_center z, zone_id z)"

text \<open>
  \<open>replace(item, suppressed=True)\<close> runs the constructor checks again; they do not read the
  changed field and held for \<open>item\<close>.
\<close>

definition suppress_overlaps :: "zone_snapshot list \<Rightarrow> decimal \<Rightarrow> zone_snapshot list" where
  "suppress_overlaps zs close =
     sort_key zone_order_key (foldl (suppress_type close) zs [ZHIGH, ZLOW])"

section \<open>The zone book\<close>

definition zone_of_cluster ::
  "hashing \<Rightarrow> string \<Rightarrow> decimal \<Rightarrow> int \<Rightarrow> cluster \<Rightarrow> zone_snapshot res" where
  "zone_of_cluster H market a15 evaluation_index c =
     (let prices = map re_price (cl_members c) in
      rbind (median prices) (\<lambda>center.
      rbind (median (map (\<lambda>p. dabs (dsub p center)) prices)) (\<lambda>mad.
        let minimum_width = dmul 0.15 a15;
            maximum_width = dmul 0.40 a15;
            raw_half_width = max (dmul 1.5 mad) minimum_width;
            hw = min (max raw_half_width minimum_width) maximum_width;
            latest = list_max (map confirmed_bar_index (cl_members c));
            count = length (cl_members c);
            q = (if 3 \<le> count then ZQ3 else if 2 \<le> count then ZQ2 else ZQ1);
            age = evaluation_index - latest;
            ids = map reaction_id (cl_members c)
        in make_zone
             \<lparr> zone_id = make_zone_id H market (cl_zone_type c) ids, zone_market_id = market,
               zone_kind = cl_zone_type c, zone_center = center,
               zone_low = dsub center hw, zone_high = dadd center hw, half_width = hw,
               quality = q, reaction_count = int count, latest_reaction_bar_index = latest,
               member_reaction_ids = ids,
               active_for_new_event = (quality_rank ZQ2 \<le> quality_rank q \<and> age \<le> 24),
               suppressed = False \<rparr>)))"

definition zone_eligible :: "zone_snapshot \<Rightarrow> bool" where
  "zone_eligible z \<longleftrightarrow>
     active_for_new_event z \<and> \<not> suppressed z \<and> quality_rank ZQ2 \<le> quality_rank (quality z)"

definition nearest_key :: "decimal \<Rightarrow> zone_snapshot \<Rightarrow> decimal \<times> string" where
  "nearest_key close z = (distance_to_zone close z, zone_id z)"

definition book_of :: "decimal \<Rightarrow> reaction list \<Rightarrow> zone_snapshot list \<Rightarrow> zone_book" where
  "book_of close rs zs =
     (let selected = suppress_overlaps zs close;
          eligible = filter zone_eligible selected;
          supports = filter (\<lambda>z. zone_kind z = ZLOW \<and> zone_low z \<le> close) eligible;
          resistances = filter (\<lambda>z. zone_kind z = ZHIGH \<and> close \<le> zone_high z) eligible
      in \<lparr> zones = selected, reactions = rs,
           active_support = min_by (nearest_key close) supports,
           active_resistance = min_by (nearest_key close) resistances \<rparr>)"

definition build_zone_book ::
  "hashing \<Rightarrow> bar list \<Rightarrow> decimal \<Rightarrow> decimal option list option \<Rightarrow> int \<Rightarrow> zone_book res" where
  "build_zone_book H bars tick atr_values offset =
     rbind (validate_series bars (Some ''15m'')) (\<lambda>_.
       if tick \<le> 0 then Inl (KernelInputError ''minimum tick must be positive and finite'')
       else
         rbind (case atr_values of None \<Rightarrow> wilder_atr14_series bars | Some vs \<Rightarrow> Inr vs) (\<lambda>atr.
           if length atr \<noteq> length bars \<or> offset < 0
           then Inl (KernelInputError ''zone continuation identity is invalid'')
           else case last atr of
             None \<Rightarrow> Inl (KernelInputError ''zone engine requires current A15'')
           | Some a15 \<Rightarrow>
               rbind (qualified_reactions H bars (Some atr) offset) (\<lambda>rs.
               rbind (clusters H rs tick) (\<lambda>cs.
               rbind (rmap (zone_of_cluster H (bar_market_id (hd bars)) a15
                              (offset + int (length bars) - 1)) cs) (\<lambda>zs.
                 Inr (book_of (bar_close (last bars)) rs zs))))))"

section \<open>Greedy selection\<close>

text \<open>
  The contract of a selection loop: an item is dropped when it conflicts with a winner, and
  becomes a winner otherwise. The suppression of the zones is its instance.
\<close>

locale greedy_selection =
  fixes conflict :: "'a \<Rightarrow> 'a \<Rightarrow> bool"
    and key :: "'a \<Rightarrow> 'k"
    and loop :: "'a list \<Rightarrow> 'a list \<Rightarrow> 'k set \<Rightarrow> 'a list \<times> 'k set"
  assumes loop_Nil: "loop [] ws ds = (ws, ds)"
    and loop_Cons: "loop (c # cs) ws ds =
      (if \<exists>w \<in> set ws. conflict c w then loop cs ws (insert (key c) ds) else loop cs (ws @ [c]) ds)"
    and conflict_sym: "conflict a b \<Longrightarrow> conflict b a"
begin

lemma keeps_winners: "set ws \<subseteq> set (fst (loop cs ws ds)) \<and> ds \<subseteq> snd (loop cs ws ds)"
proof (induction cs arbitrary: ws ds)
  case (Cons c cs)
  have "set ws \<subseteq> set (fst (loop cs (ws @ [c]) ds))" "ds \<subseteq> snd (loop cs ws (insert (key c) ds))"
    using Cons [of "ws @ [c]" ds] Cons [of ws "insert (key c) ds"] by auto
  then show ?case using Cons [of "ws @ [c]" ds] Cons [of ws "insert (key c) ds"] by (simp add: loop_Cons)
qed (simp add: loop_Nil)

lemma winners_from: "set (fst (loop cs ws ds)) \<subseteq> set ws \<union> set cs"
proof (induction cs arbitrary: ws ds)
  case (Cons c cs)
  show ?case using Cons [of "ws @ [c]" ds] Cons [of ws "insert (key c) ds"] by (auto simp: loop_Cons)
qed (simp add: loop_Nil)

lemma winners_conflict_free:
  assumes "\<And>a b. a \<in> set ws \<Longrightarrow> b \<in> set ws \<Longrightarrow> a \<noteq> b \<Longrightarrow> \<not> conflict a b"
    and "a \<in> set (fst (loop cs ws ds))" "b \<in> set (fst (loop cs ws ds))" "a \<noteq> b"
  shows "\<not> conflict a b"
  using assms
proof (induction cs arbitrary: ws ds)
  case (Cons c cs)
  show ?case
  proof (cases "\<exists>w \<in> set ws. conflict c w")
    case True
    then show ?thesis
      using Cons.IH [of ws "insert (key c) ds"] Cons.prems by (simp add: loop_Cons)
  next
    case False
    have "\<not> conflict x y" if "x \<in> set (ws @ [c])" "y \<in> set (ws @ [c])" "x \<noteq> y" for x y
      using that False Cons.prems(1) [of x y] conflict_sym [of x y] by auto
    then show ?thesis
      using Cons.IH [of "ws @ [c]" ds] Cons.prems(2-4) False by (simp add: loop_Cons)
  qed
qed (auto simp: loop_Nil)

lemma covered: "c \<in> set cs \<Longrightarrow> c \<in> set (fst (loop cs ws ds)) \<or> key c \<in> snd (loop cs ws ds)"
proof (induction cs arbitrary: ws ds)
  case (Cons d cs)
  have "d \<in> set (fst (loop cs (ws @ [d]) ds))" "key d \<in> snd (loop cs ws (insert (key d) ds))"
    using keeps_winners [of "ws @ [d]" cs ds] keeps_winners [of ws cs "insert (key d) ds"] by auto
  then show ?case
    using Cons.prems Cons.IH [of "ws @ [d]" ds] Cons.IH [of ws "insert (key d) ds"]
    by (auto simp: loop_Cons)
qed simp

lemma dropped_dominated:
  fixes rank :: "'a \<Rightarrow> 'r::linorder"
  assumes "k \<in> snd (loop cs ws ds)" and "k \<notin> ds"
    and "sorted (map rank cs)" and "\<And>w c. w \<in> set ws \<Longrightarrow> c \<in> set cs \<Longrightarrow> rank w \<le> rank c"
  shows "\<exists>c \<in> set cs. key c = k \<and> (\<exists>w \<in> set (fst (loop cs ws ds)). conflict c w \<and> rank w \<le> rank c)"
  using assms
proof (induction cs arbitrary: ws ds)
  case (Cons c cs)
  show ?case
  proof (cases "\<exists>w \<in> set ws. conflict c w")
    case True
    then obtain w where w: "w \<in> set ws" "conflict c w" by blast
    have win: "w \<in> set (fst (loop cs ws (insert (key c) ds)))"
      using keeps_winners [of ws cs "insert (key c) ds"] w(1) by auto
    show ?thesis
    proof (cases "k = key c")
      case True
      then show ?thesis using w win Cons.prems(4) \<open>\<exists>w \<in> set ws. conflict c w\<close> by (auto simp: loop_Cons)
    next
      case False
      then show ?thesis
        using Cons.IH [of ws "insert (key c) ds"] Cons.prems \<open>\<exists>w \<in> set ws. conflict c w\<close>
        by (auto simp: loop_Cons)
    qed
  next
    case False
    have "rank w \<le> rank d" if "w \<in> set (ws @ [c])" "d \<in> set cs" for w d
      using that Cons.prems(3,4) by auto
    then show ?thesis using Cons.IH [of "ws @ [c]" ds] Cons.prems False by (auto simp: loop_Cons)
  qed
qed (simp add: loop_Nil)

lemma winners_not_dropped:
  assumes "distinct (map key (ws @ cs))" and "key ` (set ws \<union> set cs) \<inter> ds = {}"
  shows "key ` set (fst (loop cs ws ds)) \<inter> snd (loop cs ws ds) = {}"
  using assms
proof (induction cs arbitrary: ws ds)
  case (Cons c cs)
  have 1: "key ` (set (ws @ [c]) \<union> set cs) \<inter> ds = {}" using Cons.prems(2) by auto
  have 2: "key ` set (fst (loop cs ws (insert (key c) ds))) \<inter> snd (loop cs ws (insert (key c) ds)) = {}"
    using Cons.IH [of ws "insert (key c) ds"] Cons.prems by auto
  show ?case using Cons.IH [of "ws @ [c]" ds] Cons.prems 1 2 by (simp add: loop_Cons)
qed (simp add: loop_Nil)

end

lemma overlap_sym: "overlap_reaches_threshold l r \<Longrightarrow> overlap_reaches_threshold r l"
  unfolding overlap_reaches_threshold_def Let_def by (simp only: min.commute max.commute)

interpretation zs: greedy_selection overlap_reaches_threshold zone_id winner_loop
  by unfold_locales (auto simp: overlap_sym)

definition unmark :: "zone_snapshot \<Rightarrow> zone_snapshot" where
  "unmark z = z\<lparr> suppressed := False \<rparr>"

lemma unmark_simps [simp]:
  "zone_kind (unmark z) = zone_kind z" "zone_id (unmark z) = zone_id z"
  "zone_candidate (unmark z) = zone_candidate z" "unmark (z\<lparr> suppressed := b \<rparr>) = unmark z"
  "overlap_reaches_threshold (unmark z) w = overlap_reaches_threshold z w"
  "overlap_reaches_threshold w (unmark z) = overlap_reaches_threshold w z"
  "suppress_key close (unmark z) = suppress_key close z"
  by (simp_all add: unmark_def zone_candidate_def overlap_reaches_threshold_def zone_width_def
      suppress_key_def distance_to_zone_def zone_contains_def)

lemma suppressed_update_simps [simp]:
  "zone_candidate (z\<lparr> suppressed := b \<rparr>) = zone_candidate z"
  "overlap_reaches_threshold (z\<lparr> suppressed := b \<rparr>) w = overlap_reaches_threshold z w"
  "overlap_reaches_threshold w (z\<lparr> suppressed := b \<rparr>) = overlap_reaches_threshold w z"
  "suppress_key close (z\<lparr> suppressed := b \<rparr>) = suppress_key close z"
  by (simp_all add: zone_candidate_def overlap_reaches_threshold_def zone_width_def
      suppress_key_def distance_to_zone_def zone_contains_def)

definition dropped_ids :: "decimal \<Rightarrow> zone_snapshot list \<Rightarrow> zone_type \<Rightarrow> string set" where
  "dropped_ids close out zt =
     snd (winner_loop (sort_key (suppress_key close)
       (filter (\<lambda>z. zone_kind z = zt \<and> zone_candidate z) out)) [] {})"

lemma suppress_type_map:
  "suppress_type close out zt =
     map (\<lambda>z. if zone_id z \<in> dropped_ids close out zt then z\<lparr> suppressed := True \<rparr> else z) out"
  by (simp add: suppress_type_def dropped_ids_def Let_def)

lemma dropped_ids_props:
  assumes "distinct (map zone_id out)"
  shows "\<And>z. z \<in> set out \<Longrightarrow> zone_id z \<in> dropped_ids close out zt \<Longrightarrow>
      zone_kind z = zt \<and> zone_candidate z \<and>
      (\<exists>w \<in> set out. zone_kind w = zt \<and> zone_candidate w \<and> zone_id w \<notin> dropped_ids close out zt \<and>
        overlap_reaches_threshold z w \<and> suppress_key close w \<le> suppress_key close z)"
    and "\<And>z w. z \<in> set out \<Longrightarrow> w \<in> set out \<Longrightarrow> zone_kind z = zt \<Longrightarrow> zone_kind w = zt \<Longrightarrow>
      zone_candidate z \<Longrightarrow> zone_candidate w \<Longrightarrow> zone_id z \<notin> dropped_ids close out zt \<Longrightarrow>
      zone_id w \<notin> dropped_ids close out zt \<Longrightarrow> z \<noteq> w \<Longrightarrow> \<not> overlap_reaches_threshold z w"
proof -
  let ?c = "sort_key (suppress_key close) (filter (\<lambda>z. zone_kind z = zt \<and> zone_candidate z) out)"
  have inj: "inj_on zone_id (set out)" using assms by (simp add: distinct_map)
  have dist: "distinct (map zone_id ([] @ ?c))"
    using inj assms by (auto simp: distinct_map inj_on_def)
  note disj = zs.winners_not_dropped [OF dist, of "{}", simplified]
  show "zone_kind z = zt \<and> zone_candidate z \<and>
      (\<exists>w \<in> set out. zone_kind w = zt \<and> zone_candidate w \<and> zone_id w \<notin> dropped_ids close out zt \<and>
        overlap_reaches_threshold z w \<and> suppress_key close w \<le> suppress_key close z)"
    if z: "z \<in> set out" "zone_id z \<in> dropped_ids close out zt" for z
  proof -
    obtain c w where cw: "c \<in> set ?c" "zone_id c = zone_id z" "w \<in> set (fst (winner_loop ?c [] {}))"
      "overlap_reaches_threshold c w" "suppress_key close w \<le> suppress_key close c"
      using zs.dropped_dominated [of "zone_id z" ?c "[]" "{}" "suppress_key close"] z(2)
      by (auto simp: dropped_ids_def)
    have "c = z" using cw(1,2) z(1) inj by (auto dest: inj_onD)
    moreover have "w \<in> set ?c" using zs.winners_from [of ?c "[]" "{}"] cw(3) by auto
    moreover have "zone_id w \<notin> dropped_ids close out zt" using disj cw(3) by (auto simp: dropped_ids_def)
    ultimately show ?thesis using cw by auto
  qed
  show "\<not> overlap_reaches_threshold z w"
    if "z \<in> set out" "w \<in> set out" "zone_kind z = zt" "zone_kind w = zt" "zone_candidate z" "zone_candidate w"
      "zone_id z \<notin> dropped_ids close out zt" "zone_id w \<notin> dropped_ids close out zt" "z \<noteq> w" for z w
  proof (rule zs.winners_conflict_free [of "[]"])
    show "z \<in> set (fst (winner_loop ?c [] {}))" "w \<in> set (fst (winner_loop ?c [] {}))"
      using zs.covered [of z ?c "[]" "{}"] zs.covered [of w ?c "[]" "{}"] that by (auto simp: dropped_ids_def)
  qed (use that in auto)
qed

lemma suppress_type_props:
  fixes close :: decimal
  assumes "distinct (map zone_id out)" and "\<And>z. z \<in> set out \<Longrightarrow> zone_kind z = zt \<Longrightarrow> \<not> suppressed z"
  defines "res \<equiv> suppress_type close out zt"
  shows "map unmark res = map unmark out"
    and "filter (\<lambda>z. zone_kind z \<noteq> zt) res = filter (\<lambda>z. zone_kind z \<noteq> zt) out"
    and "\<And>a. a \<in> set res \<Longrightarrow> zone_kind a = zt \<Longrightarrow> suppressed a \<Longrightarrow> zone_candidate a \<and>
      (\<exists>b \<in> set res. zone_kind b = zt \<and> zone_candidate b \<and> \<not> suppressed b \<and>
        overlap_reaches_threshold a b \<and> suppress_key close b \<le> suppress_key close a)"
    and "\<And>a b. a \<in> set res \<Longrightarrow> b \<in> set res \<Longrightarrow> zone_kind a = zt \<Longrightarrow> zone_kind b = zt \<Longrightarrow>
      zone_candidate a \<Longrightarrow> zone_candidate b \<Longrightarrow> \<not> suppressed a \<Longrightarrow> \<not> suppressed b \<Longrightarrow> a \<noteq> b \<Longrightarrow>
      \<not> overlap_reaches_threshold a b"
proof -
  let ?D = "dropped_ids close out zt"
  let ?f = "\<lambda>z. if zone_id z \<in> ?D then z\<lparr> suppressed := True \<rparr> else z"
  have res: "res = map ?f out" by (simp add: res_def suppress_type_map)
  note P = dropped_ids_props [OF assms(1)]
  show "map unmark res = map unmark out" by (simp add: res comp_def)
  have same: "?f z = z" if "z \<in> set out" "zone_kind z \<noteq> zt" for z
    using P(1) [OF that(1), of close zt] that(2) by auto
  have kind: "zone_kind (?f z) = zone_kind z" for z by simp
  have "filter (\<lambda>z. zone_kind z \<noteq> zt) res = map ?f (filter (\<lambda>z. zone_kind z \<noteq> zt) out)"
    unfolding res filter_map comp_def kind ..
  also have "\<dots> = filter (\<lambda>z. zone_kind z \<noteq> zt) out"
    using same by (intro map_idI) simp
  finally show "filter (\<lambda>z. zone_kind z \<noteq> zt) res = filter (\<lambda>z. zone_kind z \<noteq> zt) out" .
  show "zone_candidate a \<and> (\<exists>b \<in> set res. zone_kind b = zt \<and> zone_candidate b \<and> \<not> suppressed b \<and>
        overlap_reaches_threshold a b \<and> suppress_key close b \<le> suppress_key close a)"
    if a: "a \<in> set res" "zone_kind a = zt" "suppressed a" for a
  proof -
    obtain z where z: "z \<in> set out" "a = ?f z" using a(1) res by auto
    have zt: "zone_kind z = zt" using a(2) z(2) kind by metis
    have "zone_id z \<in> ?D" using a(3) assms(2) [OF z(1) zt] z(2) by (auto split: if_splits)
    from P(1) [OF z(1) this] obtain w where w: "w \<in> set out" "zone_kind w = zt" "zone_candidate w"
      "zone_id w \<notin> ?D" "overlap_reaches_threshold z w" "suppress_key close w \<le> suppress_key close z"
      "zone_candidate z" by blast
    have "w \<in> set res" using w(1,4) unfolding res by force
    then show ?thesis using w z(2) \<open>zone_id z \<in> ?D\<close> assms(2) [OF w(1,2)] by auto
  qed
  show "\<not> overlap_reaches_threshold a b"
    if ab: "a \<in> set res" "b \<in> set res" "zone_kind a = zt" "zone_kind b = zt" "zone_candidate a" "zone_candidate b"
      "\<not> suppressed a" "\<not> suppressed b" "a \<noteq> b" for a b
  proof -
    have out: "x \<in> set out \<and> zone_id x \<notin> ?D" if "x \<in> set res" "\<not> suppressed x" for x
      using that unfolding res by (auto split: if_splits)
    show ?thesis using P(2) [of a b] out [OF ab(1,7)] out [OF ab(2,8)] ab by blast
  qed
qed

definition suppression_ok :: "decimal \<Rightarrow> zone_type \<Rightarrow> zone_snapshot set \<Rightarrow> bool" where
  "suppression_ok close zt Z \<longleftrightarrow>
     (\<forall>a \<in> Z. zone_kind a = zt \<and> suppressed a \<longrightarrow> zone_candidate a \<and>
       (\<exists>b \<in> Z. zone_kind b = zt \<and> zone_candidate b \<and> \<not> suppressed b \<and>
         overlap_reaches_threshold a b \<and> suppress_key close b \<le> suppress_key close a)) \<and>
     (\<forall>a \<in> Z. \<forall>b \<in> Z. zone_kind a = zt \<and> zone_kind b = zt \<and> zone_candidate a \<and> zone_candidate b \<and>
       \<not> suppressed a \<and> \<not> suppressed b \<and> a \<noteq> b \<longrightarrow> \<not> overlap_reaches_threshold a b)"

lemma suppression_ok_cong:
  assumes "{z \<in> Z. zone_kind z = zt} = {z \<in> Z'. zone_kind z = zt}"
  shows "suppression_ok close zt Z = suppression_ok close zt Z'"
proof -
  have "z \<in> Z \<and> zone_kind z = zt \<longleftrightarrow> z \<in> Z' \<and> zone_kind z = zt" for z using assms by auto
  then show ?thesis unfolding suppression_ok_def by meson
qed

lemma suppress_overlaps_facts:
  assumes "distinct (map zone_id zs)" and "\<forall>z \<in> set zs. \<not> suppressed z"
  shows "mset (map unmark (suppress_overlaps zs close)) = mset zs"
    and "suppression_ok close zt (set (suppress_overlaps zs close))"
proof -
  define o1 where "o1 = suppress_type close zs ZHIGH"
  define o2 where "o2 = suppress_type close o1 ZLOW"
  have out: "suppress_overlaps zs close = sort_key zone_order_key o2"
    by (simp add: suppress_overlaps_def o1_def o2_def)
  have p1: "map unmark o1 = map unmark zs"
    "filter (\<lambda>z. zone_kind z \<noteq> ZHIGH) o1 = filter (\<lambda>z. zone_kind z \<noteq> ZHIGH) zs"
    and ok1: "suppression_ok close ZHIGH (set o1)"
    using suppress_type_props [where close = close, OF assms(1), of ZHIGH] assms(2)
    unfolding o1_def suppression_ok_def by simp_all
  have "map zone_id o1 = map zone_id (map unmark o1)" by (simp add: comp_def)
  also have "\<dots> = map zone_id zs" unfolding p1(1) by (simp add: comp_def)
  finally have d1: "distinct (map zone_id o1)" using assms(1) by simp
  have low: "\<not> suppressed z" if "z \<in> set o1" "zone_kind z = ZLOW" for z
  proof -
    have "z \<in> set (filter (\<lambda>z. zone_kind z \<noteq> ZHIGH) o1)" using that by simp
    then show ?thesis using assms(2) unfolding p1(2) by simp
  qed
  have p2: "map unmark o2 = map unmark o1"
    "filter (\<lambda>z. zone_kind z \<noteq> ZLOW) o2 = filter (\<lambda>z. zone_kind z \<noteq> ZLOW) o1"
    and ok2: "suppression_ok close ZLOW (set o2)"
    using suppress_type_props [where close = close, OF d1, of ZLOW] low
    unfolding o2_def suppression_ok_def by simp_all
  have kh: "zone_kind z \<noteq> ZLOW \<longleftrightarrow> zone_kind z = ZHIGH" for z :: zone_snapshot
    by (cases "zone_kind z") auto
  have "{z \<in> set o2. zone_kind z = ZHIGH} = set (filter (\<lambda>z. zone_kind z \<noteq> ZLOW) o2)"
    by (auto simp: kh)
  also have "\<dots> = {z \<in> set o1. zone_kind z = ZHIGH}" unfolding p2(2) by (auto simp: kh)
  finally have "suppression_ok close ZHIGH (set o2)" using ok1 suppression_ok_cong by blast
  with ok2 show "suppression_ok close zt (set (suppress_overlaps zs close))"
    by (cases zt) (simp_all add: out)
  have "map unmark zs = zs" using assms(2) by (intro map_idI) (simp add: unmark_def)
  then have "map unmark o2 = zs" using p1(1) p2(1) by simp
  then show "mset (map unmark (suppress_overlaps zs close)) = mset zs"
    by (metis out mset_map mset_sort)
qed

text \<open>
  C7: overlap suppression only sets flags; no two different kept candidate
  zones of one type overlap by half of the narrower one; and a zone is suppressed only for a kept
  candidate of its type that overlaps it and is not worse in the order of quality, reaction count,
  recency, distance and identity.
\<close>

theorem suppress_overlaps_correct:
  assumes "distinct (map zone_id zs)" and "\<forall>z \<in> set zs. \<not> suppressed z"
  shows "mset (map (\<lambda>z. z\<lparr> suppressed := False \<rparr>) (suppress_overlaps zs close)) = mset zs \<and>
    (\<forall>a \<in> set (suppress_overlaps zs close). \<forall>b \<in> set (suppress_overlaps zs close).
       zone_kind a = zone_kind b \<and> zone_candidate a \<and> zone_candidate b \<and>
       \<not> suppressed a \<and> \<not> suppressed b \<and> a \<noteq> b \<longrightarrow> \<not> overlap_reaches_threshold a b) \<and>
    (\<forall>a \<in> set (suppress_overlaps zs close). suppressed a \<longrightarrow> zone_candidate a \<and>
       (\<exists>b \<in> set (suppress_overlaps zs close). zone_kind b = zone_kind a \<and> zone_candidate b \<and>
         \<not> suppressed b \<and> overlap_reaches_threshold a b \<and>
         suppress_key close b \<le> suppress_key close a))"
proof (intro conjI ballI impI)
  show "mset (map (\<lambda>z. z\<lparr> suppressed := False \<rparr>) (suppress_overlaps zs close)) = mset zs"
    using suppress_overlaps_facts(1) [OF assms] by (simp add: unmark_def [abs_def])
  note ok = suppress_overlaps_facts(2) [OF assms, of close, unfolded suppression_ok_def]
  fix a assume a: "a \<in> set (suppress_overlaps zs close)"
  show "\<not> overlap_reaches_threshold a b"
    if "b \<in> set (suppress_overlaps zs close)" "zone_kind a = zone_kind b \<and> zone_candidate a \<and> zone_candidate b \<and>
       \<not> suppressed a \<and> \<not> suppressed b \<and> a \<noteq> b" for b
    using conjunct2 [OF ok [of "zone_kind a"]] a that by metis
  assume "suppressed a"
  then show "zone_candidate a" and "\<exists>b \<in> set (suppress_overlaps zs close). zone_kind b = zone_kind a \<and>
      zone_candidate b \<and> \<not> suppressed b \<and> overlap_reaches_threshold a b \<and>
      suppress_key close b \<le> suppress_key close a"
    using ok [of "zone_kind a"] a by blast+
qed

text \<open>Zones used by the witnesses.\<close>

definition sample_zone :: "string \<Rightarrow> zone_type \<Rightarrow> rat \<Rightarrow> int \<Rightarrow> zone_snapshot" where
  "sample_zone i zt c n =
     \<lparr> zone_id = i, zone_market_id = ''BTC'', zone_kind = zt, zone_center = c, zone_low = c - 2,
       zone_high = c + 2, half_width = 2, quality = (if 3 \<le> n then ZQ3 else ZQ2), reaction_count = n,
       latest_reaction_bar_index = 40, member_reaction_ids = replicate (nat n) ''r'',
       active_for_new_event = True, suppressed = False \<rparr>"

definition sample_zones :: "zone_snapshot list" where
  "sample_zones = [sample_zone ''a'' ZHIGH 100 2, sample_zone ''b'' ZHIGH 101 3]"

theorem suppress_overlaps_correct_witness:
  "map (\<lambda>z. (zone_id z, suppressed z)) (suppress_overlaps sample_zones 95) =
     [(''a'', True), (''b'', False)] \<and>
   mset (map (\<lambda>z. z\<lparr> suppressed := False \<rparr>) (suppress_overlaps sample_zones 95)) = mset sample_zones"
proof -
  have d: "distinct (map zone_id sample_zones)" by code_simp
  have s: "\<forall>z \<in> set sample_zones. \<not> suppressed z" by code_simp
  have "map (\<lambda>z. (zone_id z, suppressed z)) (suppress_overlaps sample_zones 95) =
     [(''a'', True), (''b'', False)]" by code_simp
  with suppress_overlaps_correct [OF d s, of 95] show ?thesis by blast
qed

section \<open>Reactions\<close>

definition reaction_of_pivot ::
  "hashing \<Rightarrow> bar list \<Rightarrow> decimal option list \<Rightarrow> int \<Rightarrow> zone_type \<Rightarrow> nat \<Rightarrow> reaction option" where
  "reaction_of_pivot H bars atr offset zt p =
     (if int p < max 1 (int (length bars) - ZONE_LOOKBACK_15M) then None
      else Option.bind (atr ! (p + 1)) (\<lambda>a15.
        map_option (reaction_at H bars offset zt p a15) (qualifying_index zt bars p a15)))"

lemma reaction_of_pivot_index: "reaction_of_pivot H bars atr offset zt p = Some r \<Longrightarrow>
    pivot_bar_index r = offset + int p \<and> re_zone_type r = zt \<and> re_price r = pivot_price zt (bars ! p)"
  by (auto simp: reaction_of_pivot_def reaction_at_def Let_def split: if_splits bind_splits)

lemma typed_reactions_spaced:
  assumes "sorted_wrt (\<lambda>a b. a + 2 \<le> b) ps"
  shows "typed_reactions H bars atr offset zt ps =
      List.map_filter (reaction_of_pivot H bars atr offset zt) ps"
  using assms
proof (induction ps rule: rev_induct)
  case (snoc p ps)
  let ?R = "reaction_of_pivot H bars atr offset zt"
  have IH: "typed_reactions H bars atr offset zt ps = List.map_filter ?R ps"
    using snoc by (simp add: sorted_wrt_append)
  have far: "\<not> offset + int p - pivot_bar_index (last (List.map_filter ?R ps)) < 2"
    if "List.map_filter ?R ps \<noteq> []"
  proof -
    from last_in_set [OF that] obtain p' where p': "p' \<in> set ps" "?R p' = Some (last (List.map_filter ?R ps))"
      by (auto simp: map_filter_def)
    then have "p' + 2 \<le> p" using snoc.prems by (auto simp: sorted_wrt_append)
    with reaction_of_pivot_index [OF p'(2)] show ?thesis by simp
  qed
  have "typed_reactions H bars atr offset zt (ps @ [p]) =
      reaction_step H bars atr offset zt (List.map_filter ?R ps) p"
    using IH by (simp add: typed_reactions_def)
  also have "\<dots> = List.map_filter ?R ps @ (case ?R p of None \<Rightarrow> [] | Some r \<Rightarrow> [r])"
    using far by (auto simp: reaction_step_def reaction_of_pivot_def Let_def split: option.splits)
  finally show ?case by (simp add: map_filter_def split: option.splits)
qed (simp add: typed_reactions_def map_filter_def)

lemma pivots_spaced:
  "sorted_wrt (\<lambda>a b. a + 2 \<le> b) (filter (pivot_high_at bars) [1..<n])"
  "sorted_wrt (\<lambda>a b. a + 2 \<le> b) (filter (pivot_low_at bars) [1..<n])"
proof -
  have spaced: "sorted_wrt (\<lambda>a b. a + 2 \<le> b) (filter P [1..<n])" if "\<And>a. P a \<Longrightarrow> P (a + 1) \<Longrightarrow> False"
    for P :: "nat \<Rightarrow> bool"
  proof (rule sorted_wrt_mono_rel)
    show "sorted_wrt (<) (filter P [1..<n])" by (rule sorted_wrt_filter) simp
    fix a b assume ab: "a \<in> set (filter P [1..<n])" "b \<in> set (filter P [1..<n])" "a < b"
    then have "b \<noteq> a + 1" using that [of a] by auto
    with ab(3) show "a + 2 \<le> b" by simp
  qed
  show "sorted_wrt (\<lambda>a b. a + 2 \<le> b) (filter (pivot_high_at bars) [1..<n])"
    by (rule spaced) (simp add: pivot_high_at_def)
  show "sorted_wrt (\<lambda>a b. a + 2 \<le> b) (filter (pivot_low_at bars) [1..<n])"
    by (rule spaced) (simp add: pivot_low_at_def)
qed

lemma qualified_reactions_eq:
  assumes "series_of iv bars" and "length atr = length bars" and "0 \<le> offset"
  shows "qualified_reactions H bars (Some atr) offset =
    Inr (sort_key reaction_key
      (List.map_filter (reaction_of_pivot H bars atr offset ZHIGH) (filter (pivot_high_at bars) [1..<length bars - 1]) @
       List.map_filter (reaction_of_pivot H bars atr offset ZLOW) (filter (pivot_low_at bars) [1..<length bars - 1])))"
  using assms(2,3)
  by (simp add: qualified_reactions_def causal_pivot_high_indices_def causal_pivot_low_indices_def
      series_of_None [OF assms(1)] pivots_spaced [THEN typed_reactions_spaced] del: One_nat_def)

text \<open>
  C14: the spacing rule of \<open>_qualified_reactions\<close> never fires, because two pivots of
  one type are never adjacent: on a valid history the reactions are exactly the pivots inside the
  lookback whose price moved half an A15 away within four bars, each with its own confirmation,
  ordered by confirmation, type, pivot and identity.
\<close>

theorem qualified_reactions_reference:
  assumes "series_of iv bars" and "length atr = length bars" and "0 \<le> offset"
  shows "qualified_reactions H bars (Some atr) offset =
    Inr (sort_key reaction_key
      (List.map_filter (\<lambda>(zt, p).
          if int p < max 1 (int (length bars) - ZONE_LOOKBACK_15M) then None
          else case atr ! (p + 1) of None \<Rightarrow> None
            | Some a15 \<Rightarrow>
                map_option (reaction_at H bars offset zt p a15) (qualifying_index zt bars p a15))
        (map (Pair ZHIGH) (filter (pivot_high_at bars) [1..<length bars - 1]) @
         map (Pair ZLOW) (filter (pivot_low_at bars) [1..<length bars - 1]))))"
proof -
  let ?R = "reaction_of_pivot H bars atr offset"
  have r: "?R zt p = (case (zt, p) of (zt, p) \<Rightarrow>
          if int p < max 1 (int (length bars) - ZONE_LOOKBACK_15M) then None
          else case atr ! (p + 1) of None \<Rightarrow> None
            | Some a15 \<Rightarrow>
                map_option (reaction_at H bars offset zt p a15) (qualifying_index zt bars p a15))" for zt p
    by (simp add: reaction_of_pivot_def split: option.splits)
  show ?thesis
    unfolding qualified_reactions_eq [OF assms] by (simp add: map_filter_def filter_map comp_def r)
qed

theorem qualified_reactions_reference_witness:
  "series_of ''5m'' (sample_5m 5) \<and>
   map (\<lambda>r. (re_zone_type r, pivot_bar_index r, confirmed_bar_index r))
     (projr (qualified_reactions \<lparr> hexdigest = (\<lambda>_. ''h''), dec_str = (\<lambda>_. []) \<rparr> (sample_5m 5)
        (Some (replicate 5 (Some 10))) 0)) = [(ZHIGH, 2, 3)]"
proof -
  let ?H = "\<lparr> hexdigest = (\<lambda>_. ''h''), dec_str = (\<lambda>_. []) \<rparr>"
  have v: "series_of ''5m'' (sample_5m 5)" by code_simp
  have l: "length (replicate 5 (Some 10)) = length (sample_5m 5)" by (simp add: sample_5m_def)
  show ?thesis using v unfolding qualified_reactions_reference [OF v l order_refl, of ?H]
    by code_simp
qed

section \<open>Clusters\<close>

definition wf_cluster :: "cluster \<Rightarrow> bool" where
  "wf_cluster c \<longleftrightarrow> cl_members c \<noteq> [] \<and> (\<forall>r \<in> set (cl_members c). re_zone_type r = cl_zone_type c)"

lemma eligible_clusters_returns:
  assumes "list_all wf_cluster cs"
  shows "\<exists>el. eligible_clusters H tick r i cs = Inr el \<and>
    (\<forall>d b s j. (d, b, s, j) \<in> set el \<longrightarrow> i \<le> j \<and> j < i + length cs \<and> cl_zone_type (cs ! (j - i)) = re_zone_type r)"
  using assms
proof (induction cs arbitrary: i)
  case (Cons c cs)
  then obtain el where el: "eligible_clusters H tick r (Suc i) cs = Inr el"
    "\<forall>d b s j. (d, b, s, j) \<in> set el \<longrightarrow> Suc i \<le> j \<and> j < Suc i + length cs \<and> cl_zone_type (cs ! (j - Suc i)) = re_zone_type r"
    by fastforce
  have shift: "(c # cs) ! (j - i) = cs ! (j - Suc i)" if "Suc i \<le> j" for j
    using that by (simp add: nth_Cons split: nat.splits) (metis Suc_diff_le diff_Suc_Suc nat.inject)
  have rest: "i \<le> j \<and> j < i + length (c # cs) \<and> cl_zone_type ((c # cs) ! (j - i)) = re_zone_type r"
    if "(d, b, s, j) \<in> set el" for d b s j
  proof -
    have j: "Suc i \<le> j" "j < Suc i + length cs" "cl_zone_type (cs ! (j - Suc i)) = re_zone_type r"
      using el(2) that by blast+
    then show ?thesis using shift [OF j(1)] by simp
  qed
  have "returns (cluster_center c)" using Cons.prems by (simp add: cluster_center_def wf_cluster_def)
  then obtain m where "cluster_center c = Inr m" by (auto simp: returns_iff)
  then show ?case using el(1) rest by (auto simp: Let_def)
qed simp

lemma mset_concat_update:
  assumes "i < length xss"
  shows "mset (concat (xss[i := xss ! i @ [x]])) = add_mset x (mset (concat xss))"
proof -
  have "mset (concat xss) = mset (concat (take i xss)) + mset (xss ! i) + mset (concat (drop (Suc i) xss))"
    using arg_cong [OF id_take_nth_drop [OF assms], of "\<lambda>l. mset (concat l)"] by simp
  then show ?thesis by (simp add: upd_conv_take_nth_drop assms)
qed

lemma cluster_step_spec:
  assumes "list_all wf_cluster cs"
  shows "\<exists>cs'. cluster_step H tick r cs = Inr cs' \<and> list_all wf_cluster cs' \<and>
    mset (concat (map cl_members cs')) = add_mset r (mset (concat (map cl_members cs)))"
proof -
  obtain el where el: "eligible_clusters H tick r 0 cs = Inr el"
    "\<forall>d b s j. (d, b, s, j) \<in> set el \<longrightarrow> 0 \<le> j \<and> j < 0 + length cs \<and> cl_zone_type (cs ! (j - 0)) = re_zone_type r"
    using eligible_clusters_returns [OF assms] by blast
  show ?thesis
  proof (cases "sort_key eligible_key el")
    case Nil
    then show ?thesis using el(1) assms by (simp add: cluster_step_def wf_cluster_def)
  next
    case (Cons e es)
    obtain d b s j where e: "e = (d, b, s, j)" by (cases e)
    have "e \<in> set el" using Cons by (metis list.set_intros(1) set_sort)
    then have j: "j < length cs" "cl_zone_type (cs ! j) = re_zone_type r" using el(2) e by auto
    let ?c = "(cs ! j)\<lparr> cl_members := cl_members (cs ! j) @ [r] \<rparr>"
    have "cluster_step H tick r cs = Inr (cs[j := ?c])" using el(1) Cons e by (simp add: cluster_step_def)
    moreover have "wf_cluster ?c" using assms j by (auto simp: wf_cluster_def list_all_length)
    then have "list_all wf_cluster (cs[j := ?c])"
      using assms by (auto simp: list_all_iff dest!: set_update_subset_insert [THEN subsetD])
    moreover have "map cl_members (cs[j := ?c]) = (map cl_members cs)[j := map cl_members cs ! j @ [r]]"
      using j by (simp add: map_update)
    ultimately show ?thesis using mset_concat_update [of j "map cl_members cs" r] j by simp
  qed
qed

lemma clusters_partition:
  "\<exists>cs. clusters H rs tick = Inr cs \<and> list_all wf_cluster cs \<and> mset (concat (map cl_members cs)) = mset rs"
proof -
  have "list_all wf_cluster cs \<Longrightarrow>
      \<exists>cs'. rfold (cluster_step H tick) rs cs = Inr cs' \<and> list_all wf_cluster cs' \<and>
        mset (concat (map cl_members cs')) = mset (concat (map cl_members cs)) + mset rs" for cs
  proof (induction rs arbitrary: cs)
    case (Cons r rs)
    obtain c1 where c1: "cluster_step H tick r cs = Inr c1" "list_all wf_cluster c1"
      "mset (concat (map cl_members c1)) = add_mset r (mset (concat (map cl_members cs)))"
      using cluster_step_spec [OF Cons.prems] by blast
    from Cons.IH [OF c1(2)] show ?case using c1 by auto
  qed simp
  from this [of "[]"] show ?thesis by (simp add: clusters_def)
qed

section \<open>Zone geometry\<close>

lemma median_exact:
  assumes "median xs = Inr m" and "\<And>x. x \<in> set xs \<Longrightarrow> rnd x = x"
  shows "rnd m = m"
proof (cases "odd (length xs)")
  case True
  then have "length xs div 2 < length (sort xs)" using odd_pos [OF True] by simp
  then have "sort xs ! (length xs div 2) \<in> set xs" by (metis nth_mem set_sort)
  then show ?thesis using assms True by (auto simp: median_def Let_def split: if_splits)
next
  case False
  then show ?thesis using assms(1) by (auto simp: median_def Let_def split: if_splits)
qed

definition zone_geometry :: "decimal \<Rightarrow> zone_snapshot \<Rightarrow> bool" where
  "zone_geometry a15 z \<longleftrightarrow>
     zone_low z \<le> zone_center z \<and> zone_center z \<le> zone_high z \<and>
     dmul 0.15 a15 \<le> half_width z \<and> half_width z \<le> dmul 0.40 a15 \<and>
     zone_low z = dsub (zone_center z) (half_width z) \<and>
     zone_high z = dadd (zone_center z) (half_width z) \<and>
     reaction_count z = int (length (member_reaction_ids z))"

lemma zone_of_cluster_spec:
  assumes "wf_cluster c" and "0 < a15" and "\<And>t. hexdigest H t \<noteq> []"
    and "\<And>r. r \<in> set (cl_members c) \<Longrightarrow> rnd (re_price r) = re_price r"
  shows "\<exists>z. zone_of_cluster H market a15 ei c = Inr z \<and> zone_geometry a15 z \<and>
    member_reaction_ids z = map reaction_id (cl_members c) \<and> zone_kind z = cl_zone_type c \<and> \<not> suppressed z"
proof -
  let ?p = "map re_price (cl_members c)"
  have ne: "?p \<noteq> []" using assms(1) by (simp add: wf_cluster_def)
  then obtain center where c: "median ?p = Inr center" using median_returns [of ?p] by (auto simp: returns_iff)
  let ?d = "map (\<lambda>p. dabs (dsub p center)) ?p"
  have "?d \<noteq> []" using ne by simp
  then obtain mad where m: "median ?d = Inr mad" using median_returns [of ?d] by (auto simp: returns_iff)
  have ec: "rnd center = center" using median_exact [OF c] assms(4) by auto
  define hw where "hw = min (max (max (dmul 1.5 mad) (dmul 0.15 a15)) (dmul 0.15 a15)) (dmul 0.40 a15)"
  have le: "dmul 0.15 a15 \<le> dmul 0.40 a15" using assms(2) by (intro dmul_mono) auto
  have hw: "dmul 0.15 a15 \<le> hw" "hw \<le> dmul 0.40 a15" using le by (auto simp: hw_def)
  have pos: "0 < hw" using hw(1) dmul_pos [of "0.15" a15] assms(2) by simp
  have "dsub center hw \<le> center" using dsub_mono [of center center 0 hw] pos ec by (simp add: dsub_def)
  moreover have "center \<le> dadd center hw" using dadd_mono [of center center 0 hw] pos ec by (simp add: dadd_def)
  moreover obtain z where "zone_of_cluster H market a15 ei c = make_zone z" "zone_id z \<noteq> []"
    "zone_center z = center" "half_width z = hw" "zone_low z = dsub center hw" "zone_high z = dadd center hw"
    "reaction_count z = int (length (cl_members c))" "member_reaction_ids z = map reaction_id (cl_members c)"
    "zone_kind z = cl_zone_type c" "\<not> suppressed z"
    using assms(3)
    by (simp add: zone_of_cluster_def Let_def c m [simplified] make_zone_id_def zone_digest_def hw_def [simplified])
  ultimately show ?thesis using pos hw by (simp add: make_zone_def zone_geometry_def)
qed

lemma zone_geometry_unmark: "zone_geometry a15 (unmark z) = zone_geometry a15 z"
  by (simp add: zone_geometry_def unmark_def)

lemma member_ids_unmark [simp]: "member_reaction_ids (unmark z) = member_reaction_ids z"
  by (simp add: unmark_def)

lemma suppress_overlaps_unmark: "mset (map unmark (suppress_overlaps zs close)) = mset (map unmark zs)"
proof -
  have st: "map unmark (suppress_type close out zt) = map unmark out" for out zt
    by (simp add: suppress_type_map comp_def)
  have "mset (map unmark (suppress_overlaps zs close)) =
      mset (map unmark (foldl (suppress_type close) zs [ZHIGH, ZLOW]))"
    by (simp only: suppress_overlaps_def mset_map mset_sort)
  also have "map unmark (foldl (suppress_type close) zs [ZHIGH, ZLOW]) = map unmark zs"
    by (simp add: st)
  finally show ?thesis .
qed

lemma rmap_spec:
  assumes "\<And>x. x \<in> set xs \<Longrightarrow> \<exists>y. f x = Inr y \<and> P x y"
  shows "\<exists>ys. rmap f xs = Inr ys \<and> list_all2 P xs ys"
  using assms
proof (induction xs)
  case (Cons x xs)
  then obtain y ys where "f x = Inr y" "P x y" "rmap f xs = Inr ys" "list_all2 P xs ys" by (metis list.set_intros)
  then show ?case by auto
qed simp

definition exact_bar :: "bar \<Rightarrow> bool" where
  "exact_bar b \<longleftrightarrow> rnd (bar_high b) = bar_high b \<and> rnd (bar_low b) = bar_low b"

lemma reaction_price_exact:
  assumes "series_of iv bars" and "length atr = length bars" and "0 \<le> offset"
    and "list_all exact_bar bars" and "qualified_reactions H bars (Some atr) offset = Inr rs" and "r \<in> set rs"
  shows "rnd (re_price r) = re_price r"
proof -
  obtain zt p where r: "reaction_of_pivot H bars atr offset zt p = Some r" "p \<in> {1..<length bars - 1}"
    using assms(5,6) unfolding qualified_reactions_eq [OF assms(1-3)]
    by (auto simp: map_filter_def)
  then have "p < length bars" by auto
  then have "exact_bar (bars ! p)" using assms(4) by (simp add: list_all_length)
  then show ?thesis using reaction_of_pivot_index [OF r(1)] by (simp add: pivot_price_def exact_bar_def)
qed

lemma book_of_fields [simp]:
  "zones (book_of close rs zs) = suppress_overlaps zs close" "reactions (book_of close rs zs) = rs"
  by (simp_all add: book_of_def Let_def)

lemma book_of_spec:
  assumes "list_all2 (\<lambda>c z. zone_geometry a15 z \<and> member_reaction_ids z = map reaction_id (cl_members c) \<and>
      zone_kind z = cl_zone_type c \<and> \<not> suppressed z) cs zs" and "mset (concat (map cl_members cs)) = mset rs"
  shows "(\<forall>z \<in> set (zones (book_of close rs zs)). zone_geometry a15 z) \<and>
    mset (concat (map member_reaction_ids (zones (book_of close rs zs)))) = mset (map reaction_id rs)"
proof
  note ms = suppress_overlaps_unmark [of zs close]
  have geo: "\<forall>z \<in> set zs. zone_geometry a15 z"
    using assms(1) by (induction rule: list_all2_induct) auto
  show "\<forall>z \<in> set (zones (book_of close rs zs)). zone_geometry a15 z"
  proof
    fix z assume "z \<in> set (zones (book_of close rs zs))"
    then have "unmark z \<in> set (map unmark (suppress_overlaps zs close))" by simp
    then have "unmark z \<in> set (map unmark zs)" using mset_eq_setD [OF ms] by simp
    then show "zone_geometry a15 z" using geo by (auto simp: zone_geometry_unmark dest: arg_cong [of _ _ "zone_geometry a15"])
  qed
  have ids: "concat (map member_reaction_ids zs) = map reaction_id (concat (map cl_members cs))"
    using assms(1) by (induction rule: list_all2_induct) auto
  have sum: "mset (concat (map member_reaction_ids l)) = sum_mset (image_mset (mset \<circ> member_reaction_ids) (mset (map unmark l)))"
    for l :: "zone_snapshot list"
    by (induction l) auto
  show "mset (concat (map member_reaction_ids (zones (book_of close rs zs)))) = mset (map reaction_id rs)"
    unfolding book_of_fields sum ms sum [symmetric] ids using assms(2) by (metis mset_map)
qed

lemma build_zone_book_spec:
  assumes "series_of ''15m'' bars" and "list_all exact_bar bars" and "0 < tick" and "0 \<le> offset"
    and "length atr = length bars" and "last atr = Some a15" and "0 < a15" and "\<And>t. hexdigest H t \<noteq> []"
  shows "\<exists>book. build_zone_book H bars tick (Some atr) offset = Inr book \<and>
    (\<forall>z \<in> set (zones book). zone_geometry a15 z) \<and>
    mset (concat (map member_reaction_ids (zones book))) = mset (map reaction_id (reactions book))"
proof -
  obtain rs where rs: "qualified_reactions H bars (Some atr) offset = Inr rs"
    using qualified_reactions_eq [OF assms(1,5,4)] by blast
  obtain cs where cs: "clusters H rs tick = Inr cs" "list_all wf_cluster cs" "mset (concat (map cl_members cs)) = mset rs"
    using clusters_partition by blast
  let ?P = "\<lambda>c z. zone_geometry a15 z \<and> member_reaction_ids z = map reaction_id (cl_members c) \<and>
      zone_kind z = cl_zone_type c \<and> \<not> suppressed z"
  have "\<exists>z. zone_of_cluster H (bar_market_id (hd bars)) a15 (offset + int (length bars) - 1) c = Inr z \<and> ?P c z"
    if "c \<in> set cs" for c
  proof (rule zone_of_cluster_spec [OF _ assms(7,8)])
    show "wf_cluster c" using that cs(2) by (simp add: list_all_iff)
    fix r assume "r \<in> set (cl_members c)"
    then have "r \<in> set rs" using that mset_eq_setD [OF cs(3)] by auto
    then show "rnd (re_price r) = re_price r"
      by (rule reaction_price_exact [OF assms(1,5,4,2) rs])
  qed
  then obtain zs where zs: "rmap (zone_of_cluster H (bar_market_id (hd bars)) a15 (offset + int (length bars) - 1)) cs = Inr zs"
    "list_all2 ?P cs zs" using rmap_spec [of cs _ ?P] by blast
  have v: "validate_series bars (Some ''15m'') = Inr ()" by (simp add: validate_series_Some assms(1))
  have "build_zone_book H bars tick (Some atr) offset = Inr (book_of (bar_close (last bars)) rs zs)"
    using assms(3-6) rs cs(1) zs(1) v by (simp add: build_zone_book_def)
  then show ?thesis using book_of_spec [OF zs(2) cs(3), of "bar_close (last bars)"] by auto
qed

text \<open>
  C6: on a valid 15m history whose prices fit the decimal context, with a positive
  current A15, the zone engine always returns a book: no constructor check fails. Every zone
  encloses its centre and has a half width between 0.15 and 0.40 of A15, and the zones partition
  the qualified reactions, each reaction belonging to exactly one zone.
\<close>

theorem build_zone_book_total:
  assumes "series_of ''15m'' bars" and "list_all exact_bar bars" and "0 < tick" and "0 \<le> offset"
    and "length atr = length bars" and "last atr = Some a15" and "0 < a15" and "\<And>t. hexdigest H t \<noteq> []"
  shows "\<exists>book. build_zone_book H bars tick (Some atr) offset = Inr book \<and>
    (\<forall>z \<in> set (zones book). zone_low z \<le> zone_center z \<and> zone_center z \<le> zone_high z \<and>
       dmul 0.15 a15 \<le> half_width z \<and> half_width z \<le> dmul 0.40 a15 \<and>
       zone_low z = dsub (zone_center z) (half_width z) \<and>
       zone_high z = dadd (zone_center z) (half_width z)) \<and>
    mset (concat (map member_reaction_ids (zones book))) = mset (map reaction_id (reactions book))"
  using build_zone_book_spec [OF assms] unfolding zone_geometry_def by blast

definition sample_15m :: "nat \<Rightarrow> bar list" where
  "sample_15m n = map (\<lambda>i. \<lparr> bar_market_id = ''BTC'', bar_interval = ''15m'',
       bar_open_time_ms = int i * 900000, bar_close_time_ms = 899999 + int i * 900000,
       bar_open = 100, bar_high = 103 + of_nat (i mod 3), bar_low = 98, bar_close = 101,
       bar_volume = 5, bar_source_identity = ''TEST'' \<rparr>) [0..<n]"

abbreviation sample_hash :: hashing where
  "sample_hash \<equiv> \<lparr> hexdigest = (\<lambda>_. ''h''), dec_str = (\<lambda>_. ''d'') \<rparr>"

theorem build_zone_book_total_witness:
  "\<exists>book. build_zone_book sample_hash (sample_15m 7) 1 (Some (replicate 7 (Some 10))) 0 = Inr book \<and>
    (\<forall>z \<in> set (zones book). zone_low z \<le> zone_center z \<and> zone_center z \<le> zone_high z \<and>
       dmul 0.15 10 \<le> half_width z \<and> half_width z \<le> dmul 0.40 10 \<and>
       zone_low z = dsub (zone_center z) (half_width z) \<and>
       zone_high z = dadd (zone_center z) (half_width z)) \<and>
    mset (concat (map member_reaction_ids (zones book))) = mset (map reaction_id (reactions book))"
proof (rule build_zone_book_total)
  show "series_of ''15m'' (sample_15m 7)" by code_simp
  show "list_all exact_bar (sample_15m 7)" by code_simp
  show "length (replicate 7 (Some (10 :: rat))) = length (sample_15m 7)" by (simp add: sample_15m_def)
qed simp_all

text \<open>What the constructor and the age rule make of every zone of a book.\<close>

definition zone_shape :: "int \<Rightarrow> zone_snapshot \<Rightarrow> bool" where
  "zone_shape evaluation_index z \<longleftrightarrow> zone_low z \<le> zone_high z \<and>
     (active_for_new_event z \<longleftrightarrow> 2 \<le> reaction_count z \<and> evaluation_index - latest_reaction_bar_index z \<le> 24) \<and>
     (quality_rank ZQ2 \<le> quality_rank (quality z) \<longleftrightarrow> 2 \<le> reaction_count z)"

lemma make_zone_Inr:
  "make_zone w = Inr z \<Longrightarrow> z = w \<and> zone_low w \<le> zone_high w"
  by (auto simp: make_zone_def split: if_splits)

lemma zone_of_cluster_shape:
  assumes "zone_of_cluster H market a15 ei c = Inr z"
  shows "zone_shape ei z"
proof -
  let ?n = "length (cl_members c)"
  let ?l = "list_max (map confirmed_bar_index (cl_members c))"
  let ?q = "if 3 \<le> ?n then ZQ3 else if 2 \<le> ?n then ZQ2 else ZQ1"
  have q: "quality_rank ZQ2 \<le> quality_rank ?q \<longleftrightarrow> 2 \<le> int ?n" by auto
  obtain w where w: "make_zone w = Inr z" "quality w = ?q" "reaction_count w = int ?n"
    "latest_reaction_bar_index w = ?l"
    "active_for_new_event w = (quality_rank ZQ2 \<le> quality_rank ?q \<and> ei - ?l \<le> 24)"
    using assms unfolding zone_of_cluster_def Let_def rbind_Inr
    by (elim exE conjE) (rule that, assumption, simp_all only: zone_snapshot.simps)
  then show ?thesis using make_zone_Inr [OF w(1)] unfolding zone_shape_def by (simp only: q simp_thms)
qed

lemma suppress_overlaps_shape:
  assumes "\<And>z. z \<in> set zs \<Longrightarrow> zone_shape ei z" and "z \<in> set (suppress_overlaps zs close)"
  shows "zone_shape ei z"
proof -
  have u: "zone_shape ei (unmark w) = zone_shape ei w" for w by (simp add: zone_shape_def unmark_def)
  have "unmark z \<in> set (map unmark (suppress_overlaps zs close))" using assms(2) by simp
  then have "unmark z \<in> set (map unmark zs)" by (simp only: mset_eq_setD [OF suppress_overlaps_unmark])
  then obtain w where "w \<in> set zs" "unmark z = unmark w" by auto
  then show ?thesis using assms(1) u [of z] u [of w] by simp
qed

lemma zone_shape_eligible:
  assumes "zone_shape ei z"
  shows "zone_eligible z \<longleftrightarrow> 2 \<le> reaction_count z \<and> ei - latest_reaction_bar_index z \<le> 24 \<and> \<not> suppressed z"
  using assms by (auto simp: zone_shape_def zone_eligible_def)

lemma distance_above:
  assumes "zone_shape ei z" and "zone_low z \<le> v"
  shows "distance_to_zone v z = rnd (max 0 (v - zone_high z))"
proof (cases "v \<le> zone_high z")
  case True
  then show ?thesis using assms(2) by (simp add: distance_to_zone_def zone_contains_def max_def)
next
  case False
  have "dsub v (zone_high z) \<le> dsub v (zone_low z)" using assms(1) by (auto simp: zone_shape_def intro: dsub_mono)
  moreover have "0 \<le> dsub v (zone_high z)" using False by simp
  ultimately have "min \<bar>dsub v (zone_low z)\<bar> \<bar>dsub v (zone_high z)\<bar> = dsub v (zone_high z)" by linarith
  then show ?thesis using False by (simp add: distance_to_zone_def zone_contains_def max_def) (simp add: dsub_def)
qed

lemma distance_below:
  assumes "zone_shape ei z" and "v \<le> zone_high z"
  shows "distance_to_zone v z = rnd (max 0 (zone_low z - v))"
proof (cases "zone_low z \<le> v")
  case True
  then show ?thesis using assms(2) by (simp add: distance_to_zone_def zone_contains_def max_def)
next
  case False
  have m: "dsub v x = - dsub x v" for x by (simp add: dsub_def dc.rnd_minus [symmetric])
  have "dsub (zone_low z) v \<le> dsub (zone_high z) v" using assms(1) by (auto simp: zone_shape_def intro: dsub_mono)
  moreover have "0 \<le> dsub (zone_low z) v" using False by simp
  ultimately have "min \<bar>dsub v (zone_low z)\<bar> \<bar>dsub v (zone_high z)\<bar> = dsub (zone_low z) v"
    unfolding m [of "zone_low z"] m [of "zone_high z"] by linarith
  then show ?thesis using False by (simp add: distance_to_zone_def zone_contains_def max_def) (simp add: dsub_def)
qed

lemma min_by_key:
  fixes key :: "'a \<Rightarrow> decimal \<times> string"
  assumes "\<And>z. z \<in> set l \<Longrightarrow> P z \<longleftrightarrow> Q z" and "\<And>z. z \<in> set l \<Longrightarrow> Q z \<Longrightarrow> key z = (gap z, name z)"
  shows "case min_by key (filter P l) of None \<Rightarrow> {z \<in> set l. Q z} = {}
    | Some z \<Rightarrow> z \<in> {z \<in> set l. Q z} \<and>
        (\<forall>w \<in> {z \<in> set l. Q z}. gap z < gap w \<or> gap z = gap w \<and> name z \<le> name w)"
proof (cases "min_by key (filter P l)")
  case None
  then have "filter P l = []" by (simp only: min_by_None)
  then show ?thesis unfolding None using assms(1) by (auto simp: filter_empty_conv)
next
  case (Some z)
  have z: "z \<in> set l" "Q z" using min_by_Some [OF Some] assms(1) by auto
  have "gap z < gap w \<or> gap z = gap w \<and> name z \<le> name w" if "w \<in> set l" "Q w" for w
  proof -
    have "key z \<le> key w" using min_by_Some [OF Some] assms(1) that by simp
    then show ?thesis using assms(2) that z by auto
  qed
  then show ?thesis using Some z by simp
qed

lemma build_zone_book_shape:
  assumes "build_zone_book H bars tick atr_values offset = Inr book"
  shows "\<exists>rs zs. book = book_of (bar_close (last bars)) rs zs \<and>
    (\<forall>z \<in> set (zones book). zone_shape (offset + int (length bars) - 1) z)"
proof -
  obtain rs cs zs a15 where zs: "rmap (zone_of_cluster H (bar_market_id (hd bars)) a15
      (offset + int (length bars) - 1)) cs = Inr zs" and book: "book = book_of (bar_close (last bars)) rs zs"
    using assms unfolding build_zone_book_def by (auto simp: res_simps split: if_splits option.splits)
  have "zone_shape (offset + int (length bars) - 1) z" if "z \<in> set zs" for z
    using rmap_Inr_set [OF zs that] zone_of_cluster_shape by blast
  then have "zone_shape (offset + int (length bars) - 1) z" if "z \<in> set (zones book)" for z
    using that unfolding book book_of_fields by (rule suppress_overlaps_shape)
  then show ?thesis using book by blast
qed

text \<open>
  C15: the active support of a book is a low zone with at least two reactions, the
  latest at most 24 bars old, that the overlap rule did not suppress and that does not lie wholly
  above the last close. Of all such zones it has the least gap between its upper edge and the
  close (none when the close is inside), ties going to the least identity; there is no active
  support only when no such zone exists. The active resistance is the mirror image.
\<close>

theorem active_levels_nearest:
  assumes "build_zone_book H bars tick atr_values offset = Inr book"
  defines "close \<equiv> bar_close (last bars)"
  defines "fresh \<equiv> \<lambda>z. 2 \<le> reaction_count z \<and>
      offset + int (length bars) - 1 - latest_reaction_bar_index z \<le> 24 \<and> \<not> suppressed z"
  defines "S \<equiv> {z \<in> set (zones book). fresh z \<and> zone_kind z = ZLOW \<and> zone_low z \<le> close}"
    and "R \<equiv> {z \<in> set (zones book). fresh z \<and> zone_kind z = ZHIGH \<and> close \<le> zone_high z}"
    and "gap_up \<equiv> \<lambda>z. rnd (max 0 (close - zone_high z))"
    and "gap_down \<equiv> \<lambda>z. rnd (max 0 (zone_low z - close))"
  shows "(case active_support book of None \<Rightarrow> S = {}
      | Some z \<Rightarrow> z \<in> S \<and> (\<forall>w \<in> S. gap_up z < gap_up w \<or> gap_up z = gap_up w \<and> zone_id z \<le> zone_id w)) \<and>
    (case active_resistance book of None \<Rightarrow> R = {}
      | Some z \<Rightarrow> z \<in> R \<and> (\<forall>w \<in> R. gap_down z < gap_down w \<or> gap_down z = gap_down w \<and> zone_id z \<le> zone_id w))"
proof -
  obtain rs zs where book: "book = book_of close rs zs"
    and shape: "\<And>z. z \<in> set (zones book) \<Longrightarrow> zone_shape (offset + int (length bars) - 1) z"
    using build_zone_book_shape [OF assms(1)] unfolding close_def by blast
  have el: "zone_eligible z \<longleftrightarrow> fresh z" if "z \<in> set (zones book)" for z
    unfolding fresh_def by (rule zone_shape_eligible [OF shape [OF that]])
  have s: "active_support book = min_by (nearest_key close)
      (filter (\<lambda>z. zone_eligible z \<and> zone_kind z = ZLOW \<and> zone_low z \<le> close) (zones book))"
    and r: "active_resistance book = min_by (nearest_key close)
      (filter (\<lambda>z. zone_eligible z \<and> zone_kind z = ZHIGH \<and> close \<le> zone_high z) (zones book))"
    by (simp_all add: book book_of_def Let_def conj_commute conj_left_commute)
  show ?thesis unfolding s r S_def R_def gap_up_def gap_down_def
    by (intro conjI min_by_key)
      (auto simp: el nearest_key_def distance_above [OF shape] distance_below [OF shape])
qed

theorem active_levels_nearest_witness:
  "\<exists>book. build_zone_book sample_hash (sample_15m 7) 1 (Some (replicate 7 (Some 10))) 0 = Inr book \<and>
    (case active_resistance book of
       None \<Rightarrow> {z \<in> set (zones book). (2 \<le> reaction_count z \<and>
           0 + int (length (sample_15m 7)) - 1 - latest_reaction_bar_index z \<le> 24 \<and> \<not> suppressed z) \<and>
           zone_kind z = ZHIGH \<and> bar_close (last (sample_15m 7)) \<le> zone_high z} = {}
     | Some z \<Rightarrow> z \<in> set (zones book) \<and> 2 \<le> reaction_count z)"
proof -
  let ?m = "build_zone_book sample_hash (sample_15m 7) 1 (Some (replicate 7 (Some 10))) 0"
  have "series_of ''15m'' (sample_15m 7)" "list_all exact_bar (sample_15m 7)" by code_simp+
  moreover have "length (replicate 7 (Some (10 :: rat))) = length (sample_15m 7)" by (simp add: sample_15m_def)
  ultimately obtain book where "?m = Inr book"
    using build_zone_book_spec [of "sample_15m 7" 1 0 "replicate 7 (Some 10)" 10 sample_hash] by auto
  with active_levels_nearest [OF this] show ?thesis by (auto split: option.splits)
qed

end
