(* ===== verification/Engine.thy ===== *)
theory Engine
  imports Zones
begin

text \<open>
  The formal-setup and market-event state machine,
  \<^verbatim>\<open>src/src/trader_assist_v0/multi_asset_shadow/strategy_kernel/engine.py\<close>. One call of
  \<open>evaluate_strategy\<close> progresses the active events of the ledger on the latest closed 5m bar,
  creates new ones, and invalidates the opposite side of every confirmed setup.

  Entries of the ledger are addressed by their position; the code addresses them by object
  identity (\<open>item is original\<close>).
\<close>

section \<open>Inputs\<close>

record strategy_input =
  in_bars_5m :: "bar list"
  in_minimum_tick :: decimal
  in_bars_15m :: "bar list option"
  in_bars_1h :: "bar list option"
  in_zone_book :: "zone_book option"
  in_scanner_linkage :: "scanner_linkage option"
  mandatory_data_valid :: bool
  a5_override :: "decimal option"
  m20_override :: "decimal option"
  a15_override :: "decimal option"
  htf_context_override :: "htf_context option"

definition make_market_event_id :: "hashing \<Rightarrow> string \<Rightarrow> string \<Rightarrow> side \<Rightarrow> string \<Rightarrow> string" where
  "make_market_event_id H market zid sd first_attack =
     hexdigest H (market @ zid @ side_value sd @ first_attack @ STRATEGY_VERSION @ PARAMETER_VERSION)"

definition make_event_decision ::
  "market_event \<Rightarrow> decision_kind \<Rightarrow> string \<Rightarrow> string \<Rightarrow> strategy_decision res" where
  "make_event_decision e kind rsn tr_name =
     make_decision
       \<lparr> dec_market_id = ev_market_id e, dec_setup_family = ev_setup_family e,
         dec_setup_mode = formal_mode e,
         dec_retest_type = (if formal_mode e = Some STANDARD then ev_retest_type e else None),
         dec_side = ev_side e, decision = kind, reason = rsn,
         dec_market_event_id = market_event_id e, dec_zone_id = zone_id (ev_zone e),
         dec_zone_snapshot = ev_zone e, dec_a5_event = a5_event e, dec_m20_event = m20_event e,
         dec_htf_relation = ev_htf_relation e, dec_breakout_linkage = ev_breakout_linkage e,
         dec_ideal_entry_low = ideal_entry_low e, dec_ideal_entry_high = ideal_entry_high e,
         dec_chase_limit = chase_limit e, dec_structural_stop = structural_stop e,
         dec_target_reference = ev_target_reference e, dec_transition = tr_name,
         dec_scanner_linkage = ev_scanner_linkage e, dec_strategy_version = STRATEGY_VERSION,
         dec_parameter_version = PARAMETER_VERSION, dec_scanner_version = SCANNER_VERSION,
         dec_schema_version = SCHEMA_VERSION \<rparr>"

definition event_eligible :: "zone_snapshot \<Rightarrow> zone_type \<Rightarrow> bool" where
  "event_eligible z zt \<longleftrightarrow>
     zone_kind z = zt \<and> quality_rank ZQ2 \<le> quality_rank (quality z) \<and>
     active_for_new_event z \<and> \<not> suppressed z"

text \<open>The fields a constructor call leaves at their defaults.\<close>

definition blank_event ::
  "string \<Rightarrow> string \<Rightarrow> setup_family \<Rightarrow> side \<Rightarrow> event_status \<Rightarrow> string \<Rightarrow> zone_snapshot \<Rightarrow> bar \<Rightarrow>
   decimal \<Rightarrow> decimal \<Rightarrow> htf_relation \<Rightarrow> scanner_linkage option \<Rightarrow> market_event" where
  "blank_event eid market fam sd st tr_name z b a5 m20 rel link =
     \<lparr> market_event_id = eid, ev_market_id = market, ev_setup_family = fam, ev_side = sd,
       ev_status = st, ev_transition = tr_name, ev_zone = z, created_bar = b, latest_bar = b,
       a5_event = a5, m20_event = m20, ev_htf_relation = rel, ev_scanner_linkage = link,
       ev_breakout_linkage = None, reclaim_candle_high = None, reclaim_candle_low = None,
       sweep_extreme = None, initial_breakout_open = None, initial_breakout_high = None,
       initial_breakout_low = None, initial_breakout_close = None, previous_close = None,
       previous_high = None, previous_low = None, pullback_started = False,
       impulse_extreme = None, pullback_extreme = None, ev_retest_type = None,
       retest_seen_bar_time_ms = None, formal_mode = None, ideal_entry_low = None,
       ideal_entry_high = None, chase_limit = None, structural_stop = None,
       ev_target_reference = None \<rparr>"

section \<open>Sweep and reclaim\<close>

definition sweep_candidate :: "bar \<Rightarrow> zone_snapshot \<Rightarrow> side \<Rightarrow> decimal \<Rightarrow> bool" where
  "sweep_candidate b z sd a5 \<longleftrightarrow>
     (if sd = LONG then
        let excursion = dsub (zone_low z) (bar_low b)
        in dmul 0.10 a5 \<le> excursion \<and> excursion \<le> dmul 0.75 a5 \<and>
           dadd (zone_low z) (dmul 0.05 a5) \<le> bar_close b
      else
        let excursion = dsub (bar_high b) (zone_high z)
        in dmul 0.10 a5 \<le> excursion \<and> excursion \<le> dmul 0.75 a5 \<and>
           bar_close b \<le> dsub (zone_high z) (dmul 0.05 a5))"

definition sweep_terms ::
  "bar \<Rightarrow> zone_snapshot \<Rightarrow> side \<Rightarrow> decimal \<Rightarrow> decimal \<times> decimal \<times> decimal \<times> decimal \<times> target_reference" where
  "sweep_terms b z sd a5 =
     (let target = \<lparr> target_kind = SOURCE_ZONE_CENTER, target_price = Some (zone_center z),
            target_zone_id = Some (zone_id z), frozen_directional_zones = [] \<rparr>
      in if sd = LONG then
           (dadd (zone_low z) (dmul 0.05 a5),
            min (zone_center z) (dadd (zone_low z) (dmul 0.25 a5)),
            dadd (zone_low z) (dmul 0.35 a5), dsub (bar_low b) (dmul 0.10 a5), target)
         else
           (max (zone_center z) (dsub (zone_high z) (dmul 0.25 a5)),
            dsub (zone_high z) (dmul 0.05 a5),
            dsub (zone_high z) (dmul 0.35 a5), dadd (bar_high b) (dmul 0.10 a5), target))"

definition new_sweep ::
  "hashing \<Rightarrow> bar \<Rightarrow> zone_snapshot \<Rightarrow> side \<Rightarrow> decimal \<Rightarrow> decimal \<Rightarrow> htf_relation \<Rightarrow>
   scanner_linkage option \<Rightarrow> breakout_linkage option \<Rightarrow> market_event" where
  "new_sweep H b z sd a5 m20 rel link blink =
     (let (ideal_low, ideal_high, chase, stop, target) = sweep_terms b z sd a5 in
      (blank_event (make_market_event_id H (bar_market_id b) (zone_id z) sd (candle_id H b))
         (bar_market_id b) SWEEP_RECLAIM sd ACTIVE ''SWEEP_CANDIDATE_CREATED'' z b a5 m20 rel link)
       \<lparr> ev_breakout_linkage := blink,
         reclaim_candle_high := Some (bar_high b), reclaim_candle_low := Some (bar_low b),
         sweep_extreme := Some (if sd = LONG then bar_low b else bar_high b),
         previous_close := Some (bar_close b), previous_high := Some (bar_high b),
         previous_low := Some (bar_low b), ideal_entry_low := Some ideal_low,
         ideal_entry_high := Some ideal_high, chase_limit := Some chase,
         structural_stop := Some stop, ev_target_reference := Some target \<rparr>)"

text \<open>
  A progressed event with the decision it emits, if any. The three terminal outcomes share
  the shape \<open>evolve\<close> and then \<open>_decision\<close>.
\<close>

definition finish ::
  "market_event \<Rightarrow> event_status \<Rightarrow> string \<Rightarrow> bar \<Rightarrow> decision_kind \<Rightarrow> string \<Rightarrow>
   (market_event \<times> strategy_decision option) res" where
  "finish e st tr_name b kind rsn =
     (let updated = e\<lparr> ev_status := st, ev_transition := tr_name, latest_bar := b \<rparr>
      in rbind (make_event_decision updated kind rsn (ev_transition updated))
           (\<lambda>d. Inr (updated, Some d)))"

definition progress_sweep ::
  "market_event \<Rightarrow> bar \<Rightarrow> (market_event \<times> strategy_decision option) res" where
  "progress_sweep e b =
     (case (sweep_extreme e, reclaim_candle_high e, reclaim_candle_low e) of
        (Some extreme, Some reclaim_high, Some reclaim_low) \<Rightarrow>
          (let a5 = a5_event e;
               new_extreme = (if ev_side e = LONG then bar_low b < extreme else extreme < bar_high b)
           in if new_extreme \<and> sweep_candidate b (ev_zone e) (ev_side e) a5 then
                finish e SUPERSEDED ''SUPERSEDED_BY_NEW_INDEPENDENT_EVENT'' b DK_SUPERSEDED
                  ''SUPERSEDED_BY_NEW_INDEPENDENT_EVENT''
              else if (if ev_side e = LONG
                       then bar_close b \<le> dsub (zone_low (ev_zone e)) (dmul 0.05 a5)
                       else dadd (zone_high (ev_zone e)) (dmul 0.05 a5) \<le> bar_close b) then
                finish e INVALIDATED ''INVALIDATED_ACCEPTED_OUTSIDE'' b DK_INVALIDATED
                  ''INVALIDATED_ACCEPTED_OUTSIDE''
              else if (if ev_side e = LONG
                       then reclaim_high < bar_close b \<and> extreme < bar_low b \<and>
                            dadd (zone_low (ev_zone e)) (dmul 0.05 a5) \<le> bar_close b
                       else bar_close b < reclaim_low \<and> bar_high b < extreme \<and>
                            bar_close b \<le> dsub (zone_high (ev_zone e)) (dmul 0.05 a5)) then
                finish e CONFIRMED ''FORMAL_SETUP_CONFIRMED'' b DK_FORMAL_SETUP_CONFIRMED
                  ''SWEEP_RECLAIM_CONFIRMED''
              else
                Inr (e\<lparr> latest_bar := b, ev_transition := ''SWEEP_WAIT_CONFIRMATION'' \<rparr>, None))
      | _ \<Rightarrow> Inl (KernelInputError ''sweep event is incomplete''))"

section \<open>Breakout and retest\<close>

definition initial_breakout ::
  "bar \<Rightarrow> zone_snapshot \<Rightarrow> side \<Rightarrow> decimal \<Rightarrow> decimal \<Rightarrow> bool res" where
  "initial_breakout b z sd a5 m20 =
     (let body = dabs (dsub (bar_close b) (bar_open b)) in
      if sd = LONG then
        rand (dadd (zone_high z) (dmul 0.15 a5) \<le> bar_close b \<and> dmul 0.50 a5 \<le> body)
          (rbind (clv_long b) (\<lambda>v. Inr (0.70 \<le> v \<and> dmul 1.20 m20 \<le> bar_volume b)))
      else
        rand (bar_close b \<le> dsub (zone_low z) (dmul 0.15 a5) \<and> dmul 0.50 a5 \<le> body)
          (rbind (clv_short b) (\<lambda>v. Inr (0.70 \<le> v \<and> dmul 1.20 m20 \<le> bar_volume b))))"

definition breakout_target ::
  "zone_snapshot \<Rightarrow> side \<Rightarrow> zone_snapshot list \<Rightarrow> target_reference" where
  "breakout_target source sd zs =
     (let directional =
        (if sd = LONG then
           sort_key (\<lambda>z. (zone_low z, zone_id z))
             (filter (\<lambda>z. event_eligible z ZHIGH \<and> zone_high source < zone_low z) zs)
         else
           sort_key (\<lambda>z. (dneg (zone_high z), zone_id z))
             (filter (\<lambda>z. event_eligible z ZLOW \<and> zone_high z < zone_low source) zs))
      in if directional \<noteq> [] then
           \<lparr> target_kind = DIRECTIONAL_ZONE_SET_FROZEN, target_price = None, target_zone_id = None,
             frozen_directional_zones = directional \<rparr>
         else
           \<lparr> target_kind = OPEN_SPACE_REFERENCE, target_price = None, target_zone_id = None,
             frozen_directional_zones = [] \<rparr>)"

definition new_breakout ::
  "hashing \<Rightarrow> bar \<Rightarrow> zone_snapshot \<Rightarrow> side \<Rightarrow> decimal \<Rightarrow> decimal \<Rightarrow> htf_relation \<Rightarrow>
   scanner_linkage option \<Rightarrow> zone_snapshot list \<Rightarrow> market_event" where
  "new_breakout H b z sd a5 m20 rel link zs =
     (let eid = make_market_event_id H (bar_market_id b) (zone_id z) sd (candle_id H b) in
      (blank_event eid (bar_market_id b) BREAKOUT_RETEST sd ACTIVE
         ''INITIAL_BREAKOUT_EVENT_CREATED'' z b a5 m20 rel link)
       \<lparr> ev_breakout_linkage := Some \<lparr> underlying_breakout_event_id = eid,
           initial_breakout_candle_id = candle_id H b, accepted_reentry_source_event_id = None \<rparr>,
         initial_breakout_open := Some (bar_open b), initial_breakout_high := Some (bar_high b),
         initial_breakout_low := Some (bar_low b), initial_breakout_close := Some (bar_close b),
         previous_close := Some (bar_close b), previous_high := Some (bar_high b),
         previous_low := Some (bar_low b),
         impulse_extreme := Some (if sd = LONG then bar_high b else bar_low b),
         ev_target_reference := Some (breakout_target z sd zs) \<rparr>)"

definition accepted_reentry :: "market_event \<Rightarrow> bar \<Rightarrow> bool" where
  "accepted_reentry e b \<longleftrightarrow>
     (if ev_side e = LONG
      then bar_close b \<le> dsub (zone_high (ev_zone e)) (dmul 0.05 (a5_event e))
      else dadd (zone_low (ev_zone e)) (dmul 0.05 (a5_event e)) \<le> bar_close b)"

definition micro_confirmation :: "market_event \<Rightarrow> bar \<Rightarrow> bool res" where
  "micro_confirmation e b =
     (case (initial_breakout_close e, initial_breakout_high e, initial_breakout_low e) of
        (Some ib_close, Some ib_high, Some ib_low) \<Rightarrow>
          (let a5 = a5_event e; z = ev_zone e in
           Inr (if ev_side e = LONG then
                  dadd (zone_high z) (dmul 0.10 a5) \<le> bar_close b \<and>
                  dsub (zone_high z) (dmul 0.10 a5) \<le> bar_low b \<and>
                  (ib_close < bar_close b \<or> (ib_low < bar_low b \<and> bar_open b < bar_close b))
                else
                  bar_close b \<le> dsub (zone_low z) (dmul 0.10 a5) \<and>
                  bar_high b \<le> dadd (zone_low z) (dmul 0.10 a5) \<and>
                  (bar_close b < ib_close \<or> (bar_high b < ib_high \<and> bar_close b < bar_open b))))
      | _ \<Rightarrow> Inl (KernelInputError ''breakout event is incomplete''))"

definition micro_terms :: "market_event \<Rightarrow> (decimal \<times> decimal \<times> decimal \<times> decimal) res" where
  "micro_terms e =
     (case (initial_breakout_high e, initial_breakout_low e) of
        (Some ib_high, Some ib_low) \<Rightarrow>
          (let a5 = a5_event e; z = ev_zone e in
           Inr (if ev_side e = LONG then
                  (dadd (zone_high z) (dmul 0.10 a5), dadd (zone_high z) (dmul 0.40 a5),
                   dadd (zone_high z) (dmul 0.75 a5),
                   min ib_low (dsub (zone_high z) (dmul 0.25 a5)))
                else
                  (dsub (zone_low z) (dmul 0.40 a5), dsub (zone_low z) (dmul 0.10 a5),
                   dsub (zone_low z) (dmul 0.75 a5),
                   max ib_high (dadd (zone_low z) (dmul 0.25 a5)))))
      | _ \<Rightarrow> Inl (KernelInputError ''breakout event is incomplete''))"

definition standard_terms ::
  "market_event \<Rightarrow> decimal \<Rightarrow> decimal \<times> decimal \<times> decimal \<times> decimal" where
  "standard_terms e pullback =
     (let a5 = a5_event e; z = ev_zone e in
      if ev_side e = LONG then
        (dsub (zone_high z) (dmul 0.05 a5), dadd (zone_high z) (dmul 0.20 a5),
         dadd (zone_high z) (dmul 0.35 a5), min pullback (dsub (zone_high z) (dmul 0.10 a5)))
      else
        (dsub (zone_low z) (dmul 0.20 a5), dadd (zone_low z) (dmul 0.05 a5),
         dsub (zone_low z) (dmul 0.35 a5), max pullback (dadd (zone_low z) (dmul 0.10 a5))))"

definition qualify_retest :: "market_event \<Rightarrow> bar \<Rightarrow> decimal \<Rightarrow> retest_type option res" where
  "qualify_retest e b pullback =
     (case impulse_extreme e of
        None \<Rightarrow> Inl (KernelInputError ''breakout impulse extreme is missing'')
      | Some impulse \<Rightarrow>
          (let a5 = a5_event e; z = ev_zone e;
               deep = (if ev_side e = LONG
                 then bar_low b \<le> dadd (zone_high z) (dmul 0.25 a5) \<and>
                      dadd (zone_high z) (dmul 0.05 a5) \<le> bar_close b
                 else dsub (zone_low z) (dmul 0.25 a5) \<le> bar_high b \<and>
                      bar_close b \<le> dsub (zone_low z) (dmul 0.05 a5));
               denominator = (if ev_side e = LONG then dsub impulse (zone_high z)
                 else dsub (zone_low z) impulse);
               ratio = (if 0 < denominator
                 then ddiv (if ev_side e = LONG then dsub impulse pullback else dsub pullback impulse)
                        denominator
                 else -1);
               shallow = ((if ev_side e = LONG
                 then dadd (zone_high z) (dmul 0.25 a5) < pullback
                 else pullback < dsub (zone_low z) (dmul 0.25 a5)) \<and> 0.25 \<le> ratio \<and> ratio \<le> 0.60)
           in Inr (if deep then Some DEEP else if shallow then Some SHALLOW else None)))"

text \<open>The phase before the first pullback of a breakout event.\<close>

definition progress_breakout_impulse ::
  "market_event \<Rightarrow> bar \<Rightarrow> decimal \<Rightarrow> (market_event \<times> strategy_decision option) res" where
  "progress_breakout_impulse e b prev_close =
     (if (if ev_side e = LONG then bar_close b < prev_close else prev_close < bar_close b) then
        (let pullback = (if ev_side e = LONG then bar_low b else bar_high b) in
         rbind (qualify_retest e b pullback) (\<lambda>rt.
           Inr (e\<lparr> latest_bar := b, ev_transition := ''PULLBACK_STARTED_STANDARD_ONLY'',
                   previous_close := Some (bar_close b), previous_high := Some (bar_high b),
                   previous_low := Some (bar_low b), pullback_started := True,
                   pullback_extreme := Some pullback, ev_retest_type := rt,
                   retest_seen_bar_time_ms :=
                     (if rt \<noteq> None then Some (bar_open_time_ms b) else None) \<rparr>, None)))
      else
        rbind (micro_confirmation e b) (\<lambda>confirmed.
          if confirmed then
            rbind (micro_terms e) (\<lambda>(ideal_low, ideal_high, chase, stop).
              let updated = e\<lparr> ev_status := CONFIRMED, ev_transition := ''FORMAL_SETUP_CONFIRMED'',
                    latest_bar := b, formal_mode := Some MICRO_FAST,
                    ideal_entry_low := Some ideal_low, ideal_entry_high := Some ideal_high,
                    chase_limit := Some chase, structural_stop := Some stop \<rparr>
              in rbind (make_event_decision updated DK_FORMAL_SETUP_CONFIRMED
                     ''BREAKOUT_MICRO_FAST_CONFIRMED'' (ev_transition updated))
                   (\<lambda>d. Inr (updated, Some d)))
          else
            case impulse_extreme e of
              None \<Rightarrow> Inl (KernelInputError ''breakout impulse extreme is missing'')
            | Some impulse \<Rightarrow>
                Inr (e\<lparr> latest_bar := b, ev_transition := ''MICRO_FAST_WAIT'',
                        previous_close := Some (bar_close b), previous_high := Some (bar_high b),
                        previous_low := Some (bar_low b),
                        impulse_extreme := Some (if ev_side e = LONG then max impulse (bar_high b)
                          else min impulse (bar_low b)) \<rparr>, None)))"

text \<open>How the retest seen so far and the one on this bar combine.\<close>

definition merge_retest ::
  "market_event \<Rightarrow> bar \<Rightarrow> retest_type option \<Rightarrow> retest_type option \<times> int option" where
  "merge_retest e b qualified =
     (if qualified = Some DEEP then
        (qualified, if ev_retest_type e = qualified then retest_seen_bar_time_ms e
                    else Some (bar_open_time_ms b))
      else if ev_retest_type e = None \<and> qualified = Some SHALLOW then
        (qualified, Some (bar_open_time_ms b))
      else (ev_retest_type e, retest_seen_bar_time_ms e))"

definition progress_breakout_standard ::
  "market_event \<Rightarrow> bar \<Rightarrow> decimal \<Rightarrow> decimal \<Rightarrow> (market_event \<times> strategy_decision option) res" where
  "progress_breakout_standard e b prev_high prev_low =
     (case pullback_extreme e of
        None \<Rightarrow> Inl (KernelInputError ''standard pullback extreme is missing'')
      | Some pb \<Rightarrow>
          (let pullback = (if ev_side e = LONG then min pb (bar_low b) else max pb (bar_high b)) in
           rbind (qualify_retest e b pullback) (\<lambda>qualified.
             let (rt, seen) = merge_retest e b qualified;
                 after_retest = (case seen of None \<Rightarrow> False | Some t \<Rightarrow> t < bar_open_time_ms b);
                 confirms = (if ev_side e = LONG then prev_high < bar_close b
                   else bar_close b < prev_low)
             in if rt \<noteq> None \<and> after_retest \<and> confirms then
                  (let (ideal_low, ideal_high, chase, stop) = standard_terms e pullback;
                       updated = e\<lparr> ev_status := CONFIRMED,
                         ev_transition := ''FORMAL_SETUP_CONFIRMED'', latest_bar := b,
                         formal_mode := Some STANDARD, pullback_extreme := Some pullback,
                         ev_retest_type := rt, retest_seen_bar_time_ms := seen,
                         ideal_entry_low := Some ideal_low, ideal_entry_high := Some ideal_high,
                         chase_limit := Some chase, structural_stop := Some stop \<rparr>
                   in rbind (make_event_decision updated DK_FORMAL_SETUP_CONFIRMED
                          (if rt = Some DEEP then ''BREAKOUT_STANDARD_CONFIRMED_DEEP_RETEST''
                           else ''BREAKOUT_STANDARD_CONFIRMED_SHALLOW_RETEST'')
                          (ev_transition updated))
                        (\<lambda>d. Inr (updated, Some d)))
                else
                  Inr (e\<lparr> latest_bar := b, ev_transition := ''STANDARD_WAIT_NO_ECONOMIC_TIMEOUT'',
                          previous_close := Some (bar_close b), previous_high := Some (bar_high b),
                          previous_low := Some (bar_low b), pullback_extreme := Some pullback,
                          ev_retest_type := rt, retest_seen_bar_time_ms := seen \<rparr>, None))))"

definition progress_breakout ::
  "market_event \<Rightarrow> bar \<Rightarrow> (market_event \<times> strategy_decision option) res" where
  "progress_breakout e b =
     (case (previous_close e, previous_high e, previous_low e) of
        (Some prev_close, Some prev_high, Some prev_low) \<Rightarrow>
          (if accepted_reentry e b then
             finish e INVALIDATED ''INVALIDATED_ACCEPTED_REENTRY'' b DK_INVALIDATED
               ''INVALIDATED_ACCEPTED_REENTRY''
           else if \<not> pullback_started e then progress_breakout_impulse e b prev_close
           else progress_breakout_standard e b prev_high prev_low)
      | _ \<Rightarrow> Inl (KernelInputError ''breakout event previous-bar state is missing''))"

section \<open>Range edge rejection\<close>

definition range_valid ::
  "zone_snapshot option \<Rightarrow> zone_snapshot option \<Rightarrow> bar list \<Rightarrow> decimal option \<Rightarrow> bool res" where
  "range_valid support resistance bars a15_opt =
     (case (support, resistance) of
        (Some szone, Some rzone) \<Rightarrow>
          if length bars < 15 then Inr False
          else if \<not> event_eligible szone ZLOW \<or> \<not> event_eligible rzone ZHIGH then Inr False
          else
            rbind (case a15_opt of None \<Rightarrow> wilder_atr14 bars | Some a \<Rightarrow> Inr a) (\<lambda>a15.
              let width = dsub (zone_center rzone) (zone_center szone) in
              if \<not> (dmul 1.5 a15 \<le> width \<and> width \<le> dmul 5.0 a15) then Inr False
              else if length bars < 9 then Inr False
              else
                rbind (directional_efficiency_8 bars) (\<lambda>er8.
                  if 0.35 < er8 then Inr False
                  else if a15 < dabs (dsub (bar_close (last bars)) (bar_close (from_end 9 bars)))
                  then Inr False
                  else Inr (list_all (\<lambda>b. dsub (zone_low szone) (dmul 0.10 a15) \<le> bar_close b \<and>
                         bar_close b \<le> dadd (zone_high rzone) (dmul 0.10 a15)) (last_n 8 bars))))
      | _ \<Rightarrow> Inr False)"

definition range_candidate ::
  "bar \<Rightarrow> decimal \<Rightarrow> zone_snapshot \<Rightarrow> side \<Rightarrow> decimal \<Rightarrow> decimal \<Rightarrow> bool res" where
  "range_candidate b prev_close z sd a5 m20 =
     (if bar_high b = bar_low b then Inr False
      else
        let tr = true_range b prev_close in
        if tr \<le> 0 then Inr False
        else if sd = LONG then
          (let lower_wick = dsub (min (bar_open b) (bar_close b)) (bar_low b) in
           rand (bar_low b \<le> dadd (zone_high z) (dmul 0.10 a5) \<and>
                 dadd (zone_low z) (dmul 0.05 a5) \<le> bar_close b)
             (rbind (clv_long b) (\<lambda>v.
               Inr (0.70 \<le> v \<and> 0.35 \<le> ddiv lower_wick tr \<and> m20 \<le> bar_volume b))))
        else
          (let upper_wick = dsub (bar_high b) (max (bar_open b) (bar_close b)) in
           rand (dsub (zone_low z) (dmul 0.10 a5) \<le> bar_high b \<and>
                 bar_close b \<le> dsub (zone_high z) (dmul 0.05 a5))
             (rbind (clv_short b) (\<lambda>v.
               Inr (0.70 \<le> v \<and> 0.35 \<le> ddiv upper_wick tr \<and> m20 \<le> bar_volume b)))))"

definition new_range ::
  "hashing \<Rightarrow> bar \<Rightarrow> zone_snapshot \<Rightarrow> zone_snapshot \<Rightarrow> side \<Rightarrow> decimal \<Rightarrow> decimal \<Rightarrow> htf_relation \<Rightarrow>
   scanner_linkage option \<Rightarrow> market_event" where
  "new_range H b z other sd a5 m20 rel link =
     (let range_center = ddiv (dadd (zone_center z) (zone_center other)) 2 in
      (blank_event (make_market_event_id H (bar_market_id b) (zone_id z) sd (candle_id H b))
         (bar_market_id b) RANGE_EDGE_REJECTION sd CONFIRMED ''FORMAL_SETUP_CONFIRMED'' z b
         a5 m20 rel link)
       \<lparr> ideal_entry_low := Some (if sd = LONG then zone_low z
           else dsub (zone_low z) (dmul 0.10 a5)),
         ideal_entry_high := Some (if sd = LONG then dadd (zone_high z) (dmul 0.10 a5)
           else zone_high z),
         chase_limit := Some (if sd = LONG then dadd (zone_high z) (dmul 0.35 a5)
           else dsub (zone_low z) (dmul 0.35 a5)),
         structural_stop := Some (if sd = LONG then dsub (bar_low b) (dmul 0.10 a5)
           else dadd (bar_high b) (dmul 0.10 a5)),
         ev_target_reference := Some \<lparr> target_kind = RANGE_CENTER,
           target_price = Some range_center, target_zone_id = None,
           frozen_directional_zones = [] \<rparr> \<rparr>)"

section \<open>Ledger transitions\<close>

text \<open>
  \<open>_replace\<close>: the tuple with the entry replaced, refused when it compares equal to the old
  one. The caller always passes a fresh \<open>updated\<close>, so \<open>original is not updated\<close> holds.
\<close>

definition replace_at :: "event_ledger \<Rightarrow> nat \<Rightarrow> market_event \<Rightarrow> event_ledger res" where
  "replace_at evs i updated =
     (if evs[i := updated] = evs then Inl (KernelInputError ''event ledger replacement failed'')
      else Inr (evs[i := updated]))"

type_synonym ledger_log = "event_ledger \<times> strategy_decision list"

definition opposite_hit :: "market_event \<Rightarrow> market_event \<Rightarrow> bool" where
  "opposite_hit formal e \<longleftrightarrow>
     ev_market_id e = ev_market_id formal \<and> ev_side e = opposite (ev_side formal) \<and>
     ev_status e = ACTIVE \<and>
     bar_open_time_ms (created_bar e) < bar_open_time_ms (latest_bar formal)"

definition invalidate_opposite_step ::
  "market_event \<Rightarrow> event_ledger \<Rightarrow> nat \<Rightarrow> ledger_log \<Rightarrow> ledger_log res" where
  "invalidate_opposite_step formal snapshot i = (\<lambda>(current, decs).
     let e = snapshot ! i in
     if opposite_hit formal e then
       (let updated = e\<lparr> ev_status := INVALIDATED,
              ev_transition := ''INVALIDATED_BY_OPPOSITE_FORMAL_EVENT'',
              latest_bar := latest_bar formal \<rparr>
        in rbind (replace_at current i updated) (\<lambda>current'.
           rbind (make_event_decision updated DK_INVALIDATED ''OPPOSITE_FORMAL_EVENT''
                    (ev_transition updated)) (\<lambda>d. Inr (current', decs @ [d]))))
     else Inr (current, decs))"

definition invalidate_opposite_for :: "market_event \<Rightarrow> ledger_log \<Rightarrow> ledger_log res" where
  "invalidate_opposite_for formal st =
     rfold (invalidate_opposite_step formal (fst st)) [0..<length (fst st)] st"

definition invalidate_opposite_active ::
  "event_ledger \<Rightarrow> market_event list \<Rightarrow> ledger_log res" where
  "invalidate_opposite_active evs confirmed = rfold invalidate_opposite_for confirmed (evs, [])"

definition active_zones :: "zone_book \<Rightarrow> zone_snapshot list" where
  "active_zones book =
     filter (\<lambda>z. active_for_new_event z \<and> \<not> suppressed z \<and> 2 \<le> quality_rank (quality z)) (zones book)"

definition contains_event_id :: "event_ledger \<Rightarrow> string \<Rightarrow> setup_family \<Rightarrow> bool" where
  "contains_event_id evs eid fam \<longleftrightarrow>
     (\<exists>e \<in> set evs. market_event_id e = eid \<and> ev_setup_family e = fam)"

definition supersede_for_new_zone ::
  "event_ledger \<Rightarrow> nat \<Rightarrow> bar \<Rightarrow> (event_ledger \<times> strategy_decision) res" where
  "supersede_for_new_zone evs i b =
     (let updated = (evs ! i)\<lparr> ev_status := SUPERSEDED,
            ev_transition := ''SUPERSEDED_BY_NEW_INDEPENDENT_EVENT'', latest_bar := b \<rparr>
      in rbind (replace_at evs i updated) (\<lambda>evs'.
         rbind (make_event_decision updated DK_SUPERSEDED ''SUPERSEDED_BY_NEW_INDEPENDENT_EVENT''
                  (ev_transition updated)) (\<lambda>d. Inr (evs', d))))"

definition data_invalid_step :: "bar \<Rightarrow> event_ledger \<Rightarrow> nat \<Rightarrow> ledger_log \<Rightarrow> ledger_log res" where
  "data_invalid_step b snapshot i = (\<lambda>(current, decs).
     let e = snapshot ! i in
     if ev_status e = ACTIVE then
       (let updated = e\<lparr> ev_status := DATA_INVALID, ev_transition := ''CORE_DATA_INVALID'',
              latest_bar := b \<rparr>
        in rbind (replace_at current i updated) (\<lambda>current'.
           rbind (make_event_decision updated DK_DATA_INVALID ''MULTITIMEFRAME_DATA_INVALID''
                    (ev_transition updated)) (\<lambda>d. Inr (current', decs @ [d]))))
     else Inr (current, decs))"

definition data_invalid_all :: "bar \<Rightarrow> event_ledger \<Rightarrow> ledger_log res" where
  "data_invalid_all b evs = rfold (data_invalid_step b evs) [0..<length evs] (evs, [])"

section \<open>Evaluation of one closed bar\<close>

record eval_state =
  es_ledger :: event_ledger
  es_decisions :: "strategy_decision list"
  es_reentries :: "string \<times> side \<times> string \<Rightarrow> breakout_linkage option"
  es_confirmed :: "market_event list"
  es_blocked :: "(setup_family \<times> side) set"

definition init_state :: "event_ledger \<Rightarrow> eval_state" where
  "init_state evs = \<lparr> es_ledger = evs, es_decisions = [], es_reentries = (\<lambda>_. None),
     es_confirmed = [], es_blocked = {} \<rparr>"

definition progress_event ::
  "market_event \<Rightarrow> bar \<Rightarrow> (market_event \<times> strategy_decision option) res option" where
  "progress_event e b =
     (case ev_setup_family e of
        SWEEP_RECLAIM \<Rightarrow> Some (progress_sweep e b)
      | BREAKOUT_RETEST \<Rightarrow> Some (progress_breakout e b)
      | RANGE_EDGE_REJECTION \<Rightarrow> None)"

definition note_decision ::
  "market_event \<Rightarrow> strategy_decision option \<Rightarrow> eval_state \<Rightarrow> eval_state" where
  "note_decision updated dec s =
     (case dec of
        None \<Rightarrow> s
      | Some d \<Rightarrow>
          s\<lparr> es_decisions := es_decisions s @ [d],
             es_confirmed := (if decision d = DK_FORMAL_SETUP_CONFIRMED
               then es_confirmed s @ [updated] else es_confirmed s),
             es_reentries :=
               (if reason d = ''INVALIDATED_ACCEPTED_REENTRY'' then
                  (case ev_breakout_linkage updated of
                     None \<Rightarrow> es_reentries s
                   | Some bl \<Rightarrow>
                       (es_reentries s)((zone_id (ev_zone updated), opposite (ev_side updated),
                          ev_market_id updated) \<mapsto>
                         \<lparr> underlying_breakout_event_id = underlying_breakout_event_id bl,
                           initial_breakout_candle_id = initial_breakout_candle_id bl,
                           accepted_reentry_source_event_id = Some (market_event_id updated) \<rparr>))
                else es_reentries s) \<rparr>)"

text \<open>The body of the progress loop for the event at position \<open>i\<close> of the ledger at loop entry.\<close>

definition progress_step ::
  "bar \<Rightarrow> event_ledger \<Rightarrow> nat \<Rightarrow> eval_state \<Rightarrow> eval_state res" where
  "progress_step b snapshot i s =
     (let e = snapshot ! i in
      if ev_status e \<noteq> ACTIVE \<or> ev_market_id e \<noteq> bar_market_id b then Inr s
      else if bar_open_time_ms b \<le> bar_open_time_ms (latest_bar e) then Inr s
      else case progress_event e b of
        None \<Rightarrow> Inr s
      | Some m \<Rightarrow>
          rbind m (\<lambda>(updated, dec).
          rbind (replace_at (es_ledger s) i updated) (\<lambda>evs.
            Inr (note_decision updated dec
              (s\<lparr> es_ledger := evs,
                 es_blocked := (if terminal (ev_status updated) \<and> ev_status updated \<noteq> SUPERSEDED
                   then insert (ev_setup_family e, ev_side e) (es_blocked s)
                   else es_blocked s) \<rparr>)))))"

definition progress_all :: "bar \<Rightarrow> eval_state \<Rightarrow> eval_state res" where
  "progress_all b s =
     rfold (progress_step b (es_ledger s)) [0..<length (es_ledger s)] s"

text \<open>
  One entry of \<open>sweep_specs\<close> or \<open>breakout_specs\<close>: the two creation loops have the same
  control flow and differ in the family, the candidate test, the event and the reason.
\<close>

definition create_candidate ::
  "bar \<Rightarrow> setup_family \<Rightarrow> side \<Rightarrow> zone_snapshot \<Rightarrow> bool res \<Rightarrow>
   ((string \<times> side \<times> string \<Rightarrow> breakout_linkage option) \<Rightarrow> market_event) \<Rightarrow> string \<Rightarrow>
   eval_state \<Rightarrow> eval_state res" where
  "create_candidate b fam sd z matches mk rsn s =
     (if (fam, sd) \<in> es_blocked s then Inr s
      else
        let active = ledger_active (es_ledger s) (bar_market_id b) fam sd in
        rbind matches (\<lambda>candidate_matches.
        rbind (case active of
            None \<Rightarrow> Inr (Some s)
          | Some i \<Rightarrow>
              if zone_id (ev_zone (es_ledger s ! i)) = zone_id z \<or> \<not> candidate_matches then Inr None
              else rbind (supersede_for_new_zone (es_ledger s) i b) (\<lambda>(evs, d).
                Inr (Some (s\<lparr> es_ledger := evs, es_decisions := es_decisions s @ [d] \<rparr>)))) (\<lambda>s1.
          case s1 of
            None \<Rightarrow> Inr s
          | Some s' \<Rightarrow>
              if candidate_matches then
                (let e = mk (es_reentries s') in
                 if contains_event_id (es_ledger s') (market_event_id e) (ev_setup_family e) then Inr s'
                 else rbind (make_event_decision e DK_WAIT rsn (ev_transition e)) (\<lambda>d.
                   Inr (s'\<lparr> es_ledger := ledger_append (es_ledger s') e,
                           es_decisions := es_decisions s' @ [d] \<rparr>)))
              else Inr s')))"

definition create_sweep ::
  "hashing \<Rightarrow> strategy_input \<Rightarrow> bar \<Rightarrow> htf_context \<Rightarrow> decimal \<Rightarrow> decimal \<Rightarrow>
   side \<times> zone_snapshot option \<times> zone_type \<Rightarrow> eval_state \<Rightarrow> eval_state res" where
  "create_sweep H inp b ctx a5 m20 = (\<lambda>(sd, zone_opt, zt) s.
     case zone_opt of
       None \<Rightarrow> Inr s
     | Some z \<Rightarrow>
         if \<not> event_eligible z zt then Inr s
         else create_candidate b SWEEP_RECLAIM sd z (Inr (sweep_candidate b z sd a5))
           (\<lambda>reentries. new_sweep H b z sd a5 m20 (htf_relation_of ctx sd) (in_scanner_linkage inp)
              (reentries (zone_id z, sd, bar_market_id b)))
           ''SWEEP_CANDIDATE_CREATED'' s)"

definition create_breakout ::
  "hashing \<Rightarrow> strategy_input \<Rightarrow> bar \<Rightarrow> htf_context \<Rightarrow> decimal \<Rightarrow> decimal \<Rightarrow> zone_snapshot list \<Rightarrow>
   side \<times> zone_snapshot option \<times> zone_type \<Rightarrow> eval_state \<Rightarrow> eval_state res" where
  "create_breakout H inp b ctx a5 m20 zs = (\<lambda>(sd, zone_opt, zt) s.
     case zone_opt of
       None \<Rightarrow> Inr s
     | Some z \<Rightarrow>
         if \<not> event_eligible z zt then Inr s
         else create_candidate b BREAKOUT_RETEST sd z (initial_breakout b z sd a5 m20)
           (\<lambda>_. new_breakout H b z sd a5 m20 (htf_relation_of ctx sd) (in_scanner_linkage inp) zs)
           ''INITIAL_BREAKOUT_EVENT_CREATED'' s)"

definition create_range ::
  "hashing \<Rightarrow> strategy_input \<Rightarrow> bar \<Rightarrow> decimal \<Rightarrow> htf_context \<Rightarrow> decimal \<Rightarrow> decimal \<Rightarrow>
   side \<times> zone_snapshot option \<times> zone_snapshot option \<Rightarrow> eval_state \<Rightarrow> eval_state res" where
  "create_range H inp b prev_close ctx a5 m20 = (\<lambda>(sd, zone_opt, other_opt) s.
     case (zone_opt, other_opt) of
       (Some z, Some other) \<Rightarrow>
         rbind (range_candidate b prev_close z sd a5 m20) (\<lambda>hit.
           if hit then
             (let e = new_range H b z other sd a5 m20 (htf_relation_of ctx sd) (in_scanner_linkage inp) in
              if contains_event_id (es_ledger s) (market_event_id e) (ev_setup_family e) then Inr s
              else
                rbind (make_event_decision e DK_FORMAL_SETUP_CONFIRMED
                    (if sd = LONG then ''RANGE_LONG_CONFIRMED'' else ''RANGE_SHORT_CONFIRMED'')
                    (ev_transition e)) (\<lambda>d.
                  Inr (s\<lparr> es_ledger := ledger_append (es_ledger s) e,
                         es_confirmed := es_confirmed s @ [e],
                         es_decisions := es_decisions s @ [d] \<rparr>)))
           else Inr s)
     | _ \<Rightarrow> Inr s)"

definition create_all ::
  "hashing \<Rightarrow> strategy_input \<Rightarrow> bar \<Rightarrow> bar list \<Rightarrow> zone_book \<Rightarrow> htf_context \<Rightarrow> decimal \<Rightarrow> decimal \<Rightarrow>
   eval_state \<Rightarrow> eval_state res" where
  "create_all H inp b bars15 book ctx a5 m20 s =
     rbind (rfold (create_sweep H inp b ctx a5 m20)
       [(LONG, active_support book, ZLOW), (SHORT, active_resistance book, ZHIGH)] s) (\<lambda>s1.
     rbind (rfold (create_breakout H inp b ctx a5 m20 (active_zones book))
       [(LONG, active_resistance book, ZHIGH), (SHORT, active_support book, ZLOW)] s1) (\<lambda>s2.
     rbind (range_valid (active_support book) (active_resistance book) bars15 (a15_override inp))
       (\<lambda>valid.
       if valid \<and> 2 \<le> length (in_bars_5m inp) then
         rfold (create_range H inp b (bar_close (from_end 2 (in_bars_5m inp))) ctx a5 m20)
           [(LONG, active_support book, active_resistance book),
            (SHORT, active_resistance book, active_support book)] s2
       else Inr s2)))"

definition evaluate_bar ::
  "hashing \<Rightarrow> strategy_input \<Rightarrow> bar \<Rightarrow> bar list \<Rightarrow> zone_book \<Rightarrow> htf_context \<Rightarrow> decimal \<Rightarrow> decimal \<Rightarrow>
   event_ledger \<Rightarrow> ledger_log res" where
  "evaluate_bar H inp b bars15 book ctx a5 m20 evs =
     rbind (progress_all b (init_state evs)) (\<lambda>s1.
     rbind (create_all H inp b bars15 book ctx a5 m20 s1) (\<lambda>s2.
     rbind (invalidate_opposite_active (es_ledger s2) (es_confirmed s2)) (\<lambda>(evs', decs).
       Inr (evs', es_decisions s2 @ decs))))"

definition evaluate_strategy ::
  "hashing \<Rightarrow> strategy_input \<Rightarrow> event_ledger option \<Rightarrow> kernel_result res" where
  "evaluate_strategy H inp ledger =
     rbind (validate_series (in_bars_5m inp) (Some ''5m'')) (\<lambda>_.
     let b = last (in_bars_5m inp) in
     rbind (case in_bars_15m inp of
         None \<Rightarrow> aggregate_closed_5m_causally (in_bars_5m inp) 15
       | Some bs \<Rightarrow> rbind (validate_series bs (Some ''15m'')) (\<lambda>_. Inr bs)) (\<lambda>bars15.
     rbind (case in_bars_1h inp of
         None \<Rightarrow> aggregate_closed_5m_causally (in_bars_5m inp) 60
       | Some bs \<Rightarrow>
           if bs = [] then Inr bs
           else rbind (validate_series bs (Some ''1h'')) (\<lambda>_. Inr bs)) (\<lambda>bars1h.
     rbind (case htf_context_override inp of None \<Rightarrow> htf_context_of bars1h | Some c \<Rightarrow> Inr c) (\<lambda>ctx.
     rbind (case in_zone_book inp of
         None \<Rightarrow>
           if bars15 = []
           then Inl (KernelInputError ''strategy evaluation requires causal 15m history'')
           else build_zone_book H bars15 (in_minimum_tick inp) None 0
       | Some bk \<Rightarrow> Inr bk) (\<lambda>book.
     let evs = (case ledger of None \<Rightarrow> [] | Some l \<Rightarrow> l);
         result = (\<lambda>(evs', decs). Inr \<lparr> res_ledger = evs', res_decisions = decs,
           res_zones = zones book, res_active_support = active_support book,
           res_active_resistance = active_resistance book, res_htf_context = ctx \<rparr>)
     in if \<not> mandatory_data_valid inp then rbind (data_invalid_all b evs) result
        else
          rbind (case a5_override inp of None \<Rightarrow> wilder_atr14 (in_bars_5m inp) | Some a \<Rightarrow> Inr a) (\<lambda>a5.
          rbind (case m20_override inp of
              None \<Rightarrow> median_previous_20_volume (in_bars_5m inp) | Some m \<Rightarrow> Inr m) (\<lambda>m20.
          rbind (evaluate_bar H inp b bars15 book ctx a5 m20 evs) result)))))))"

definition mark_unresolved_at_shutdown :: "event_ledger \<Rightarrow> event_ledger" where
  "mark_unresolved_at_shutdown evs =
     map (\<lambda>e. if ev_status e = ACTIVE
        then e\<lparr> ev_status := UNRESOLVED_AT_SHUTDOWN, ev_transition := ''UNRESOLVED_AT_SHUTDOWN'' \<rparr>
        else e) evs"

end
