(* ===== verification/Engine_Ledger.thy ===== *)
theory Engine_Ledger
  imports Engine
begin

text \<open>
  The ledger protocol of the strategy kernel. An abstract machine changes a ledger by
  evolving one active event or by appending a new one; every evaluation of the engine is a
  run of that machine, so the invariants of the machine are invariants of the engine.
\<close>

section \<open>The abstract ledger machine\<close>

text \<open>What no transition of an event may change.\<close>

definition event_core ::
  "market_event \<Rightarrow> (string \<times> string \<times> setup_family \<times> side) \<times> (zone_snapshot \<times> bar \<times> decimal \<times> decimal) \<times>
    (htf_relation \<times> scanner_linkage option \<times> breakout_linkage option \<times> target_reference option)" where
  "event_core e =
     ((market_event_id e, ev_market_id e, ev_setup_family e, ev_side e),
      (ev_zone e, created_bar e, a5_event e, m20_event e),
      (ev_htf_relation e, ev_scanner_linkage e, ev_breakout_linkage e, ev_target_reference e))"

abbreviation event_key :: "market_event \<Rightarrow> string \<times> setup_family" where
  "event_key e \<equiv> (market_event_id e, ev_setup_family e)"

abbreviation slot :: "market_event \<Rightarrow> string \<times> setup_family \<times> side" where
  "slot e \<equiv> (ev_market_id e, ev_setup_family e, ev_side e)"

inductive ledger_step :: "event_ledger \<Rightarrow> event_ledger \<Rightarrow> bool" where
  evolve: "i < length evs \<Longrightarrow> ev_status (evs ! i) = ACTIVE \<Longrightarrow> event_core e = event_core (evs ! i) \<Longrightarrow>
    ledger_step evs (evs[i := e])"
| create: "event_key e \<notin> event_key ` set evs \<Longrightarrow>
    (ev_status e = ACTIVE \<Longrightarrow> \<forall>e' \<in> set evs. ev_status e' = ACTIVE \<longrightarrow> slot e' \<noteq> slot e) \<Longrightarrow>
    ledger_step evs (evs @ [e])"

abbreviation ledger_run :: "event_ledger \<Rightarrow> event_ledger \<Rightarrow> bool" where
  "ledger_run \<equiv> ledger_step\<^sup>*\<^sup>*"

section \<open>Invariants of the machine\<close>

definition event_kept :: "market_event \<Rightarrow> market_event \<Rightarrow> bool" where
  "event_kept e e' \<longleftrightarrow>
     event_core e' = event_core e \<and> (ev_status e \<noteq> ACTIVE \<longrightarrow> e' = e)"

definition ledger_extends :: "event_ledger \<Rightarrow> event_ledger \<Rightarrow> bool" where
  "ledger_extends evs evs' \<longleftrightarrow>
     length evs \<le> length evs' \<and> (\<forall>i < length evs. event_kept (evs ! i) (evs' ! i))"

definition keys_unique :: "event_ledger \<Rightarrow> bool" where
  "keys_unique evs \<longleftrightarrow> distinct (map event_key evs)"

definition single_active :: "event_ledger \<Rightarrow> bool" where
  "single_active evs \<longleftrightarrow> distinct (map slot (filter (\<lambda>e. ev_status e = ACTIVE) evs))"

lemma event_kept_refl [simp]: "event_kept e e"
  by (simp add: event_kept_def)

lemma event_kept_trans: "event_kept e f \<Longrightarrow> event_kept f g \<Longrightarrow> event_kept e g"
  by (auto simp: event_kept_def)

lemma ledger_extends_refl [simp]: "ledger_extends evs evs"
  by (simp add: ledger_extends_def)

lemma ledger_extends_trans:
  "ledger_extends a b \<Longrightarrow> ledger_extends b c \<Longrightarrow> ledger_extends a c"
  unfolding ledger_extends_def by (metis event_kept_trans le_trans less_le_trans)

lemma event_core_key: "event_core e = event_core f \<Longrightarrow> event_key e = event_key f \<and> slot e = slot f"
  by (simp add: event_core_def)

lemma ledger_step_extends: "ledger_step evs evs' \<Longrightarrow> ledger_extends evs evs'"
  by (induction rule: ledger_step.induct)
    (auto simp: ledger_extends_def event_kept_def nth_list_update nth_append)

lemma ledger_step_keys: "ledger_step evs evs' \<Longrightarrow> keys_unique evs \<Longrightarrow> keys_unique evs'"
proof (induction rule: ledger_step.induct)
  case (evolve i evs e)
  have "map event_key (evs[i := e]) = (map event_key evs)[i := event_key e]" by (rule map_update)
  also have "event_key e = map event_key evs ! i"
    using evolve.hyps(1) event_core_key [OF evolve.hyps(3)] by simp
  also have "(map event_key evs)[i := map event_key evs ! i] = map event_key evs" by (rule list_update_id)
  finally show ?case using evolve.prems by (simp only: keys_unique_def)
next
  case (create e evs)
  then show ?case by (simp add: keys_unique_def)
qed

lemma distinct_slot_update:
  assumes "i < length evs" and "P (evs ! i)" and "f e = f (evs ! i)"
    and "distinct (map f (filter P evs))"
  shows "distinct (map f (filter P (evs[i := e])))"
proof -
  have "map f (filter P evs) = map f (filter P (take i evs)) @ f e # map f (filter P (drop (Suc i) evs))"
    using arg_cong [OF id_take_nth_drop [OF assms(1)], of "\<lambda>l. map f (filter P l)"] assms(2,3) by simp
  with assms(4) have "distinct (map f (filter P (take i evs)) @ f e # map f (filter P (drop (Suc i) evs)))"
    by (simp only:)
  then show ?thesis using assms(1) by (auto simp: upd_conv_take_nth_drop)
qed

lemma ledger_step_single: "ledger_step evs evs' \<Longrightarrow> single_active evs \<Longrightarrow> single_active evs'"
proof (induction rule: ledger_step.induct)
  case (evolve i evs e)
  then show ?case
    unfolding single_active_def using event_core_key [OF evolve.hyps(3)]
    by (intro distinct_slot_update) simp_all
next
  case (create e evs)
  then show ?case by (cases "ev_status e = ACTIVE") (auto simp: single_active_def)
qed

lemma ledger_run_inv:
  assumes "ledger_run evs evs'"
  shows "ledger_extends evs evs'" and "keys_unique evs \<Longrightarrow> keys_unique evs'"
    and "single_active evs \<Longrightarrow> single_active evs'"
proof -
  have "ledger_extends evs evs' \<and> (keys_unique evs \<longrightarrow> keys_unique evs') \<and> (single_active evs \<longrightarrow> single_active evs')"
    using assms
  proof (induction rule: rtranclp_induct)
    case (step b c)
    then show ?case
      using ledger_step_extends [OF step.hyps(2)] ledger_step_keys [OF step.hyps(2)]
        ledger_step_single [OF step.hyps(2)] ledger_extends_trans by blast
  qed simp
  then show "ledger_extends evs evs'" "keys_unique evs \<Longrightarrow> keys_unique evs'"
    "single_active evs \<Longrightarrow> single_active evs'" by blast+
qed

section \<open>Passes over the positions of a ledger\<close>

text \<open>
  Three loops of the engine walk over the ledger as it was at loop entry and replace entries
  of the current one. What they share: the step at position \<open>i\<close> leaves the ledger alone or
  replaces entry \<open>i\<close> by an event related to the entry of the snapshot.
\<close>

locale ledger_pass =
  fixes step :: "event_ledger \<Rightarrow> nat \<Rightarrow> 's \<Rightarrow> 's res"
    and led :: "'s \<Rightarrow> event_ledger"
    and rel :: "market_event \<Rightarrow> market_event \<Rightarrow> bool"
  assumes step_replaces: "step snap i s = Inr s' \<Longrightarrow>
    led s' = led s \<or> (\<exists>e. rel (snap ! i) e \<and> led s' = (led s)[i := e])"
begin

lemma pass_prefix:
  assumes "rfold (step snap) [0..<k] s = Inr s'" and "led s = snap" and "k \<le> length snap"
  shows "length (led s') = length snap \<and>
    (\<forall>i < length snap. led s' ! i = snap ! i \<or> i < k \<and> rel (snap ! i) (led s' ! i))"
  using assms
proof (induction k arbitrary: s')
  case (Suc k)
  then obtain u where u: "rfold (step snap) [0..<k] s = Inr u" "step snap k u = Inr s'"
    by (auto simp: rfold_append res_simps)
  have IH: "length (led u) = length snap"
    "\<forall>i < length snap. led u ! i = snap ! i \<or> i < k \<and> rel (snap ! i) (led u ! i)"
    using Suc.IH [OF u(1) Suc.prems(2)] Suc.prems(3) by auto
  from step_replaces [OF u(2)] show ?case
  proof
    assume "led s' = led u"
    then show ?thesis using IH by (auto simp: less_Suc_eq)
  next
    assume "\<exists>e. rel (snap ! k) e \<and> led s' = (led u)[k := e]"
    then obtain e where e: "rel (snap ! k) e" "led s' = (led u)[k := e]" by blast
    have "led s' ! i = snap ! i \<or> i < Suc k \<and> rel (snap ! i) (led s' ! i)" if "i < length snap" for i
      using IH that e Suc.prems(3) by (cases "i = k") auto
    then show ?thesis using IH(1) e(2) by simp
  qed
qed auto

lemma pass_pointwise:
  assumes "rfold (step (led s)) [0..<length (led s)] s = Inr s'"
  shows "length (led s') = length (led s) \<and>
    (\<forall>i < length (led s). led s' ! i = led s ! i \<or> rel (led s ! i) (led s' ! i))"
  using pass_prefix [OF assms refl order_refl] by auto

lemma pass_returns:
  assumes "\<And>i u. i < length (led s) \<Longrightarrow> length (led u) = length (led s) \<Longrightarrow> led u ! i = led s ! i \<Longrightarrow>
      \<exists>u'. step (led s) i u = Inr u'"
  shows "\<exists>s'. rfold (step (led s)) [0..<length (led s)] s = Inr s'"
proof -
  have "k \<le> length (led s) \<Longrightarrow> \<exists>s'. rfold (step (led s)) [0..<k] s = Inr s'" for k
  proof (induction k)
    case (Suc k)
    then obtain u where u: "rfold (step (led s)) [0..<k] s = Inr u" by auto
    have p: "length (led u) = length (led s)"
      "\<forall>i < length (led s). led u ! i = led s ! i \<or> i < k \<and> rel (led s ! i) (led u ! i)"
      using pass_prefix [OF u refl] Suc.prems by auto
    have "led u ! k = led s ! k" using p(2) [rule_format, of k] Suc.prems by simp
    with assms [of k u] Suc.prems u p(1) show ?case by (auto simp: rfold_append)
  qed simp
  then show ?thesis by blast
qed

end

text \<open>A pass that replaces exactly the entries that are hit, by entries that are not.\<close>

locale clearing_pass = ledger_pass +
  fixes hit :: "market_event \<Rightarrow> bool"
  assumes step_hits: "step snap i s = Inr s' \<Longrightarrow>
    if hit (snap ! i) then \<exists>e. \<not> hit e \<and> led s' = (led s)[i := e] else led s' = led s"
begin

lemma pass_clears:
  assumes "rfold (step (led s)) [0..<length (led s)] s = Inr s'" and "e \<in> set (led s')"
  shows "\<not> hit e"
proof -
  have "k \<le> length (led s) \<Longrightarrow> rfold (step (led s)) [0..<k] s = Inr u \<Longrightarrow> \<forall>i < k. \<not> hit (led u ! i)" for k u
  proof (induction k arbitrary: u)
    case (Suc k)
    then obtain v where v: "rfold (step (led s)) [0..<k] s = Inr v" "step (led s) k v = Inr u"
      by (auto simp: rfold_append rbind_Inr)
    have IH: "\<forall>i < k. \<not> hit (led v ! i)" using Suc.IH [OF _ v(1)] Suc.prems(1) by simp
    have len: "length (led v) = length (led s)"
      and pre: "\<forall>i < length (led s). led v ! i = led s ! i \<or> i < k \<and> rel (led s ! i) (led v ! i)"
      using pass_prefix [OF v(1) refl] Suc.prems(1) by auto
    have at: "led v ! k = led s ! k" using pre [rule_format, of k] Suc.prems(1) by simp
    show ?case
    proof (cases "hit (led s ! k)")
      case True
      then obtain e where e: "\<not> hit e" "led u = (led v)[k := e]" using step_hits [OF v(2)] by auto
      have "\<not> hit (led u ! i)" if "i < Suc k" for i
        using e IH that len Suc.prems(1) by (cases "i = k") auto
      then show ?thesis by blast
    next
      case False
      then have "led u = led v" using step_hits [OF v(2)] by auto
      then show ?thesis using IH at False by (simp add: less_Suc_eq)
    qed
  qed simp
  from this [OF order_refl assms(1)] assms(2) pass_pointwise [OF assms(1)] show ?thesis
    by (auto simp: in_set_conv_nth)
qed

end

definition evolved :: "market_event \<Rightarrow> market_event \<Rightarrow> bool" where
  "evolved e e' \<longleftrightarrow> ev_status e = ACTIVE \<and> event_core e' = event_core e"

definition closed :: "market_event \<Rightarrow> market_event \<Rightarrow> bool" where
  "closed e e' \<longleftrightarrow> evolved e e' \<and> ev_status e' \<noteq> ACTIVE"

lemma pointwise_run:
  assumes "length evs' = length evs"
    and "\<forall>i < length evs. evs' ! i = evs ! i \<or> evolved (evs ! i) (evs' ! i)"
  shows "ledger_run evs evs'"
proof -
  have "k \<le> length evs \<Longrightarrow> ledger_run evs (take k evs' @ drop k evs)" for k
  proof (induction k)
    case (Suc k)
    let ?a = "take k evs' @ drop k evs"
    have len: "length ?a = length evs" and nth: "?a ! k = evs ! k"
      using Suc.prems assms(1) by (simp_all add: nth_append)
    have upd: "take (Suc k) evs' @ drop (Suc k) evs = ?a[k := evs' ! k]"
      using Suc.prems assms(1)
      by (intro nth_equalityI) (auto simp: nth_list_update nth_append min_def less_Suc_eq)
    have "ledger_run ?a (?a[k := evs' ! k])"
    proof (cases "evs' ! k = evs ! k")
      case True
      then show ?thesis using nth by (metis list_update_id rtranclp.rtrancl_refl)
    next
      case False
      then have "evolved (?a ! k) (evs' ! k)" using assms(2) [rule_format, of k] Suc.prems nth by simp
      then show ?thesis using len Suc.prems by (auto simp: evolved_def intro!: ledger_step.evolve)
    qed
    with Suc show ?case by (simp add: upd)
  qed simp
  from this [of "length evs"] show ?thesis using assms(1) by simp
qed

section \<open>The loops of the engine are such passes\<close>

lemma event_core_update [simp]:
  "event_core (e\<lparr> ev_status := x0 \<rparr>) = event_core e"
  "event_core (e\<lparr> ev_transition := x1 \<rparr>) = event_core e"
  "event_core (e\<lparr> latest_bar := x2 \<rparr>) = event_core e"
  "event_core (e\<lparr> previous_close := x3 \<rparr>) = event_core e"
  "event_core (e\<lparr> previous_high := x4 \<rparr>) = event_core e"
  "event_core (e\<lparr> previous_low := x5 \<rparr>) = event_core e"
  "event_core (e\<lparr> pullback_started := x6 \<rparr>) = event_core e"
  "event_core (e\<lparr> impulse_extreme := x7 \<rparr>) = event_core e"
  "event_core (e\<lparr> pullback_extreme := x8 \<rparr>) = event_core e"
  "event_core (e\<lparr> ev_retest_type := x9 \<rparr>) = event_core e"
  "event_core (e\<lparr> retest_seen_bar_time_ms := x10 \<rparr>) = event_core e"
  "event_core (e\<lparr> formal_mode := x11 \<rparr>) = event_core e"
  "event_core (e\<lparr> ideal_entry_low := x12 \<rparr>) = event_core e"
  "event_core (e\<lparr> ideal_entry_high := x13 \<rparr>) = event_core e"
  "event_core (e\<lparr> chase_limit := x14 \<rparr>) = event_core e"
  "event_core (e\<lparr> structural_stop := x15 \<rparr>) = event_core e"
  by (simp_all add: event_core_def)


lemma evolved_close:
  "ev_status e = ACTIVE \<Longrightarrow> evolved e (e\<lparr> ev_status := st, ev_transition := t, latest_bar := b \<rparr>)"
  by (simp add: evolved_def)

lemma closed_close:
  "ev_status e = ACTIVE \<Longrightarrow> st \<noteq> ACTIVE \<Longrightarrow>
    closed e (e\<lparr> ev_status := st, ev_transition := t, latest_bar := b \<rparr>)"
  by (simp add: closed_def evolved_close)

lemma replace_at_Inr: "replace_at evs i e = Inr evs' \<longleftrightarrow> evs' = evs[i := e] \<and> evs[i := e] \<noteq> evs"
  by (auto simp: replace_at_def)

lemma finish_core: "finish e st tr b k r = Inr (e', d) \<Longrightarrow> event_core e' = event_core e"
  by (auto simp: finish_def Let_def res_simps)

lemma progress_sweep_core: "progress_sweep e b = Inr (e', d) \<Longrightarrow> event_core e' = event_core e"
  by (auto simp: progress_sweep_def Let_def dest: finish_core split: option.splits if_splits)

lemma progress_impulse_core:
  "progress_breakout_impulse e b p = Inr (e', d) \<Longrightarrow> event_core e' = event_core e"
  by (auto simp: progress_breakout_impulse_def Let_def split_beta res_simps
      split: option.splits if_splits)

lemma progress_standard_core:
  "progress_breakout_standard e b h l = Inr (e', d) \<Longrightarrow> event_core e' = event_core e"
  by (auto simp: progress_breakout_standard_def Let_def split_beta res_simps
      split: option.splits if_splits)

lemma progress_event_core: "progress_event e b = Some (Inr (e', d)) \<Longrightarrow> event_core e' = event_core e"
  by (auto simp: progress_event_def progress_breakout_def
      dest: progress_sweep_core finish_core progress_impulse_core progress_standard_core
      split: setup_family.splits option.splits if_splits)

lemma note_decision_ledger [simp]: "es_ledger (note_decision u d s) = es_ledger s"
  by (simp add: note_decision_def split: option.splits)

interpretation progress: ledger_pass "progress_step b" es_ledger evolved for b
  by unfold_locales
    (auto simp: progress_step_def Let_def res_simps replace_at_Inr evolved_def
      dest!: progress_event_core split: if_splits option.splits)

lemma opposite_step_ledger:
  assumes "invalidate_opposite_step formal snap i s = Inr s'"
  shows "fst s' = (if opposite_hit formal (snap ! i)
    then (fst s)[i := (snap ! i)\<lparr> ev_status := INVALIDATED,
      ev_transition := ''INVALIDATED_BY_OPPOSITE_FORMAL_EVENT'', latest_bar := latest_bar formal \<rparr>]
    else fst s)"
  using assms by (auto simp: invalidate_opposite_step_def split_beta Let_def rbind_Inr replace_at_Inr)

interpretation opposite_pass: clearing_pass "invalidate_opposite_step formal" fst closed "opposite_hit formal"
  for formal
proof
  fix snap i and s s' :: ledger_log
  assume st: "invalidate_opposite_step formal snap i s = Inr s'"
  let ?e = "(snap ! i)\<lparr> ev_status := INVALIDATED,
      ev_transition := ''INVALIDATED_BY_OPPOSITE_FORMAL_EVENT'', latest_bar := latest_bar formal \<rparr>"
  have ev: "closed (snap ! i) ?e" if "opposite_hit formal (snap ! i)"
    using that by (intro closed_close) (simp_all add: opposite_hit_def)
  show "fst s' = fst s \<or> (\<exists>e. closed (snap ! i) e \<and> fst s' = (fst s)[i := e])"
  proof (cases "opposite_hit formal (snap ! i)")
    case True
    then have "closed (snap ! i) ?e \<and> fst s' = (fst s)[i := ?e]"
      using ev opposite_step_ledger [OF st] by simp
    then show ?thesis by blast
  qed (use opposite_step_ledger [OF st] in simp)
  have "\<not> opposite_hit formal ?e" by (simp add: opposite_hit_def)
  then show "if opposite_hit formal (snap ! i) then \<exists>e. \<not> opposite_hit formal e \<and> fst s' = (fst s)[i := e]
      else fst s' = fst s"
    using opposite_step_ledger [OF st] by auto
qed

lemma data_invalid_step_ledger:
  assumes "data_invalid_step b snap i s = Inr s'"
  shows "fst s' = (if ev_status (snap ! i) = ACTIVE
    then (fst s)[i := (snap ! i)\<lparr> ev_status := DATA_INVALID, ev_transition := ''CORE_DATA_INVALID'', latest_bar := b \<rparr>]
    else fst s)"
  using assms by (auto simp: data_invalid_step_def split_beta Let_def rbind_Inr replace_at_Inr)

interpretation data_invalid: clearing_pass "data_invalid_step b" fst closed "\<lambda>e. ev_status e = ACTIVE" for b
proof
  fix snap i and s s' :: ledger_log
  assume st: "data_invalid_step b snap i s = Inr s'"
  let ?e = "(snap ! i)\<lparr> ev_status := DATA_INVALID, ev_transition := ''CORE_DATA_INVALID'', latest_bar := b \<rparr>"
  show "fst s' = fst s \<or> (\<exists>e. closed (snap ! i) e \<and> fst s' = (fst s)[i := e])"
  proof (cases "ev_status (snap ! i) = ACTIVE")
    case True
    then have "closed (snap ! i) ?e \<and> fst s' = (fst s)[i := ?e]"
      using closed_close data_invalid_step_ledger [OF st] by simp
    then show ?thesis by blast
  qed (use data_invalid_step_ledger [OF st] in simp)
  show "if ev_status (snap ! i) = ACTIVE then \<exists>e. ev_status e \<noteq> ACTIVE \<and> fst s' = (fst s)[i := e]
      else fst s' = fst s"
  proof (cases "ev_status (snap ! i) = ACTIVE")
    case True
    then have "ev_status ?e \<noteq> ACTIVE \<and> fst s' = (fst s)[i := ?e]"
      using data_invalid_step_ledger [OF st] by simp
    then have "\<exists>e. ev_status e \<noteq> ACTIVE \<and> fst s' = (fst s)[i := e]" by (rule exI)
    with True show ?thesis by (simp only: if_True simp_thms)
  qed (use data_invalid_step_ledger [OF st] in simp)
qed

section \<open>Creation\<close>

lemma blank_event_simps [simp]:
  "market_event_id (blank_event eid m f sd st t z b a5 m20 r l) = eid"
  "ev_market_id (blank_event eid m f sd st t z b a5 m20 r l) = m"
  "ev_setup_family (blank_event eid m f sd st t z b a5 m20 r l) = f"
  "ev_side (blank_event eid m f sd st t z b a5 m20 r l) = sd"
  "ev_status (blank_event eid m f sd st t z b a5 m20 r l) = st"
  "formal_mode (blank_event eid m f sd st t z b a5 m20 r l) = None"
  "latest_bar (blank_event eid m f sd st t z b a5 m20 r l) = b"
  "created_bar (blank_event eid m f sd st t z b a5 m20 r l) = b"
  "pullback_started (blank_event eid m f sd st t z b a5 m20 r l) = False"
  by (simp_all add: blank_event_def)

lemma new_event_simps [simp]:
  "ev_market_id (new_sweep H b z sd a5 m20 r l bl) = bar_market_id b"
  "ev_setup_family (new_sweep H b z sd a5 m20 r l bl) = SWEEP_RECLAIM"
  "ev_side (new_sweep H b z sd a5 m20 r l bl) = sd"
  "ev_status (new_sweep H b z sd a5 m20 r l bl) = ACTIVE"
  "formal_mode (new_sweep H b z sd a5 m20 r l bl) = None"
  "latest_bar (new_sweep H b z sd a5 m20 r l bl) = b"
  "created_bar (new_sweep H b z sd a5 m20 r l bl) = b"
  "ev_market_id (new_breakout H b z sd a5 m20 r l zs) = bar_market_id b"
  "ev_setup_family (new_breakout H b z sd a5 m20 r l zs) = BREAKOUT_RETEST"
  "ev_side (new_breakout H b z sd a5 m20 r l zs) = sd"
  "ev_status (new_breakout H b z sd a5 m20 r l zs) = ACTIVE"
  "formal_mode (new_breakout H b z sd a5 m20 r l zs) = None"
  "latest_bar (new_breakout H b z sd a5 m20 r l zs) = b"
  "created_bar (new_breakout H b z sd a5 m20 r l zs) = b"
  "ev_market_id (new_range H b z y sd a5 m20 r l) = bar_market_id b"
  "ev_setup_family (new_range H b z y sd a5 m20 r l) = RANGE_EDGE_REJECTION"
  "ev_side (new_range H b z y sd a5 m20 r l) = sd"
  "ev_status (new_range H b z y sd a5 m20 r l) = CONFIRMED"
  "formal_mode (new_range H b z y sd a5 m20 r l) = None"
  "latest_bar (new_range H b z y sd a5 m20 r l) = b"
  "created_bar (new_range H b z y sd a5 m20 r l) = b"
  by (simp_all add: new_sweep_def new_breakout_def new_range_def split_beta Let_def)

lemma contains_event_id_iff: "contains_event_id evs eid fam \<longleftrightarrow> (eid, fam) \<in> event_key ` set evs"
  by (auto simp: contains_event_id_def)

lemma supersede_spec:
  assumes "supersede_for_new_zone evs i b = Inr (evs', d)"
  shows "evs' = evs[i := (evs ! i)\<lparr> ev_status := SUPERSEDED,
      ev_transition := ''SUPERSEDED_BY_NEW_INDEPENDENT_EVENT'', latest_bar := b \<rparr>]"
  using assms by (auto simp: supersede_for_new_zone_def Let_def res_simps replace_at_Inr)

lemma distinct_map_filter_nth:
  assumes "distinct (map f (filter P xs))" and "k < l" and "l < length xs" and "P (xs ! k)" and "P (xs ! l)"
  shows "f (xs ! k) \<noteq> f (xs ! l)"
proof -
  have eq: "map f (filter P xs) =
      map f (filter P (take l xs)) @ f (xs ! l) # map f (filter P (drop (Suc l) xs))"
    using arg_cong [OF id_take_nth_drop [OF assms(3)], of "\<lambda>x. map f (filter P x)"] assms(5) by simp
  have "f (xs ! l) \<notin> set (map f (filter P (take l xs)))" using assms(1) unfolding eq by simp
  moreover have "xs ! k \<in> set (filter P (take l xs))"
    using assms by (auto simp: in_set_conv_nth intro!: exI [of _ k])
  then have "f (xs ! k) \<in> set (map f (filter P (take l xs)))" unfolding set_map by (rule imageI)
  ultimately show ?thesis by metis
qed

text \<open>Superseding the one active event of a slot frees the slot.\<close>

lemma supersede_frees_slot:
  assumes "single_active evs" and "i < length evs" and "ev_status (evs ! i) = ACTIVE" and "ev_status e \<noteq> ACTIVE"
    and "e' \<in> set (evs[i := e])" and "ev_status e' = ACTIVE"
  shows "slot e' \<noteq> slot (evs ! i)"
proof -
  obtain j where j': "j < length evs" "e' = evs[i := e] ! j"
    using assms(5) by (auto simp: in_set_conv_nth)
  then have "j \<noteq> i" using assms(4,6) by auto
  with j' have j: "j < length evs" "j \<noteq> i" "e' = evs ! j" by auto
  note gen = distinct_map_filter_nth [OF assms(1) [unfolded single_active_def]]
  show ?thesis
  proof (cases "i < j")
    case True
    then show ?thesis using gen [OF True j(1) assms(3)] assms(6) j(3) by metis
  next
    case False
    then have "j < i" using j(2) by simp
    then show ?thesis using gen [OF _ assms(2) _ assms(3), of j] assms(6) j(3) by metis
  qed
qed

lemma ledger_run_evolve:
  "i < length evs \<Longrightarrow> evolved (evs ! i) e \<Longrightarrow> ledger_run evs (evs[i := e])"
  by (auto simp: evolved_def intro!: r_into_rtranclp ledger_step.evolve)

lemma create_candidate_run:
  assumes "create_candidate b fam sd z m mk rsn s = Inr s'" and "single_active (es_ledger s)"
    and mk: "\<And>r. slot (mk r) = (bar_market_id b, fam, sd)"
  shows "ledger_run (es_ledger s) (es_ledger s')"
proof (cases "(fam, sd) \<in> es_blocked s")
  case False
  obtain hit where hit: "m = Inr hit" using assms(1) False by (auto simp: create_candidate_def Let_def res_simps)
  let ?evs = "es_ledger s"
  have append: "ledger_run evs' (ledger_append evs' e)"
    if "\<not> contains_event_id evs' (market_event_id e) (ev_setup_family e)" "slot e = (bar_market_id b, fam, sd)"
      "\<forall>e' \<in> set evs'. ev_status e' = ACTIVE \<longrightarrow> slot e' \<noteq> (bar_market_id b, fam, sd)" for evs' e
    using that unfolding ledger_append_def contains_event_id_iff
    by (intro r_into_rtranclp ledger_step.create) auto
  show ?thesis
  proof (cases "ledger_active ?evs (bar_market_id b) fam sd")
    case None
    then have "\<forall>e' \<in> set ?evs. ev_status e' = ACTIVE \<longrightarrow> slot e' \<noteq> (bar_market_id b, fam, sd)"
      by (auto simp: ledger_active_None_set matches_active_def)
    then show ?thesis
      using assms(1) False None hit append [OF _ mk]
      by (auto simp: create_candidate_def Let_def res_simps split: if_splits)
  next
    case (Some i)
    then have i: "i < length ?evs" "slot (?evs ! i) = (bar_market_id b, fam, sd)" "ev_status (?evs ! i) = ACTIVE"
      by (auto simp: ledger_active_Some matches_active_def)
    let ?e = "(?evs ! i)\<lparr> ev_status := SUPERSEDED,
      ev_transition := ''SUPERSEDED_BY_NEW_INDEPENDENT_EVENT'', latest_bar := b \<rparr>"
    have run: "ledger_run ?evs (?evs[i := ?e])"
      using i by (intro ledger_run_evolve evolved_close)
    have "\<forall>e' \<in> set (?evs[i := ?e]). ev_status e' = ACTIVE \<longrightarrow> slot e' \<noteq> (bar_market_id b, fam, sd)"
      using supersede_frees_slot [OF assms(2) i(1,3), of ?e] i(2) by auto
    from append [OF _ mk this]
    have "es_ledger s' = ?evs \<or> es_ledger s' = ?evs[i := ?e] \<or>
        ledger_run (?evs[i := ?e]) (es_ledger s')"
      using assms(1) False Some hit
      by (auto simp: create_candidate_def Let_def res_simps dest!: supersede_spec split: if_splits)
    then show ?thesis using run by (auto intro: rtranclp_trans)
  qed
qed (use assms(1) in \<open>auto simp: create_candidate_def\<close>)

lemma create_sweep_run:
  "create_sweep H inp b ctx a5 m20 spec s = Inr s' \<Longrightarrow> single_active (es_ledger s) \<Longrightarrow>
    ledger_run (es_ledger s) (es_ledger s')"
  by (auto simp: create_sweep_def split_beta split: option.splits if_splits elim!: create_candidate_run)

lemma create_breakout_run:
  "create_breakout H inp b ctx a5 m20 zs spec s = Inr s' \<Longrightarrow> single_active (es_ledger s) \<Longrightarrow>
    ledger_run (es_ledger s) (es_ledger s')"
  by (auto simp: create_breakout_def split_beta split: option.splits if_splits elim!: create_candidate_run)

lemma append_terminal_run:
  "\<not> contains_event_id evs (market_event_id e) (ev_setup_family e) \<Longrightarrow> ev_status e \<noteq> ACTIVE \<Longrightarrow>
    ledger_run evs (ledger_append evs e)"
  unfolding ledger_append_def contains_event_id_iff
  by (intro r_into_rtranclp ledger_step.create) auto

lemma create_range_run:
  "create_range H inp b pc ctx a5 m20 spec s = Inr s' \<Longrightarrow> ledger_run (es_ledger s) (es_ledger s')"
  by (auto simp: create_range_def split_beta Let_def rbind_Inr split: option.splits if_splits
      intro!: append_terminal_run)

lemma rfold_run:
  assumes "rfold f xs s = Inr s'" and "single_active (es_ledger s)"
    and "\<And>x s s'. f x s = Inr s' \<Longrightarrow> single_active (es_ledger s) \<Longrightarrow> ledger_run (es_ledger s) (es_ledger s')"
  shows "ledger_run (es_ledger s) (es_ledger s')"
  using assms(1,2)
proof (induction xs arbitrary: s)
  case (Cons x xs)
  then obtain u where u: "f x s = Inr u" "rfold f xs u = Inr s'" by (auto simp: rbind_Inr)
  have r: "ledger_run (es_ledger s) (es_ledger u)" by (rule assms(3) [OF u(1) Cons.prems(2)])
  then have "single_active (es_ledger u)" using Cons.prems(2) by (rule ledger_run_inv(3))
  then have "ledger_run (es_ledger u) (es_ledger s')" by (rule Cons.IH [OF u(2)])
  with r show ?case by (rule rtranclp_trans)
qed simp

lemma create_all_run:
  assumes "create_all H inp b bars15 book ctx a5 m20 s = Inr s'" and "single_active (es_ledger s)"
  shows "ledger_run (es_ledger s) (es_ledger s')"
proof -
  obtain s1 s2 v where s1: "rfold (create_sweep H inp b ctx a5 m20)
       [(LONG, active_support book, ZLOW), (SHORT, active_resistance book, ZHIGH)] s = Inr s1"
    and s2: "rfold (create_breakout H inp b ctx a5 m20 (active_zones book))
       [(LONG, active_resistance book, ZHIGH), (SHORT, active_support book, ZLOW)] s1 = Inr s2"
    and s3: "s' = s2 \<or> rfold (create_range H inp b (bar_close (from_end 2 (in_bars_5m inp))) ctx a5 m20)
           [(LONG, active_support book, active_resistance book),
            (SHORT, active_resistance book, active_support book)] s2 = Inr s'"
    using assms(1) unfolding create_all_def rbind_Inr by (auto split: if_splits)
  have r1: "ledger_run (es_ledger s) (es_ledger s1)" by (rule rfold_run [OF s1 assms(2) create_sweep_run])
  have a1: "single_active (es_ledger s1)" using ledger_run_inv(3) [OF r1 assms(2)] .
  have r2: "ledger_run (es_ledger s1) (es_ledger s2)" by (rule rfold_run [OF s2 a1 create_breakout_run])
  have a2: "single_active (es_ledger s2)" using ledger_run_inv(3) [OF r2 a1] .
  have "ledger_run (es_ledger s2) (es_ledger s')"
    using s3
  proof
    assume r: "rfold (create_range H inp b (bar_close (from_end 2 (in_bars_5m inp))) ctx a5 m20)
           [(LONG, active_support book, active_resistance book),
            (SHORT, active_resistance book, active_support book)] s2 = Inr s'"
    show ?thesis by (rule rfold_run [OF r a2]) (rule create_range_run)
  qed simp
  with r1 r2 show ?thesis by (meson rtranclp_trans)
qed

lemma progress_all_run: "progress_all b s = Inr s' \<Longrightarrow> ledger_run (es_ledger s) (es_ledger s')"
  unfolding progress_all_def using progress.pass_pointwise pointwise_run by metis

lemma invalidate_opposite_run:
  assumes "invalidate_opposite_active evs formals = Inr (evs', ds)"
  shows "ledger_run evs evs'"
proof -
  have step: "ledger_run (fst u) (fst u')" if "invalidate_opposite_for formal u = Inr u'" for formal u u'
    using that opposite_pass.pass_pointwise pointwise_run closed_def unfolding invalidate_opposite_for_def by metis
  have "ledger_run evs (fst (evs', ds))"
    by (rule rfold_inv [OF assms [unfolded invalidate_opposite_active_def], where P = "\<lambda>t. ledger_run evs (fst t)"])
      (simp, rule rtranclp_trans, assumption, erule step)
  then show ?thesis by simp
qed

lemma data_invalid_run: "data_invalid_all b evs = Inr (evs', ds) \<Longrightarrow> ledger_run evs evs'"
  using data_invalid.pass_pointwise [of b "(evs, [])" "(evs', ds)"] pointwise_run [of evs' evs] closed_def
  unfolding data_invalid_all_def by auto

lemma evaluate_bar_run:
  assumes "evaluate_bar H inp b bars15 book ctx a5 m20 evs = Inr (evs', ds)" and "single_active evs"
  shows "ledger_run evs evs'"
proof -
  obtain s1 s2 ds' where s: "progress_all b (init_state evs) = Inr s1"
    "create_all H inp b bars15 book ctx a5 m20 s1 = Inr s2"
    "invalidate_opposite_active (es_ledger s2) (es_confirmed s2) = Inr (evs', ds')"
    using assms(1) by (auto simp: evaluate_bar_def res_simps)
  have r1: "ledger_run evs (es_ledger s1)" using progress_all_run [OF s(1)] by (simp add: init_state_def)
  moreover have "ledger_run (es_ledger s1) (es_ledger s2)"
    using create_all_run [OF s(2) ledger_run_inv(3) [OF r1 assms(2)]] .
  ultimately show ?thesis using invalidate_opposite_run [OF s(3)] by (meson rtranclp_trans)
qed

lemma evaluate_strategy_cases:
  assumes "evaluate_strategy H inp ledger = Inr r"
  obtains (invalid) ds where "data_invalid_all (last (in_bars_5m inp)) (case ledger of None \<Rightarrow> [] | Some l \<Rightarrow> l) =
      Inr (res_ledger r, ds)" and "\<not> mandatory_data_valid inp" and "res_decisions r = ds"
  | (valid) bars15 book ctx a5 m20 ds where
      "evaluate_bar H inp (last (in_bars_5m inp)) bars15 book ctx a5 m20 (case ledger of None \<Rightarrow> [] | Some l \<Rightarrow> l) =
        Inr (res_ledger r, ds)" and "mandatory_data_valid inp" and "res_decisions r = ds"
proof (cases "mandatory_data_valid inp")
  case True
  then show thesis using assms that(2) by (auto simp: evaluate_strategy_def Let_def rbind_Inr)
next
  case False
  then show thesis using assms that(1) by (auto simp: evaluate_strategy_def Let_def rbind_Inr)
qed

end
