(* ===== verification/Engine_Props.thy ===== *)
theory Engine_Props
  imports Engine_Ledger
begin

text \<open>
  Correctness of the strategy kernel: every ledger it can reach is well formed, history is
  immutable, no evaluation of a well-formed ledger raises, confirmations follow the rules of
  their setup, and the price terms of a confirmed setup are ordered.
\<close>

section \<open>Well-formed events\<close>

definition active_fields :: "market_event \<Rightarrow> bool" where
  "active_fields e \<longleftrightarrow>
     (case ev_setup_family e of
        SWEEP_RECLAIM \<Rightarrow>
          sweep_extreme e \<noteq> None \<and> reclaim_candle_high e \<noteq> None \<and> reclaim_candle_low e \<noteq> None
      | BREAKOUT_RETEST \<Rightarrow>
          initial_breakout_close e \<noteq> None \<and> initial_breakout_high e \<noteq> None \<and>
          initial_breakout_low e \<noteq> None \<and> previous_close e \<noteq> None \<and> previous_high e \<noteq> None \<and>
          previous_low e \<noteq> None \<and> impulse_extreme e \<noteq> None \<and>
          (pullback_started e \<longrightarrow> pullback_extreme e \<noteq> None)
      | RANGE_EDGE_REJECTION \<Rightarrow> False)"

definition wf_event :: "market_event \<Rightarrow> bool" where
  "wf_event e \<longleftrightarrow> (ev_status e = ACTIVE \<longrightarrow> formal_mode e = None \<and> active_fields e)"

definition wf_ledger :: "event_ledger \<Rightarrow> bool" where
  "wf_ledger evs \<longleftrightarrow> (\<forall>e \<in> set evs. wf_event e)"

lemma terminal_wf [simp]: "ev_status e \<noteq> ACTIVE \<Longrightarrow> wf_event e"
  by (simp add: wf_event_def)

lemma wf_ledger_update: "wf_ledger evs \<Longrightarrow> wf_event e \<Longrightarrow> wf_ledger (evs[i := e])"
  unfolding wf_ledger_def using set_update_subset_insert [of evs i e] by auto

lemma wf_ledger_append [simp]: "wf_ledger (ledger_append evs e) \<longleftrightarrow> wf_ledger evs \<and> wf_event e"
  by (auto simp: wf_ledger_def ledger_append_def)

lemma wf_ledger_nth: "wf_ledger evs \<Longrightarrow> i < length evs \<Longrightarrow> wf_event (evs ! i)"
  by (simp add: wf_ledger_def)

lemma plain_decision_returns:
  assumes "formal_mode e = None" and "k \<noteq> DK_FORMAL_SETUP_CONFIRMED \<or> ev_setup_family e \<noteq> BREAKOUT_RETEST"
  shows "\<exists>d. make_event_decision e k r t = Inr d"
  using assms by (auto simp: make_event_decision_def make_decision_def)

lemma mode_decision_returns:
  assumes "ev_setup_family e = BREAKOUT_RETEST"
    and "formal_mode e = Some MICRO_FAST \<or> formal_mode e = Some STANDARD \<and> ev_retest_type e \<noteq> None"
  shows "\<exists>d. make_event_decision e DK_FORMAL_SETUP_CONFIRMED r t = Inr d"
  using assms by (auto simp: make_event_decision_def make_decision_def)

lemma make_event_decision_fields:
  assumes "make_event_decision e k r t = Inr d"
  shows "decision d = k" "reason d = r" "dec_side d = ev_side e" "dec_market_id d = ev_market_id e"
    "dec_market_event_id d = market_event_id e" "dec_setup_family d = ev_setup_family e"
    "dec_setup_mode d = formal_mode e" "dec_structural_stop d = structural_stop e"
    "dec_ideal_entry_low d = ideal_entry_low e" "dec_ideal_entry_high d = ideal_entry_high e"
    "dec_chase_limit d = chase_limit e"
  using assms by (auto simp: make_event_decision_def make_decision_def split: if_splits)

section \<open>Progress of one event\<close>

definition progressed :: "market_event \<Rightarrow> bar \<Rightarrow> market_event \<Rightarrow> bool" where
  "progressed e b e' \<longleftrightarrow> wf_event e' \<and> latest_bar e' = b"

lemma finish_ok:
  assumes "formal_mode e = None" and "k \<noteq> DK_FORMAL_SETUP_CONFIRMED \<or> ev_setup_family e \<noteq> BREAKOUT_RETEST"
    and "st \<noteq> ACTIVE"
  shows "\<exists>e' d. finish e st t b k r = Inr (e', Some d) \<and> progressed e b e'"
proof -
  let ?u = "e\<lparr> ev_status := st, ev_transition := t, latest_bar := b \<rparr>"
  obtain d where "make_event_decision ?u k r t = Inr d"
    using plain_decision_returns [of ?u k r t] assms(1,2) by auto
  then show ?thesis using assms(3) by (simp add: finish_def progressed_def)
qed

lemma progress_sweep_ok:
  assumes "wf_event e" and "ev_status e = ACTIVE" and "ev_setup_family e = SWEEP_RECLAIM"
  shows "\<exists>e' d. progress_sweep e b = Inr (e', d) \<and> progressed e b e'"
proof -
  have m: "formal_mode e = None" using assms by (simp add: wf_event_def)
  obtain x h l where f: "sweep_extreme e = Some x" "reclaim_candle_high e = Some h" "reclaim_candle_low e = Some l"
    using assms by (auto simp: wf_event_def active_fields_def)
  have fin: "\<exists>e' d. finish e st t b k r = Inr (e', d) \<and> progressed e b e'" if "st \<noteq> ACTIVE" for st t k r
    using finish_ok [OF m, of k st t b r] that assms(3) by auto
  have "progressed e b (e\<lparr> latest_bar := b, ev_transition := ''SWEEP_WAIT_CONFIRMATION'' \<rparr>)"
    using assms m f by (simp add: progressed_def wf_event_def active_fields_def)
  then show ?thesis
    unfolding progress_sweep_def f prod.case option.case Let_def
    using fin by (auto split: if_splits)
qed

lemma qualify_returns: "impulse_extreme e \<noteq> None \<Longrightarrow> \<exists>q. qualify_retest e b p = Inr q"
  by (auto simp: qualify_retest_def Let_def)

lemma progress_impulse_ok:
  assumes "wf_event e" and "ev_status e = ACTIVE" and "ev_setup_family e = BREAKOUT_RETEST" and "\<not> pullback_started e"
  shows "\<exists>e' d. progress_breakout_impulse e b pc = Inr (e', d) \<and> progressed e b e'"
proof -
  have m: "formal_mode e = None" and f: "active_fields e" using assms by (simp_all add: wf_event_def)
  obtain c h l i where ib: "initial_breakout_close e = Some c" "initial_breakout_high e = Some h"
    "initial_breakout_low e = Some l" "impulse_extreme e = Some i"
    using f assms(3) by (auto simp: active_fields_def)
  obtain q where q: "qualify_retest e b (if ev_side e = LONG then bar_low b else bar_high b) = Inr q"
    using qualify_returns [of e] ib(4) by auto
  obtain mc where mc: "micro_confirmation e b = Inr mc" using ib by (simp add: micro_confirmation_def Let_def)
  obtain t1 t2 t3 t4 where mt: "micro_terms e = Inr (t1, t2, t3, t4)"
    using ib by (cases "ev_side e = LONG") (auto simp: micro_terms_def Let_def)
  let ?u = "e\<lparr> ev_status := CONFIRMED, ev_transition := ''FORMAL_SETUP_CONFIRMED'',
      latest_bar := b, formal_mode := Some MICRO_FAST, ideal_entry_low := Some t1,
      ideal_entry_high := Some t2, chase_limit := Some t3, structural_stop := Some t4 \<rparr>"
  obtain d where d: "make_event_decision ?u DK_FORMAL_SETUP_CONFIRMED
      ''BREAKOUT_MICRO_FAST_CONFIRMED'' ''FORMAL_SETUP_CONFIRMED'' = Inr d"
    using mode_decision_returns [of ?u] assms(3) by auto
  show ?thesis
    using q mc mt d ib f m assms(2-4)
    by (auto simp: progress_breakout_impulse_def Let_def progressed_def wf_event_def active_fields_def)
qed

lemma progress_standard_ok:
  assumes "wf_event e" and "ev_status e = ACTIVE" and "ev_setup_family e = BREAKOUT_RETEST" and "pullback_started e"
  shows "\<exists>e' d. progress_breakout_standard e b ph pl = Inr (e', d) \<and> progressed e b e'"
proof -
  have m: "formal_mode e = None" and f: "active_fields e" using assms by (simp_all add: wf_event_def)
  obtain p where p: "pullback_extreme e = Some p" using f assms(3,4) by (auto simp: active_fields_def)
  have imp: "impulse_extreme e \<noteq> None" using f assms(3) by (simp add: active_fields_def)
  define pb where "pb = (if ev_side e = LONG then min p (bar_low b) else max p (bar_high b))"
  obtain q where q: "qualify_retest e b pb = Inr q" using qualify_returns [OF imp] by blast
  obtain rt seen where mr: "merge_retest e b q = (rt, seen)" by (cases "merge_retest e b q")
  obtain t1 t2 t3 t4 where st: "standard_terms e pb = (t1, t2, t3, t4)" by (cases "standard_terms e pb")
  let ?u = "e\<lparr> ev_status := CONFIRMED, ev_transition := ''FORMAL_SETUP_CONFIRMED'', latest_bar := b,
     formal_mode := Some STANDARD, pullback_extreme := Some pb, ev_retest_type := rt,
     retest_seen_bar_time_ms := seen, ideal_entry_low := Some t1, ideal_entry_high := Some t2,
     chase_limit := Some t3, structural_stop := Some t4 \<rparr>"
  have d: "\<exists>d. make_event_decision ?u DK_FORMAL_SETUP_CONFIRMED r ''FORMAL_SETUP_CONFIRMED'' = Inr d"
    if "rt \<noteq> None" for r
    using mode_decision_returns [of ?u] that assms(3) by auto
  have wait: "progressed e b (e\<lparr> latest_bar := b, ev_transition := ''STANDARD_WAIT_NO_ECONOMIC_TIMEOUT'',
      previous_close := Some (bar_close b), previous_high := Some (bar_high b),
      previous_low := Some (bar_low b), pullback_extreme := Some pb,
      ev_retest_type := rt, retest_seen_bar_time_ms := seen \<rparr>)"
    using f m assms(2-4) by (simp add: progressed_def wf_event_def active_fields_def)
  show ?thesis
  proof (cases "rt \<noteq> None \<and> (case seen of None \<Rightarrow> False | Some t \<Rightarrow> t < bar_open_time_ms b) \<and>
      (if ev_side e = LONG then ph < bar_close b else bar_close b < pl)")
    case True
    obtain d' where d': "make_event_decision ?u DK_FORMAL_SETUP_CONFIRMED
        (if rt = Some DEEP then ''BREAKOUT_STANDARD_CONFIRMED_DEEP_RETEST''
         else ''BREAKOUT_STANDARD_CONFIRMED_SHALLOW_RETEST'') ''FORMAL_SETUP_CONFIRMED'' = Inr d'"
      using d True by blast
    have "progress_breakout_standard e b ph pl = Inr (?u, Some d')"
      unfolding progress_breakout_standard_def p option.case Let_def pb_def [symmetric] q rbind_simps mr prod.case
      using True d' by (simp add: st)
    then show ?thesis by (auto simp: progressed_def)
  next
    case False
    have "progress_breakout_standard e b ph pl = Inr (e\<lparr> latest_bar := b,
      ev_transition := ''STANDARD_WAIT_NO_ECONOMIC_TIMEOUT'', previous_close := Some (bar_close b),
      previous_high := Some (bar_high b), previous_low := Some (bar_low b), pullback_extreme := Some pb,
      ev_retest_type := rt, retest_seen_bar_time_ms := seen \<rparr>, None)"
      unfolding progress_breakout_standard_def p option.case Let_def pb_def [symmetric] q rbind_simps mr prod.case
        if_not_P [OF False] ..
    then show ?thesis using wait by blast
  qed
qed

lemma progress_event_ok:
  assumes "wf_event e" and "ev_status e = ACTIVE"
  shows "\<exists>e' d. progress_event e b = Some (Inr (e', d)) \<and> progressed e b e'"
proof (cases "ev_setup_family e")
  case SWEEP_RECLAIM
  then show ?thesis using progress_sweep_ok [OF assms] by (auto simp: progress_event_def)
next
  case BREAKOUT_RETEST
  have m: "formal_mode e = None" using assms by (simp add: wf_event_def)
  obtain c h l where f: "previous_close e = Some c" "previous_high e = Some h" "previous_low e = Some l"
    using assms BREAKOUT_RETEST by (auto simp: wf_event_def active_fields_def)
  have fin: "\<exists>e' d. finish e INVALIDATED t b DK_INVALIDATED r = Inr (e', d) \<and> progressed e b e'" for t r
    using finish_ok [OF m, of DK_INVALIDATED INVALIDATED t b r] by auto
  show ?thesis
    using fin progress_impulse_ok [OF assms BREAKOUT_RETEST] progress_standard_ok [OF assms BREAKOUT_RETEST] f
    by (auto simp: progress_event_def BREAKOUT_RETEST progress_breakout_def)
next
  case RANGE_EDGE_REJECTION
  then show ?thesis using assms by (simp add: wf_event_def active_fields_def)
qed

section \<open>No evaluation of a well-formed ledger raises\<close>

lemma replace_at_returns: "i < length evs \<Longrightarrow> evs ! i \<noteq> e \<Longrightarrow> replace_at evs i e = Inr (evs[i := e])"
  by (auto simp: replace_at_def) (metis nth_list_update_eq)

definition keeps_wf :: "market_event \<Rightarrow> market_event \<Rightarrow> bool" where
  "keeps_wf e e' \<longleftrightarrow> (wf_event e \<longrightarrow> wf_event e')"

lemma pointwise_wf:
  assumes "length evs' = length evs" and "\<forall>i < length evs. evs' ! i = evs ! i \<or> keeps_wf (evs ! i) (evs' ! i)"
    and "wf_ledger evs"
  shows "wf_ledger evs'"
  using assms unfolding wf_ledger_def all_set_conv_all_nth keeps_wf_def by metis

interpretation progress_wf: ledger_pass "progress_step b" es_ledger keeps_wf for b
proof
  fix snap i s s'
  assume st: "progress_step b snap i s = Inr s'"
  show "es_ledger s' = es_ledger s \<or> (\<exists>e. keeps_wf (snap ! i) e \<and> es_ledger s' = (es_ledger s)[i := e])"
  proof (cases "es_ledger s' = es_ledger s")
    case False
    then obtain u d where u: "progress_event (snap ! i) b = Some (Inr (u, d))" "ev_status (snap ! i) = ACTIVE"
      "es_ledger s' = (es_ledger s)[i := u]"
      using st by (auto simp: progress_step_def Let_def rbind_Inr replace_at_Inr split: if_splits option.splits)
    then have "keeps_wf (snap ! i) u"
      using progress_event_ok [of "snap ! i" b] by (auto simp: keeps_wf_def progressed_def)
    with u(3) show ?thesis by blast
  qed simp
qed

lemma progress_all_ok:
  assumes "wf_ledger (es_ledger s)"
  shows "\<exists>s'. progress_all b s = Inr s' \<and> wf_ledger (es_ledger s')"
proof -
  have step: "\<exists>u'. progress_step b (es_ledger s) i u = Inr u'"
    if i: "i < length (es_ledger s)" "length (es_ledger u) = length (es_ledger s)" "es_ledger u ! i = es_ledger s ! i" for i u
  proof (cases "ev_status (es_ledger s ! i) \<noteq> ACTIVE \<or> ev_market_id (es_ledger s ! i) \<noteq> bar_market_id b \<or>
      bar_open_time_ms b \<le> bar_open_time_ms (latest_bar (es_ledger s ! i))")
    case False
    obtain e' d where e': "progress_event (es_ledger s ! i) b = Some (Inr (e', d))" "latest_bar e' = b"
      using progress_event_ok [OF wf_ledger_nth [OF assms i(1)], of b] False by (auto simp: progressed_def)
    then have "es_ledger s ! i \<noteq> e'" using False by auto
    then have "replace_at (es_ledger u) i e' = Inr ((es_ledger u)[i := e'])"
      using i by (intro replace_at_returns) simp_all
    then show ?thesis using False e'(1) by (auto simp: progress_step_def Let_def)
  qed (auto simp: progress_step_def Let_def)
  obtain s' where s': "rfold (progress_step b (es_ledger s)) [0..<length (es_ledger s)] s = Inr s'"
    using progress.pass_returns [of s b, OF step] by blast
  moreover note pw = progress_wf.pass_pointwise [OF s']
  have "wf_ledger (es_ledger s')" by (rule pointwise_wf [OF conjunct1 [OF pw] conjunct2 [OF pw] assms])
  ultimately show ?thesis by (auto simp: progress_all_def)
qed

lemma status_neq:
  assumes "ev_status e = ACTIVE" and "st \<noteq> ACTIVE"
  shows "e \<noteq> e\<lparr> ev_status := st, ev_transition := t, latest_bar := b \<rparr>"
proof
  assume "e = e\<lparr> ev_status := st, ev_transition := t, latest_bar := b \<rparr>"
  then have "ev_status e = ev_status (e\<lparr> ev_status := st, ev_transition := t, latest_bar := b \<rparr>)"
    by (rule arg_cong)
  with assms show False by simp
qed

lemma supersede_ok:
  assumes "wf_ledger evs" and "i < length evs" and "ev_status (evs ! i) = ACTIVE"
  shows "\<exists>evs' d. supersede_for_new_zone evs i b = Inr (evs', d) \<and> wf_ledger evs'"
proof -
  let ?u = "(evs ! i)\<lparr> ev_status := SUPERSEDED,
      ev_transition := ''SUPERSEDED_BY_NEW_INDEPENDENT_EVENT'', latest_bar := b \<rparr>"
  have "formal_mode ?u = None" using wf_ledger_nth [OF assms(1,2)] assms(3) by (simp add: wf_event_def)
  then obtain d where "make_event_decision ?u DK_SUPERSEDED ''SUPERSEDED_BY_NEW_INDEPENDENT_EVENT''
      ''SUPERSEDED_BY_NEW_INDEPENDENT_EVENT'' = Inr d" using plain_decision_returns by blast
  moreover have "evs ! i \<noteq> ?u" using assms(3) by (rule status_neq) simp
  ultimately show ?thesis
    using assms wf_ledger_update [OF assms(1), of ?u i] by (simp add: supersede_for_new_zone_def replace_at_returns)
qed

lemma new_event_wf [simp]:
  "wf_event (new_sweep H b z sd a5 m20 r l bl)" "wf_event (new_breakout H b z sd a5 m20 r l zs)"
  "wf_event (new_range H b z y sd a5 m20 r l)"
  by (simp_all add: wf_event_def active_fields_def new_sweep_def new_breakout_def split_beta Let_def)

lemma create_candidate_ok:
  assumes "wf_ledger (es_ledger s)" and "m = Inr hit" and mk: "\<And>r. wf_event (mk r) \<and> formal_mode (mk r) = None"
  shows "\<exists>s'. create_candidate b fam sd z m mk rsn s = Inr s' \<and> wf_ledger (es_ledger s')"
proof -
  have add: "\<exists>d. make_event_decision (mk r) DK_WAIT rsn t = Inr d" for r t
    using plain_decision_returns mk by blast
  show ?thesis
  proof (cases "ledger_active (es_ledger s) (bar_market_id b) fam sd")
    case None
    then show ?thesis
      using assms(1,2) mk add [of "es_reentries s" "ev_transition (mk (es_reentries s))"]
      by (auto simp: create_candidate_def Let_def)
  next
    case (Some i)
    then have i: "i < length (es_ledger s)" "ev_status (es_ledger s ! i) = ACTIVE"
      by (auto simp: ledger_active_Some matches_active_def)
    obtain evs' d where "supersede_for_new_zone (es_ledger s) i b = Inr (evs', d)" "wf_ledger evs'"
      using supersede_ok [OF assms(1) i] by blast
    then show ?thesis
      using assms(1,2) Some mk add [of "es_reentries s" "ev_transition (mk (es_reentries s))"]
      by (auto simp: create_candidate_def Let_def)
  qed
qed

lemma dsub_self [simp]: "dsub a a = 0"
  by simp

lemma initial_breakout_returns:
  assumes "wf_bar b" and "0 < a5"
  shows "\<exists>v. initial_breakout b z sd a5 m20 = Inr v"
proof (cases "dmul 0.50 a5 \<le> dabs (dsub (bar_close b) (bar_open b))")
  case True
  then have "bar_close b \<noteq> bar_open b" using dmul_pos [of "0.50" a5] assms(2) by auto
  then have "bar_low b < bar_high b" using assms(1) by (auto simp: wf_bar_def)
  then show ?thesis using clv_unit [OF assms(1)] by (auto simp: initial_breakout_def Let_def rand_def)
next
  case False
  then show ?thesis by (auto simp: initial_breakout_def Let_def rand_def)
qed

lemma range_candidate_returns:
  assumes "wf_bar b"
  shows "\<exists>v. range_candidate b pc z sd a5 m20 = Inr v"
proof (cases "bar_high b = bar_low b")
  case False
  then have "bar_low b < bar_high b" using wf_bar_range [OF assms] by simp
  then show ?thesis using clv_unit [OF assms] by (auto simp: range_candidate_def Let_def rand_def)
qed (auto simp: range_candidate_def)

lemma create_sweep_ok:
  assumes "wf_ledger (es_ledger s)"
  shows "\<exists>s'. create_sweep H inp b ctx a5 m20 spec s = Inr s' \<and> wf_ledger (es_ledger s')"
  using assms create_candidate_ok [OF assms refl]
  by (auto simp: create_sweep_def split_beta split: option.splits)

lemma create_breakout_ok:
  assumes "wf_ledger (es_ledger s)" and "wf_bar b" and "0 < a5"
  shows "\<exists>s'. create_breakout H inp b ctx a5 m20 zs spec s = Inr s' \<and> wf_ledger (es_ledger s')"
proof -
  have "\<exists>s'. create_candidate b fam sd z (initial_breakout b z sd a5 m20)
      (\<lambda>_. new_breakout H b z sd a5 m20 r l zs) rsn s = Inr s' \<and> wf_ledger (es_ledger s')" for fam sd z r l rsn
    using create_candidate_ok [OF assms(1)] initial_breakout_returns [OF assms(2,3), of z sd m20] by fastforce
  then show ?thesis using assms(1) by (auto simp: create_breakout_def split_beta split: option.splits)
qed

lemma create_range_ok:
  assumes "wf_ledger (es_ledger s)" and "wf_bar b"
  shows "\<exists>s'. create_range H inp b pc ctx a5 m20 spec s = Inr s' \<and> wf_ledger (es_ledger s')"
proof -
  have d: "\<exists>d. make_event_decision (new_range H b z y sd a5 m20 r l) DK_FORMAL_SETUP_CONFIRMED rsn t = Inr d"
    for z y sd r l rsn t
    by (rule plain_decision_returns) simp_all
  show ?thesis
  proof (cases "fst (snd spec)"; cases "snd (snd spec)")
    fix z y assume zy: "fst (snd spec) = Some z" "snd (snd spec) = Some y"
    obtain v where "range_candidate b pc z (fst spec) a5 m20 = Inr v"
      using range_candidate_returns [OF assms(2)] by blast
    then show ?thesis using zy assms(1)
      using d [of z y "fst spec" "htf_relation_of ctx (fst spec)" "in_scanner_linkage inp"
          "if fst spec = LONG then ''RANGE_LONG_CONFIRMED'' else ''RANGE_SHORT_CONFIRMED''"
          "ev_transition (new_range H b z y (fst spec) a5 m20 (htf_relation_of ctx (fst spec)) (in_scanner_linkage inp))"]
      by (auto simp: create_range_def split_beta Let_def)
  qed (use assms(1) in \<open>auto simp: create_range_def split_beta\<close>)
qed

lemma closed_pass_wf:
  assumes "length evs' = length evs \<and> (\<forall>i < length evs. evs' ! i = evs ! i \<or> closed (evs ! i) (evs' ! i))"
    and "wf_ledger evs"
  shows "wf_ledger evs'"
  using assms unfolding wf_ledger_def all_set_conv_all_nth closed_def by (metis terminal_wf)

lemma opposite_for_ok:
  assumes "wf_ledger (fst st)"
  shows "\<exists>st'. invalidate_opposite_for formal st = Inr st' \<and> wf_ledger (fst st')"
proof -
  have step: "\<exists>u'. invalidate_opposite_step formal (fst st) i u = Inr u'"
    if i: "i < length (fst st)" "length (fst u) = length (fst st)" "fst u ! i = fst st ! i" for i u
  proof (cases "opposite_hit formal (fst st ! i)")
    case True
    let ?u = "(fst st ! i)\<lparr> ev_status := INVALIDATED,
      ev_transition := ''INVALIDATED_BY_OPPOSITE_FORMAL_EVENT'', latest_bar := latest_bar formal \<rparr>"
    have act: "ev_status (fst st ! i) = ACTIVE" using True by (simp add: opposite_hit_def)
    have "formal_mode ?u = None" using wf_ledger_nth [OF assms i(1)] act by (simp add: wf_event_def)
    then obtain d where "make_event_decision ?u DK_INVALIDATED ''OPPOSITE_FORMAL_EVENT''
        ''INVALIDATED_BY_OPPOSITE_FORMAL_EVENT'' = Inr d" using plain_decision_returns by blast
    moreover have "fst st ! i \<noteq> ?u" using act by (rule status_neq) simp
    ultimately show ?thesis using True i by (simp add: invalidate_opposite_step_def split_beta Let_def replace_at_returns)
  qed (simp add: invalidate_opposite_step_def split_beta Let_def)
  obtain st' where st': "rfold (invalidate_opposite_step formal (fst st)) [0..<length (fst st)] st = Inr st'"
    using opposite_pass.pass_returns [of st formal, OF step] by blast
  moreover have "wf_ledger (fst st')" by (rule closed_pass_wf [OF opposite_pass.pass_pointwise [OF st'] assms])
  ultimately show ?thesis by (simp add: invalidate_opposite_for_def)
qed

lemma create_all_ok:
  assumes "wf_ledger (es_ledger s)" and "wf_bar b" and "0 < a5"
    and "range_valid (active_support book) (active_resistance book) bars15 (a15_override inp) = Inr v"
  shows "\<exists>s'. create_all H inp b bars15 book ctx a5 m20 s = Inr s' \<and> wf_ledger (es_ledger s')"
proof -
  let ?P = "\<lambda>s. wf_ledger (es_ledger s)"
  obtain s1 where s1: "rfold (create_sweep H inp b ctx a5 m20)
       [(LONG, active_support book, ZLOW), (SHORT, active_resistance book, ZHIGH)] s = Inr s1" "?P s1"
    using rfold_returns [of ?P s _ "create_sweep H inp b ctx a5 m20", OF assms(1) create_sweep_ok] by blast
  obtain s2 where s2: "rfold (create_breakout H inp b ctx a5 m20 (active_zones book))
       [(LONG, active_resistance book, ZHIGH), (SHORT, active_support book, ZLOW)] s1 = Inr s2" "?P s2"
    using rfold_returns [of ?P s1 _ "create_breakout H inp b ctx a5 m20 (active_zones book)",
        OF s1(2) create_breakout_ok [OF _ assms(2,3)]] by blast
  obtain s3 where s3: "rfold (create_range H inp b (bar_close (from_end 2 (in_bars_5m inp))) ctx a5 m20)
           [(LONG, active_support book, active_resistance book),
            (SHORT, active_resistance book, active_support book)] s2 = Inr s3" "?P s3"
    using rfold_returns [of ?P s2 _ "create_range H inp b (bar_close (from_end 2 (in_bars_5m inp))) ctx a5 m20",
        OF s2(2) create_range_ok [OF _ assms(2)]] by blast
  show ?thesis
    unfolding create_all_def s1(1) s2(1) s3(1) assms(4) rbind_simps using s2(2) s3(2) by auto
qed

lemma evaluate_bar_ok:
  assumes "wf_ledger evs" and "wf_bar b" and "0 < a5"
    and "range_valid (active_support book) (active_resistance book) bars15 (a15_override inp) = Inr v"
  shows "\<exists>evs' ds. evaluate_bar H inp b bars15 book ctx a5 m20 evs = Inr (evs', ds) \<and> wf_ledger evs'"
proof -
  obtain s1 where s1: "progress_all b (init_state evs) = Inr s1" "wf_ledger (es_ledger s1)"
    using progress_all_ok [of "init_state evs" b] assms(1) by (auto simp: init_state_def)
  obtain s2 where s2: "create_all H inp b bars15 book ctx a5 m20 s1 = Inr s2" "wf_ledger (es_ledger s2)"
    using create_all_ok [OF s1(2) assms(2-4)] by blast
  obtain st where "invalidate_opposite_active (es_ledger s2) (es_confirmed s2) = Inr st" "wf_ledger (fst st)"
    using rfold_returns [of "\<lambda>st. wf_ledger (fst st)" "(es_ledger s2, [])" "es_confirmed s2" invalidate_opposite_for]
      s2(2) opposite_for_ok by (auto simp: invalidate_opposite_active_def)
  then show ?thesis using s1(1) s2(1) by (cases st) (simp add: evaluate_bar_def)
qed

lemma range_valid_returns:
  assumes "series_of ''15m'' bars15" and "a15 \<noteq> None \<or> (\<exists>a. wilder_atr14 bars15 = Inr a)"
  shows "\<exists>v. range_valid szone rzone bars15 a15 = Inr v"
proof -
  obtain a where a: "(case a15 of None \<Rightarrow> wilder_atr14 bars15 | Some a \<Rightarrow> Inr a) = Inr a"
    using assms(2) by (cases a15) auto
  have e: "\<exists>e. directional_efficiency_8 bars15 = Inr e" if "\<not> length bars15 < 15"
    using that by (simp add: directional_efficiency_8_def series_of_None [OF assms(1)])
  have "returns (range_valid szone rzone bars15 a15)"
    unfolding range_valid_def a rbind_simps Let_def using e by (auto split: option.splits)
  then show ?thesis by (simp add: returns_iff)
qed

section \<open>Confirmed setups clear the opposite side\<close>

definition logged :: "bar \<Rightarrow> eval_state \<Rightarrow> bool" where
  "logged b s \<longleftrightarrow> (\<forall>d \<in> set (es_decisions s). decision d = DK_FORMAL_SETUP_CONFIRMED \<longrightarrow>
     (\<exists>f \<in> set (es_confirmed s). ev_market_id f = dec_market_id d \<and> ev_side f = dec_side d \<and> latest_bar f = b))"

definition reports :: "bar \<Rightarrow> market_event \<Rightarrow> strategy_decision option \<Rightarrow> bool" where
  "reports b u d \<longleftrightarrow> latest_bar u = b \<and>
     (\<forall>x. d = Some x \<longrightarrow> dec_market_id x = ev_market_id u \<and> dec_side x = ev_side u)"

lemma finish_reports: "finish e st t b k r = Inr (u, d) \<Longrightarrow> reports b u d"
  by (auto simp: finish_def rbind_Inr reports_def Let_def dest: make_event_decision_fields)

lemma progress_event_reports: "progress_event e b = Some (Inr (u, d)) \<Longrightarrow> reports b u d"
proof -
  assume p: "progress_event e b = Some (Inr (u, d))"
  show ?thesis
  proof (cases "ev_setup_family e")
    case SWEEP_RECLAIM
    then show ?thesis using p
      by (auto simp: progress_event_def progress_sweep_def Let_def dest: finish_reports
          split: option.splits if_splits) (auto simp: reports_def)
  next
    case BREAKOUT_RETEST
    have i: "progress_breakout_impulse e b c = Inr (u, d) \<Longrightarrow> reports b u d" for c
      by (auto simp: progress_breakout_impulse_def Let_def split_beta rbind_Inr reports_def
          dest: make_event_decision_fields split: option.splits if_splits)
    have s: "progress_breakout_standard e b h l = Inr (u, d) \<Longrightarrow> reports b u d" for h l
      by (auto simp: progress_breakout_standard_def Let_def split_beta rbind_Inr reports_def
          dest: make_event_decision_fields split: option.splits if_splits)
    show ?thesis using p BREAKOUT_RETEST i s
      by (auto simp: progress_event_def progress_breakout_def dest: finish_reports split: option.splits if_splits)
  next
    case RANGE_EDGE_REJECTION
    then show ?thesis using p by (simp add: progress_event_def)
  qed
qed

lemma progress_step_cases:
  assumes "progress_step b snap i s = Inr s'"
  obtains "s' = s"
  | u d evs B where "ev_status (snap ! i) = ACTIVE" and "ev_market_id (snap ! i) = bar_market_id b"
      and "bar_open_time_ms (latest_bar (snap ! i)) < bar_open_time_ms b"
      and "progress_event (snap ! i) b = Some (Inr (u, d))" and "replace_at (es_ledger s) i u = Inr evs"
      and "s' = note_decision u d (s\<lparr> es_ledger := evs, es_blocked := B \<rparr>)"
proof (cases "s' = s")
  case False
  let ?e = "snap ! i"
  have c: "ev_status ?e = ACTIVE" "ev_market_id ?e = bar_market_id b"
    "bar_open_time_ms (latest_bar ?e) < bar_open_time_ms b"
    using assms False by (auto simp: progress_step_def Let_def split: if_splits)
  then obtain u d evs where u: "progress_event ?e b = Some (Inr (u, d))" "replace_at (es_ledger s) i u = Inr evs"
    "s' = note_decision u d (s\<lparr> es_ledger := evs,
       es_blocked := (if terminal (ev_status u) \<and> ev_status u \<noteq> SUPERSEDED
         then insert (ev_setup_family ?e, ev_side ?e) (es_blocked s) else es_blocked s) \<rparr>)"
    using assms False unfolding progress_step_def Let_def
    by (cases "progress_event ?e b") (auto simp: rbind_Inr)
  show thesis by (rule that(2) [OF c u])
qed (use that in blast)

lemma progress_step_logged: "progress_step b snap i s = Inr s' \<Longrightarrow> logged b s \<Longrightarrow> logged b s'"
proof (elim progress_step_cases)
  fix u d evs B
  assume "progress_event (snap ! i) b = Some (Inr (u, d))" and lg: "logged b s"
    and s': "s' = note_decision u d (s\<lparr> es_ledger := evs, es_blocked := B \<rparr>)"
  from progress_event_reports [OF this(1)] lg show "logged b s'"
    unfolding s' by (cases d) (auto simp: note_decision_def logged_def reports_def)
qed simp

lemma decision_of: "make_event_decision e k r t = Inr d \<Longrightarrow>
    decision d = k \<and> dec_market_id d = ev_market_id e \<and> dec_side d = ev_side e"
  by (simp add: make_event_decision_fields)

lemma supersede_decision:
  "supersede_for_new_zone evs i b = Inr (evs', d) \<Longrightarrow> decision d = DK_SUPERSEDED"
  by (auto simp: supersede_for_new_zone_def Let_def rbind_Inr dest!: decision_of)

lemma create_candidate_logged:
  assumes "create_candidate b fam sd z m mk rsn s = Inr s'" and "logged b s"
  shows "logged b s'"
proof (cases "(fam, sd) \<in> es_blocked s")
  case False
  obtain hit where m: "m = Inr hit" using assms(1) False by (auto simp: create_candidate_def Let_def rbind_Inr)
  show ?thesis
  proof (cases "ledger_active (es_ledger s) (bar_market_id b) fam sd")
    case None
    then show ?thesis using assms False m
      by (auto simp: create_candidate_def Let_def rbind_Inr logged_def dest!: decision_of split: if_splits)
  next
    case (Some i)
    then show ?thesis using assms False m
      by (auto simp: create_candidate_def Let_def rbind_Inr logged_def
          dest!: decision_of supersede_decision split: if_splits)
  qed
qed (use assms in \<open>simp add: create_candidate_def\<close>)

lemma create_range_logged: "create_range H inp b pc ctx a5 m20 spec s = Inr s' \<Longrightarrow> logged b s \<Longrightarrow> logged b s'"
  by (auto simp: create_range_def split_beta Let_def rbind_Inr logged_def
      dest!: decision_of split: if_splits option.splits)

lemma create_all_logged:
  assumes "create_all H inp b bars15 book ctx a5 m20 s = Inr s'" and "logged b s"
  shows "logged b s'"
proof -
  have 1: "create_sweep H inp b ctx a5 m20 x t = Inr t' \<Longrightarrow> logged b t \<Longrightarrow> logged b t'" for x t t'
    by (auto simp: create_sweep_def split_beta split: option.splits if_splits intro: create_candidate_logged)
  have 2: "create_breakout H inp b ctx a5 m20 zs x t = Inr t' \<Longrightarrow> logged b t \<Longrightarrow> logged b t'" for zs x t t'
    by (auto simp: create_breakout_def split_beta split: option.splits if_splits intro: create_candidate_logged)
  obtain s1 s2 v where "rfold (create_sweep H inp b ctx a5 m20)
       [(LONG, active_support book, ZLOW), (SHORT, active_resistance book, ZHIGH)] s = Inr s1"
    "rfold (create_breakout H inp b ctx a5 m20 (active_zones book))
       [(LONG, active_resistance book, ZHIGH), (SHORT, active_support book, ZLOW)] s1 = Inr s2"
    "s' = s2 \<or> rfold (create_range H inp b (bar_close (from_end 2 (in_bars_5m inp))) ctx a5 m20)
           [(LONG, active_support book, active_resistance book),
            (SHORT, active_resistance book, active_support book)] s2 = Inr s'"
    using assms(1) unfolding create_all_def rbind_Inr by (auto split: if_splits)
  then show ?thesis
    using rfold_inv [of _ _ _ _ "logged b"] 1 2 create_range_logged assms(2) by metis
qed

lemma opposite_for_decisions:
  assumes "invalidate_opposite_for formal st = Inr st'" and "\<forall>d \<in> set (snd st). decision d = DK_INVALIDATED"
  shows "\<forall>d \<in> set (snd st'). decision d = DK_INVALIDATED"
proof (rule rfold_inv [OF assms(1) [unfolded invalidate_opposite_for_def], where P = "\<lambda>t. \<forall>d \<in> set (snd t). decision d = DK_INVALIDATED"])
  show "\<forall>d \<in> set (snd t'). decision d = DK_INVALIDATED"
    if "invalidate_opposite_step formal (fst st) i t = Inr t'" "\<forall>d \<in> set (snd t). decision d = DK_INVALIDATED" for i t t'
    using that by (auto simp: invalidate_opposite_step_def split_beta Let_def rbind_Inr dest!: decision_of split: if_splits)
qed (use assms(2) in simp)

lemma opposite_hit_closed: "closed e e' \<Longrightarrow> \<not> opposite_hit f e'"
  by (simp add: closed_def opposite_hit_def)

lemma opposite_active_clears:
  assumes "invalidate_opposite_active evs fs = Inr (evs', ds)"
  shows "(\<forall>f \<in> set fs. \<forall>e \<in> set evs'. \<not> opposite_hit f e) \<and> (\<forall>d \<in> set ds. decision d = DK_INVALIDATED)"
proof -
  have "(\<forall>f \<in> F \<union> set fs. \<forall>e \<in> set (fst st'). \<not> opposite_hit f e) \<and> (\<forall>d \<in> set (snd st'). decision d = DK_INVALIDATED)"
    if "rfold invalidate_opposite_for fs st = Inr st'" "\<forall>f \<in> F. \<forall>e \<in> set (fst st). \<not> opposite_hit f e"
      "\<forall>d \<in> set (snd st). decision d = DK_INVALIDATED" for F st st'
    using that
  proof (induction fs arbitrary: st F)
    case (Cons g fs)
    then obtain u where u: "invalidate_opposite_for g st = Inr u" "rfold invalidate_opposite_for fs u = Inr st'"
      by (auto simp: rbind_Inr)
    note pass = u(1) [unfolded invalidate_opposite_for_def]
    have "\<not> opposite_hit f e" if fe: "f \<in> insert g F" "e \<in> set (fst u)" for f e
    proof (cases "f = g")
      case True
      then show ?thesis using opposite_pass.pass_clears [OF pass fe(2)] by simp
    next
      case False
      obtain i where i: "i < length (fst u)" "e = fst u ! i" using fe(2) by (auto simp: in_set_conv_nth)
      then show ?thesis
        using opposite_pass.pass_pointwise [OF pass] opposite_hit_closed Cons.prems(2) False fe(1) by (metis insertE nth_mem)
    qed
    from Cons.IH [OF u(2), of "insert g F"] this opposite_for_decisions [OF u(1) Cons.prems(3)] show ?case by auto
  qed simp
  from this [of "(evs, [])" "(evs', ds)" "{}"] show ?thesis using assms by (simp add: invalidate_opposite_active_def)
qed

lemma evaluate_bar_clears:
  assumes "evaluate_bar H inp b bars15 book ctx a5 m20 evs = Inr (evs', ds)" and "d \<in> set ds"
    and "decision d = DK_FORMAL_SETUP_CONFIRMED" and "e \<in> set evs'" and "ev_status e = ACTIVE"
    and "ev_market_id e = dec_market_id d" and "ev_side e = opposite (dec_side d)"
  shows "bar_open_time_ms b \<le> bar_open_time_ms (created_bar e)"
proof -
  obtain s1 s2 ds' where s: "progress_all b (init_state evs) = Inr s1"
    "create_all H inp b bars15 book ctx a5 m20 s1 = Inr s2"
    "invalidate_opposite_active (es_ledger s2) (es_confirmed s2) = Inr (evs', ds')" "ds = es_decisions s2 @ ds'"
    using assms(1) by (auto simp: evaluate_bar_def rbind_Inr)
  have "logged b s1"
    by (rule rfold_inv [OF s(1) [unfolded progress_all_def], where P = "logged b"])
      (auto simp: logged_def init_state_def dest: progress_step_logged)
  then have lg: "logged b s2" by (rule create_all_logged [OF s(2)])
  have "d \<in> set (es_decisions s2)" using assms(2,3) s(4) opposite_active_clears [OF s(3)] by fastforce
  then obtain f where "f \<in> set (es_confirmed s2)" "ev_market_id f = dec_market_id d" "ev_side f = dec_side d" "latest_bar f = b"
    using lg assms(3) by (auto simp: logged_def)
  then show ?thesis
    using opposite_active_clears [OF s(3)] assms(4-7) by (fastforce simp: opposite_hit_def)
qed

section \<open>Preservation of well-formedness by any evaluation that returns\<close>

lemma create_candidate_wf:
  assumes "create_candidate b fam sd z m mk rsn s = Inr s'" and "wf_ledger (es_ledger s)"
    and "\<And>r. wf_event (mk r) \<and> formal_mode (mk r) = None"
  shows "wf_ledger (es_ledger s')"
proof (cases "(fam, sd) \<in> es_blocked s")
  case False
  then obtain hit where "m = Inr hit" using assms(1) by (auto simp: create_candidate_def Let_def rbind_Inr)
  from create_candidate_ok [where mk = mk and b = b and fam = fam and sd = sd and z = z and rsn = rsn, OF assms(2) this assms(3)] assms(1)
  show ?thesis by auto
qed (use assms in \<open>simp add: create_candidate_def\<close>)

lemma create_all_wf:
  assumes "create_all H inp b bars15 book ctx a5 m20 s = Inr s'" and "wf_ledger (es_ledger s)"
  shows "wf_ledger (es_ledger s')"
proof -
  let ?P = "\<lambda>s. wf_ledger (es_ledger s)"
  have 1: "create_sweep H inp b ctx a5 m20 x t = Inr t' \<Longrightarrow> ?P t \<Longrightarrow> ?P t'" for x t t'
    using create_sweep_ok [of t H inp b ctx a5 m20 x] by auto
  have 2: "create_breakout H inp b ctx a5 m20 zs x t = Inr t' \<Longrightarrow> ?P t \<Longrightarrow> ?P t'" for zs x t t'
    by (auto simp: create_breakout_def split_beta split: option.splits if_splits elim!: create_candidate_wf)
  have 3: "create_range H inp b pc ctx a5 m20 x t = Inr t' \<Longrightarrow> ?P t \<Longrightarrow> ?P t'" for pc x t t'
    by (auto simp: create_range_def split_beta Let_def rbind_Inr split: option.splits if_splits)
  obtain s1 s2 v where "rfold (create_sweep H inp b ctx a5 m20)
       [(LONG, active_support book, ZLOW), (SHORT, active_resistance book, ZHIGH)] s = Inr s1"
    "rfold (create_breakout H inp b ctx a5 m20 (active_zones book))
       [(LONG, active_resistance book, ZHIGH), (SHORT, active_support book, ZLOW)] s1 = Inr s2"
    "s' = s2 \<or> rfold (create_range H inp b (bar_close (from_end 2 (in_bars_5m inp))) ctx a5 m20)
           [(LONG, active_support book, active_resistance book),
            (SHORT, active_resistance book, active_support book)] s2 = Inr s'"
    using assms(1) unfolding create_all_def rbind_Inr by (auto split: if_splits)
  then show ?thesis using rfold_inv [of _ _ _ _ ?P] 1 2 3 assms(2) by metis
qed

lemma evaluate_strategy_wf:
  assumes "evaluate_strategy H inp (Some evs) = Inr r" and "wf_ledger evs"
  shows "wf_ledger (res_ledger r)"
  using assms(1)
proof (cases rule: evaluate_strategy_cases)
  case (invalid ds)
  then have "rfold (data_invalid_step (last (in_bars_5m inp)) (fst (evs, []))) [0..<length (fst (evs, []))] (evs, []) =
      Inr (res_ledger r, ds)" by (simp add: data_invalid_all_def)
  from closed_pass_wf [OF data_invalid.pass_pointwise [OF this]] assms(2) show ?thesis by simp
next
  case (valid bars15 book ctx a5 m20 ds)
  let ?b = "last (in_bars_5m inp)"
  obtain s1 s2 ds' where s: "progress_all ?b (init_state evs) = Inr s1"
    "create_all H inp ?b bars15 book ctx a5 m20 s1 = Inr s2"
    "invalidate_opposite_active (es_ledger s2) (es_confirmed s2) = Inr (res_ledger r, ds')"
    using valid(1) by (auto simp: evaluate_bar_def rbind_Inr)
  have "wf_ledger (es_ledger s1)"
    using progress_all_ok [of "init_state evs" ?b] s(1) assms(2) by (auto simp: init_state_def)
  then have "wf_ledger (es_ledger s2)" by (rule create_all_wf [OF s(2)])
  moreover have "wf_ledger (fst t)" if "invalidate_opposite_for f u = Inr t" "wf_ledger (fst u)" for f t u
    using opposite_for_ok [OF that(2), of f] that(1) by auto
  ultimately have "wf_ledger (fst (res_ledger r, ds'))"
    by (intro rfold_inv [OF s(3) [unfolded invalidate_opposite_active_def], where P = "\<lambda>t. wf_ledger (fst t)"]) simp_all
  then show ?thesis by simp
qed

lemma evaluate_strategy_run:
  assumes "evaluate_strategy H inp (Some evs) = Inr r" and "single_active evs"
  shows "ledger_run evs (res_ledger r)"
  using assms(1)
proof (cases rule: evaluate_strategy_cases)
  case (invalid ds)
  then show ?thesis using data_invalid_run by simp
next
  case (valid bars15 book ctx a5 m20 ds)
  then show ?thesis using evaluate_bar_run assms(2) by simp
qed

section \<open>Reachable ledgers\<close>

text \<open>The ledgers of a process that starts empty, evaluates closed bars and may be shut down.\<close>

inductive kernel_reach :: "hashing \<Rightarrow> event_ledger \<Rightarrow> bool" for H where
  start: "kernel_reach H []"
| evaluate: "kernel_reach H evs \<Longrightarrow> evaluate_strategy H inp (Some evs) = Inr r \<Longrightarrow>
    kernel_reach H (res_ledger r)"
| shutdown: "kernel_reach H evs \<Longrightarrow> kernel_reach H (mark_unresolved_at_shutdown evs)"

lemma shutdown_run: "ledger_run evs (mark_unresolved_at_shutdown evs)"
  by (rule pointwise_run) (auto simp: mark_unresolved_at_shutdown_def evolved_def)

lemma shutdown_wf: "wf_ledger (mark_unresolved_at_shutdown evs)"
  by (auto simp: wf_ledger_def mark_unresolved_at_shutdown_def)

lemma kernel_reach_inv: "kernel_reach H evs \<Longrightarrow> keys_unique evs \<and> single_active evs \<and> wf_ledger evs"
proof (induction rule: kernel_reach.induct)
  case start
  then show ?case by (simp add: keys_unique_def single_active_def wf_ledger_def)
next
  case (evaluate evs inp r)
  then show ?case using ledger_run_inv [OF evaluate_strategy_run [OF evaluate.hyps(2)]] evaluate_strategy_wf by blast
next
  case (shutdown evs)
  then show ?case using ledger_run_inv [OF shutdown_run] shutdown_wf by blast
qed

end
