(* ===== verification/Engine_Theorems.thy ===== *)
theory Engine_Theorems
  imports Engine_Props
begin

text \<open>
  The properties of the strategy kernel and the histories that witness them.
\<close>

section \<open>Sample histories\<close>

definition sample_bar5 :: "nat \<Rightarrow> rat \<Rightarrow> rat \<Rightarrow> rat \<Rightarrow> rat \<Rightarrow> bar" where
  "sample_bar5 i op hi lo cl = \<lparr> bar_market_id = ''BTC'', bar_interval = ''5m'',
     bar_open_time_ms = int i * 300000, bar_close_time_ms = 299999 + int i * 300000,
     bar_open = op, bar_high = hi, bar_low = lo, bar_close = cl,
     bar_volume = 5, bar_source_identity = ''TEST'' \<rparr>"

definition sample_book :: zone_book where
  "sample_book = \<lparr> zones = [sample_zone ''c'' ZLOW 100 2], reactions = [],
     active_support = Some (sample_zone ''c'' ZLOW 100 2), active_resistance = None \<rparr>"

definition sample_input :: "bar list \<Rightarrow> strategy_input" where
  "sample_input bars = \<lparr> in_bars_5m = bars, in_minimum_tick = 1, in_bars_15m = Some (sample_15m 1),
     in_bars_1h = Some [], in_zone_book = Some sample_book, in_scanner_linkage = None,
     mandatory_data_valid = True, a5_override = Some 10, m20_override = Some 5,
     a15_override = None, htf_context_override = Some htf_context_unavailable \<rparr>"

definition text_hash :: hashing where
  "text_hash = \<lparr> hexdigest = (\<lambda>t. t), dec_str = (\<lambda>_. ''d'') \<rparr>"

text \<open>A bar that sweeps the support zone, and one that confirms the reclaim and sweeps it again.\<close>

definition sweep_bars :: "bar list" where
  "sweep_bars = [sample_bar5 0 99 101 95 100]"

definition confirm_bars :: "bar list" where
  "confirm_bars = sweep_bars @ [sample_bar5 1 100 103 96 102]"

definition sweep_ledger :: event_ledger where
  "sweep_ledger = res_ledger (projr (evaluate_strategy text_hash (sample_input sweep_bars) (Some [])))"

definition confirm_ledger :: event_ledger where
  "confirm_ledger = res_ledger (projr (evaluate_strategy text_hash (sample_input confirm_bars) (Some sweep_ledger)))"

lemma isl_projr: "\<not> isl x \<Longrightarrow> x = Inr (projr x)"
  by (cases x) auto

lemma map_single: "map f xs = [y] \<Longrightarrow> xs ! 0 \<in> set xs \<and> 0 < length xs \<and> f (xs ! 0) = y"
  by (cases xs) auto

lemma sweep_ledger_reach: "kernel_reach text_hash sweep_ledger"
proof -
  have "\<not> isl (evaluate_strategy text_hash (sample_input sweep_bars) (Some []))" by code_simp
  from kernel_reach.evaluate [OF kernel_reach.start isl_projr [OF this]] show ?thesis
    by (simp add: sweep_ledger_def)
qed

lemma confirm_returns:
  "evaluate_strategy text_hash (sample_input confirm_bars) (Some sweep_ledger) =
     Inr (projr (evaluate_strategy text_hash (sample_input confirm_bars) (Some sweep_ledger)))"
proof (rule isl_projr)
  show "\<not> isl (evaluate_strategy text_hash (sample_input confirm_bars) (Some sweep_ledger))" by code_simp
qed

lemma confirm_ledger_reach: "kernel_reach text_hash confirm_ledger"
  unfolding confirm_ledger_def by (rule kernel_reach.evaluate [OF sweep_ledger_reach confirm_returns])

section \<open>Ledger properties\<close>

text \<open>
  C1: every evaluation of a reachable ledger is a run of the abstract ledger
  machine: a sequence of steps that each evolve one active event without touching its identity,
  zone, inputs and target, or append an event whose identity is new in its family and whose slot
  (market, family, side) has no other active event.
\<close>

theorem evaluate_refines_ledger_machine:
  assumes "kernel_reach H evs" and "evaluate_strategy H inp (Some evs) = Inr r"
  shows "ledger_step\<^sup>*\<^sup>* evs (res_ledger r)"
  using evaluate_strategy_run [OF assms(2)] kernel_reach_inv [OF assms(1)] by blast

theorem evaluate_refines_ledger_machine_witness:
  "ledger_step\<^sup>*\<^sup>* sweep_ledger confirm_ledger \<and> map ev_status sweep_ledger = [ACTIVE] \<and>
   map ev_status confirm_ledger = [CONFIRMED]"
proof -
  have "map ev_status sweep_ledger = [ACTIVE]" "map ev_status confirm_ledger = [CONFIRMED]" by code_simp+
  then show ?thesis
    using evaluate_refines_ledger_machine [OF sweep_ledger_reach confirm_returns] by (simp add: confirm_ledger_def)
qed

text \<open>
  C2: in every ledger the kernel can reach, an event identity occurs once per
  family, at most one event is active per market, family and side, and every active event carries
  no formal mode and all the fields its progress function reads, so the three
  ``incomplete event'' errors are unreachable.
\<close>

theorem reachable_ledger_invariant:
  assumes "kernel_reach H evs"
  shows "distinct (map (\<lambda>e. (market_event_id e, ev_setup_family e)) evs) \<and>
    distinct (map (\<lambda>e. (ev_market_id e, ev_setup_family e, ev_side e))
      (filter (\<lambda>e. ev_status e = ACTIVE) evs)) \<and>
    (\<forall>e \<in> set evs. ev_status e = ACTIVE \<longrightarrow> formal_mode e = None \<and> active_fields e)"
  using kernel_reach_inv [OF assms]
  by (auto simp: keys_unique_def single_active_def wf_ledger_def wf_event_def)

theorem reachable_ledger_invariant_witness:
  "distinct (map (\<lambda>e. (market_event_id e, ev_setup_family e)) sweep_ledger) \<and>
    map ev_status sweep_ledger = [ACTIVE] \<and>
    formal_mode (sweep_ledger ! 0) = None \<and> active_fields (sweep_ledger ! 0)"
proof -
  have a: "map ev_status sweep_ledger = [ACTIVE]" by code_simp
  then have "sweep_ledger ! 0 \<in> set sweep_ledger" "ev_status (sweep_ledger ! 0) = ACTIVE"
    using map_single [OF a] by simp_all
  with a reachable_ledger_invariant [OF sweep_ledger_reach] show ?thesis by blast
qed

text \<open>
  C3: history is append-only. An evaluation never removes or reorders an event,
  never changes an event that has reached a terminal status, and never changes the identity, zone,
  frozen inputs, linkage or target of any event.
\<close>

theorem ledger_history_immutable:
  assumes "kernel_reach H evs" and "evaluate_strategy H inp (Some evs) = Inr r"
  shows "length evs \<le> length (res_ledger r) \<and>
    (\<forall>i < length evs. event_core (res_ledger r ! i) = event_core (evs ! i) \<and>
       (terminal (ev_status (evs ! i)) \<longrightarrow> res_ledger r ! i = evs ! i))"
  using ledger_run_inv(1) [OF evaluate_strategy_run [OF assms(2)]] kernel_reach_inv [OF assms(1)]
  by (simp add: ledger_extends_def event_kept_def terminal_def)

theorem ledger_history_immutable_witness:
  "\<exists>r. evaluate_strategy text_hash (sample_input confirm_bars) (Some confirm_ledger) = Inr r \<and>
    map ev_status confirm_ledger = [CONFIRMED] \<and> length (res_ledger r) = 2 \<and>
    res_ledger r ! 0 = confirm_ledger ! 0"
proof -
  let ?m = "evaluate_strategy text_hash (sample_input confirm_bars) (Some confirm_ledger)"
  have "\<not> isl ?m" by code_simp
  then have m: "?m = Inr (projr ?m)" by (rule isl_projr)
  have c: "map ev_status confirm_ledger = [CONFIRMED]" by code_simp
  then have "0 < length confirm_ledger" "terminal (ev_status (confirm_ledger ! 0))"
    using map_single [OF c] by (simp_all add: terminal_def)
  then have "res_ledger (projr ?m) ! 0 = confirm_ledger ! 0"
    using ledger_history_immutable [OF confirm_ledger_reach m] by blast
  moreover have "length (res_ledger (projr ?m)) = 2" by code_simp
  ultimately show ?thesis using m c by (intro exI [of _ "projr ?m"]) blast
qed

text \<open>
  C4: the evaluation of a closed bar never raises. On a well-formed ledger, a bar that
  satisfies the \<open>Bar\<close> contract, a positive A5 and a valid 15m history with an A15, all of progress,
  creation and opposite-side invalidation return, and the new ledger is well formed again.
\<close>

theorem evaluate_bar_total:
  assumes "wf_ledger evs" and "wf_bar b" and "0 < a5" and "series_of ''15m'' bars15"
    and "a15_override inp \<noteq> None \<or> (\<exists>a. wilder_atr14 bars15 = Inr a)"
  shows "\<exists>evs' ds. evaluate_bar H inp b bars15 book ctx a5 m20 evs = Inr (evs', ds) \<and> wf_ledger evs'"
proof -
  obtain v where "range_valid (active_support book) (active_resistance book) bars15 (a15_override inp) = Inr v"
    using range_valid_returns [OF assms(4,5)] by blast
  then show ?thesis by (rule evaluate_bar_ok [OF assms(1-3)])
qed

theorem evaluate_bar_total_witness:
  "\<exists>evs' ds. evaluate_bar text_hash ((sample_input confirm_bars)\<lparr> a15_override := Some 20 \<rparr>)
      (sample_bar5 1 100 103 96 102) (sample_15m 1) sample_book htf_context_unavailable 10 5 sweep_ledger =
      Inr (evs', ds) \<and> wf_ledger evs'"
proof (rule evaluate_bar_total)
  show "wf_ledger sweep_ledger" using kernel_reach_inv [OF sweep_ledger_reach] by blast
  show "wf_bar (sample_bar5 1 100 103 96 102)" by code_simp
  show "series_of ''15m'' (sample_15m 1)" by code_simp
qed simp_all

text \<open>
  C8: after an evaluation that reports a confirmed setup, no event of the
  opposite side of that market that was created before the bar is still active.
\<close>

theorem confirmed_clears_opposite:
  assumes "evaluate_strategy H inp (Some evs) = Inr r" and "d \<in> set (res_decisions r)"
    and "decision d = DK_FORMAL_SETUP_CONFIRMED" and "mandatory_data_valid inp"
  shows "\<not> (\<exists>e \<in> set (res_ledger r). ev_status e = ACTIVE \<and> ev_market_id e = dec_market_id d \<and>
    ev_side e = opposite (dec_side d) \<and>
    bar_open_time_ms (created_bar e) < bar_open_time_ms (last (in_bars_5m inp)))"
  using assms(1)
proof (cases rule: evaluate_strategy_cases)
  case (invalid ds)
  then show ?thesis using assms(4) by simp
next
  case (valid bars15 book ctx a5 m20 ds)
  then show ?thesis using evaluate_bar_clears [OF valid(1) _ assms(3)] assms(2) by fastforce
qed

theorem confirmed_clears_opposite_witness:
  "\<exists>d \<in> set (res_decisions (projr (evaluate_strategy text_hash (sample_input confirm_bars) (Some sweep_ledger)))).
     decision d = DK_FORMAL_SETUP_CONFIRMED \<and>
     \<not> (\<exists>e \<in> set confirm_ledger. ev_status e = ACTIVE \<and> ev_market_id e = dec_market_id d \<and>
       ev_side e = opposite (dec_side d) \<and> bar_open_time_ms (created_bar e) < 300000)"
proof -
  let ?r = "projr (evaluate_strategy text_hash (sample_input confirm_bars) (Some sweep_ledger))"
  have "\<exists>d \<in> set (res_decisions ?r). decision d = DK_FORMAL_SETUP_CONFIRMED" by code_simp
  then obtain d where d: "d \<in> set (res_decisions ?r)" "decision d = DK_FORMAL_SETUP_CONFIRMED" by blast
  moreover have "mandatory_data_valid (sample_input confirm_bars)" by (simp add: sample_input_def)
  moreover have "bar_open_time_ms (last (in_bars_5m (sample_input confirm_bars))) = 300000" by code_simp
  ultimately show ?thesis using confirmed_clears_opposite [OF confirm_returns d]
    unfolding confirm_ledger_def by (intro bexI [of _ d]) auto
qed

section \<open>Confirmation rules\<close>

text \<open>
  C9: a breakout event is confirmed only in two ways. \<open>MICRO_FAST\<close>: no pullback has
  started and the bar passes the micro confirmation test; the decision carries no retest type.
  \<open>STANDARD\<close>: a pullback has started, a retest was seen on a strictly earlier bar, and the bar
  closes beyond the extreme of the previous bar. In both cases the bar is not an accepted re-entry
  and becomes the latest bar of the confirmed event.
\<close>

theorem breakout_confirmation_rules:
  assumes "progress_breakout e b = Inr (e', Some d)" and "decision d = DK_FORMAL_SETUP_CONFIRMED"
  shows "ev_status e' = CONFIRMED \<and> latest_bar e' = b \<and> \<not> accepted_reentry e b \<and>
    (formal_mode e' = Some MICRO_FAST \<and> \<not> pullback_started e \<and> micro_confirmation e b = Inr True \<and>
       dec_retest_type d = None \<or>
     formal_mode e' = Some STANDARD \<and> pullback_started e \<and> dec_retest_type d = ev_retest_type e' \<and>
       ev_retest_type e' \<noteq> None \<and>
       (\<exists>t. retest_seen_bar_time_ms e' = Some t \<and> t < bar_open_time_ms b) \<and>
       (\<exists>p. (if ev_side e = LONG then previous_high e else previous_low e) = Some p \<and>
          (if ev_side e = LONG then p < bar_close b else bar_close b < p)))"
proof -
  obtain c h l where f: "previous_close e = Some c" "previous_high e = Some h" "previous_low e = Some l"
    using assms(1) by (auto simp: progress_breakout_def split: option.splits)
  have r: "\<not> accepted_reentry e b"
    using assms f by (auto simp: progress_breakout_def finish_def Let_def rbind_Inr dest!: decision_of)
  show ?thesis
  proof (cases "pullback_started e")
    case False
    then have "progress_breakout_impulse e b c = Inr (e', Some d)" using assms(1) f r by (simp add: progress_breakout_def)
    then show ?thesis using r False
      by (auto simp: progress_breakout_impulse_def Let_def split_beta rbind_Inr make_event_decision_def
          make_decision_def split: if_splits option.splits)
  next
    case True
    then have s: "progress_breakout_standard e b h l = Inr (e', Some d)" using assms(1) f r by (simp add: progress_breakout_def)
    then obtain p where p: "pullback_extreme e = Some p" by (auto simp: progress_breakout_standard_def split: option.splits)
    define pb where "pb = (if ev_side e = LONG then min p (bar_low b) else max p (bar_high b))"
    obtain q where q: "qualify_retest e b pb = Inr q"
      using s by (auto simp: progress_breakout_standard_def p Let_def pb_def [symmetric] rbind_Inr)
    obtain rt seen where mr: "merge_retest e b q = (rt, seen)" by (cases "merge_retest e b q")
    obtain t1 t2 t3 t4 where st: "standard_terms e pb = (t1, t2, t3, t4)" by (cases "standard_terms e pb")
    have c: "rt \<noteq> None \<and> (case seen of None \<Rightarrow> False | Some t \<Rightarrow> t < bar_open_time_ms b) \<and>
      (if ev_side e = LONG then h < bar_close b else bar_close b < l)"
      using s by (auto simp: progress_breakout_standard_def p Let_def pb_def [symmetric] q mr split: if_splits)
    note s' = s [unfolded progress_breakout_standard_def p option.case Let_def pb_def [symmetric] q rbind_simps
        mr st prod.case if_P [OF c]]
    have "formal_mode e' = Some STANDARD" "ev_status e' = CONFIRMED" "latest_bar e' = b" "ev_retest_type e' = rt"
      "retest_seen_bar_time_ms e' = seen" "dec_retest_type d = rt"
      using s' by (auto simp: rbind_Inr make_event_decision_def make_decision_def split: if_splits)
    then show ?thesis using r True f c by (auto split: option.splits)
  qed
qed

definition breakout_bar :: bar where
  "breakout_bar = sample_bar5 0 101 110 100 109"

definition breakout_event :: market_event where
  "breakout_event = new_breakout text_hash breakout_bar (sample_zone ''r'' ZHIGH 100 2) LONG 10 4
     NEUTRAL None []"

definition micro_bar :: bar where
  "micro_bar = sample_bar5 1 109 112 108 111"

theorem breakout_confirmation_rules_witness:
  "\<exists>e' d. progress_breakout breakout_event micro_bar = Inr (e', Some d) \<and>
     decision d = DK_FORMAL_SETUP_CONFIRMED \<and> formal_mode e' = Some MICRO_FAST \<and>
     micro_confirmation breakout_event micro_bar = Inr True"
proof -
  let ?m = "progress_breakout breakout_event micro_bar"
  have "\<not> isl ?m \<and> snd (projr ?m) \<noteq> None \<and> decision (the (snd (projr ?m))) = DK_FORMAL_SETUP_CONFIRMED \<and>
      \<not> pullback_started breakout_event"
    by code_simp
  then obtain e' d where m: "?m = Inr (e', Some d)" "decision d = DK_FORMAL_SETUP_CONFIRMED"
    "\<not> pullback_started breakout_event" by (cases ?m) auto
  from breakout_confirmation_rules [OF m(1,2)] m show ?thesis by auto
qed

section \<open>Price terms\<close>

lemma dsub_le_dadd: "0 \<le> x \<Longrightarrow> 0 \<le> y \<Longrightarrow> dsub a x \<le> dadd a y"
  by (simp add: dsub_def dadd_def dc.rnd_mono)

lemma offset_mono:
  assumes "0 \<le> a5" and "0 \<le> c" and "c \<le> d"
  shows "dadd z (dmul c a5) \<le> dadd z (dmul d a5)" "dsub z (dmul d a5) \<le> dsub z (dmul c a5)"
    "dsub z (dmul d a5) \<le> dadd z (dmul c a5)" "dsub z (dmul c a5) \<le> dadd z (dmul d a5)"
  using assms dmul_mono [OF assms(1,3)] dmul_nonneg [of c a5] dmul_nonneg [of d a5]
  by (auto intro!: dadd_mono dsub_mono dsub_le_dadd)

definition terms_ordered :: "side \<Rightarrow> decimal \<times> decimal \<times> decimal \<times> decimal \<Rightarrow> bool" where
  "terms_ordered sd = (\<lambda>(lo, hi, chase, stop).
     if sd = LONG then stop \<le> lo \<and> lo \<le> hi \<and> hi \<le> chase else chase \<le> lo \<and> lo \<le> hi \<and> hi \<le> stop)"

lemma micro_terms_ordered: "0 \<le> a5_event e \<Longrightarrow> micro_terms e = Inr t \<Longrightarrow> terms_ordered (ev_side e) t"
  by (auto simp: micro_terms_def Let_def terms_ordered_def offset_mono min.coboundedI2 max.coboundedI2
      split: option.splits if_splits)

lemma standard_terms_ordered: "0 \<le> a5_event e \<Longrightarrow> terms_ordered (ev_side e) (standard_terms e p)"
  by (auto simp: standard_terms_def Let_def terms_ordered_def offset_mono min.coboundedI2 max.coboundedI2)

lemma breakout_standard_terms:
  assumes "progress_breakout_standard e b h l = Inr (e', Some d)"
  shows "\<exists>pb. standard_terms e pb =
      (the (ideal_entry_low e'), the (ideal_entry_high e'), the (chase_limit e'), the (structural_stop e')) \<and> ideal_entry_low e' \<noteq> None \<and> ideal_entry_high e' \<noteq> None \<and> chase_limit e' \<noteq> None \<and>
      structural_stop e' \<noteq> None"
proof -
  obtain p where p: "pullback_extreme e = Some p" using assms by (auto simp: progress_breakout_standard_def split: option.splits)
  define pb where "pb = (if ev_side e = LONG then min p (bar_low b) else max p (bar_high b))"
  show ?thesis
    using assms unfolding progress_breakout_standard_def p option.case Let_def pb_def [symmetric]
    by (intro exI [of _ pb]) (auto simp: rbind_Inr split_beta split: if_splits)
qed

text \<open>
  C10: the price terms of a confirmed breakout are ordered in the direction of the
  trade, whatever the rounding of the decimal context: for a long setup the structural stop is not
  above the ideal entry band, the band is not inverted and the chase limit is not below it; for a
  short setup the mirror image.
\<close>

theorem breakout_terms_ordered:
  assumes "progress_breakout e b = Inr (e', Some d)" and "decision d = DK_FORMAL_SETUP_CONFIRMED" and "0 \<le> a5_event e"
  shows "\<exists>lo hi chase stop. dec_ideal_entry_low d = Some lo \<and> dec_ideal_entry_high d = Some hi \<and>
    dec_chase_limit d = Some chase \<and> dec_structural_stop d = Some stop \<and>
    (if ev_side e = LONG then stop \<le> lo \<and> lo \<le> hi \<and> hi \<le> chase else chase \<le> lo \<and> lo \<le> hi \<and> hi \<le> stop)"
proof -
  obtain c h l where f: "previous_close e = Some c" "previous_high e = Some h" "previous_low e = Some l"
    using assms(1) by (auto simp: progress_breakout_def split: option.splits)
  have r: "\<not> accepted_reentry e b"
    using assms(1,2) f by (auto simp: progress_breakout_def finish_def Let_def rbind_Inr dest!: decision_of)
  have fields: "dec_ideal_entry_low d = ideal_entry_low e' \<and> dec_ideal_entry_high d = ideal_entry_high e' \<and>
      dec_chase_limit d = chase_limit e' \<and> dec_structural_stop d = structural_stop e'"
    if "make_event_decision e' k rs t = Inr d" for k rs t
    using that by (simp add: make_event_decision_fields)
  have dm: "\<exists>k rs t. make_event_decision e' k rs t = Inr d"
    using assms(1,2) f r
    by (auto simp: progress_breakout_def progress_breakout_impulse_def progress_breakout_standard_def Let_def
        split_beta rbind_Inr split: if_splits option.splits)
  have "\<exists>lo hi chase stop. ideal_entry_low e' = Some lo \<and> ideal_entry_high e' = Some hi \<and>
    chase_limit e' = Some chase \<and> structural_stop e' = Some stop \<and> terms_ordered (ev_side e) (lo, hi, chase, stop)"
  proof (cases "pullback_started e")
    case False
    then have "progress_breakout_impulse e b c = Inr (e', Some d)" using assms(1) f r by (simp add: progress_breakout_def)
    then obtain t where t: "micro_terms e = Inr t" "ideal_entry_low e' = Some (fst t)" "ideal_entry_high e' = Some (fst (snd t))"
      "chase_limit e' = Some (fst (snd (snd t)))" "structural_stop e' = Some (snd (snd (snd t)))"
      by (auto simp: progress_breakout_impulse_def Let_def split_beta rbind_Inr split: if_splits option.splits)
    then show ?thesis using micro_terms_ordered [OF assms(3) t(1)] by (cases t) auto
  next
    case True
    then have "progress_breakout_standard e b h l = Inr (e', Some d)" using assms(1) f r by (simp add: progress_breakout_def)
    from breakout_standard_terms [OF this] obtain pb lo hi ch st where "standard_terms e pb = (lo, hi, ch, st)"
      "ideal_entry_low e' = Some lo" "ideal_entry_high e' = Some hi" "chase_limit e' = Some ch" "structural_stop e' = Some st"
      by auto
    then show ?thesis using standard_terms_ordered [OF assms(3), of pb] by auto
  qed
  then obtain lo hi chase stop where t: "ideal_entry_low e' = Some lo" "ideal_entry_high e' = Some hi"
    "chase_limit e' = Some chase" "structural_stop e' = Some stop" "terms_ordered (ev_side e) (lo, hi, chase, stop)" by blast
  moreover have "dec_ideal_entry_low d = ideal_entry_low e' \<and> dec_ideal_entry_high d = ideal_entry_high e' \<and>
      dec_chase_limit d = chase_limit e' \<and> dec_structural_stop d = structural_stop e'"
    using dm fields by blast
  ultimately show ?thesis by (intro exI [of _ lo] exI [of _ hi] exI [of _ chase] exI [of _ stop]) (simp add: terms_ordered_def)
qed

theorem breakout_terms_ordered_witness:
  "\<exists>e' d lo hi chase stop. progress_breakout breakout_event micro_bar = Inr (e', Some d) \<and>
     dec_ideal_entry_low d = Some lo \<and> dec_ideal_entry_high d = Some hi \<and>
     dec_chase_limit d = Some chase \<and> dec_structural_stop d = Some stop \<and>
     stop \<le> lo \<and> lo \<le> hi \<and> hi \<le> chase"
proof -
  let ?m = "progress_breakout breakout_event micro_bar"
  have "\<not> isl ?m \<and> snd (projr ?m) \<noteq> None \<and> decision (the (snd (projr ?m))) = DK_FORMAL_SETUP_CONFIRMED \<and>
      0 \<le> a5_event breakout_event \<and> ev_side breakout_event = LONG"
    by code_simp
  then obtain e' d where m: "?m = Inr (e', Some d)" "decision d = DK_FORMAL_SETUP_CONFIRMED"
    "0 \<le> a5_event breakout_event" "ev_side breakout_event = LONG" by (cases ?m) auto
  from breakout_terms_ordered [OF m(1-3)] m show ?thesis by auto
qed

section \<open>Shutdown, invalid data and re-evaluation\<close>

text \<open>
  C16: when the mandatory data is invalid, an evaluation leaves no active event and
  reports as many decisions as events were active, all of kind \<open>DATA_INVALID\<close>; the shutdown
  transition leaves no active event either, a second shutdown changes nothing, and neither does a
  shutdown after an evaluation with invalid data.
\<close>

theorem invalid_data_and_shutdown_close_all:
  assumes "evaluate_strategy H inp (Some evs) = Inr r" and "\<not> mandatory_data_valid inp"
  shows "(\<forall>e \<in> set (res_ledger r). terminal (ev_status e)) \<and>
    length (res_decisions r) = length (filter (\<lambda>e. ev_status e = ACTIVE) evs) \<and>
    (\<forall>d \<in> set (res_decisions r). decision d = DK_DATA_INVALID) \<and>
    (\<forall>e \<in> set (mark_unresolved_at_shutdown evs). terminal (ev_status e)) \<and>
    mark_unresolved_at_shutdown (mark_unresolved_at_shutdown evs) = mark_unresolved_at_shutdown evs \<and>
    mark_unresolved_at_shutdown (res_ledger r) = res_ledger r"
proof -
  let ?b = "last (in_bars_5m inp)" and ?A = "\<lambda>e. ev_status e = ACTIVE"
  have all: "data_invalid_all ?b evs = Inr (res_ledger r, res_decisions r)"
    using assms by (elim evaluate_strategy_cases) auto
  then have p: "rfold (data_invalid_step ?b (fst (evs, []))) [0..<length (fst (evs, []))] (evs, []) =
      Inr (res_ledger r, res_decisions r)" by (simp add: data_invalid_all_def)
  have cleared: "\<forall>e \<in> set (res_ledger r). \<not> ?A e" using data_invalid.pass_clears [OF p] by simp
  have "k \<le> length evs \<Longrightarrow> rfold (data_invalid_step ?b evs) [0..<k] (evs, []) = Inr u \<Longrightarrow>
      length (snd u) = length (filter ?A (take k evs)) \<and> (\<forall>d \<in> set (snd u). decision d = DK_DATA_INVALID)" for k u
  proof (induction k arbitrary: u)
    case (Suc k)
    then obtain v where v: "rfold (data_invalid_step ?b evs) [0..<k] (evs, []) = Inr v" "data_invalid_step ?b evs k v = Inr u"
      by (auto simp: rfold_append rbind_Inr)
    have IH: "length (snd v) = length (filter ?A (take k evs)) \<and> (\<forall>d \<in> set (snd v). decision d = DK_DATA_INVALID)"
      using Suc.IH [OF _ v(1)] Suc.prems(1) by simp
    show ?case using v(2) IH Suc.prems(1)
      by (auto simp: data_invalid_step_def split_beta Let_def rbind_Inr take_Suc_conv_app_nth dest!: decision_of split: if_splits)
  qed simp
  from this [of "length evs"] p have "length (res_decisions r) = length (filter ?A evs) \<and>
      (\<forall>d \<in> set (res_decisions r). decision d = DK_DATA_INVALID)" by simp
  moreover have "mark_unresolved_at_shutdown (res_ledger r) = res_ledger r"
    using cleared by (auto simp: mark_unresolved_at_shutdown_def intro!: map_idI)
  ultimately show ?thesis using cleared by (auto simp: mark_unresolved_at_shutdown_def terminal_def)
qed

theorem invalid_data_and_shutdown_close_all_witness:
  "\<exists>r. evaluate_strategy text_hash ((sample_input confirm_bars)\<lparr> mandatory_data_valid := False \<rparr>) (Some sweep_ledger) = Inr r \<and>
     (\<forall>e \<in> set (res_ledger r). terminal (ev_status e)) \<and> length (res_decisions r) = 1"
proof -
  let ?i = "(sample_input confirm_bars)\<lparr> mandatory_data_valid := False \<rparr>"
  let ?m = "evaluate_strategy text_hash ?i (Some sweep_ledger)"
  have "\<not> isl ?m" by code_simp
  then have m: "?m = Inr (projr ?m)" by (rule isl_projr)
  have "length (filter (\<lambda>e. ev_status e = ACTIVE) sweep_ledger) = 1" by code_simp
  with invalid_data_and_shutdown_close_all [OF m] m show ?thesis by (intro exI [of _ "projr ?m"]) simp
qed

text \<open>
  Evaluating the same closed bar a second time is not an idempotent read.
  The events blocked from re-creation are those that ended in the first evaluation, and the second
  evaluation no longer knows them: here the bar first confirms the sweep and, evaluated again with
  the same inputs, creates and reports a second sweep event.
\<close>

lemma reevaluation_can_create:
  "map ev_status confirm_ledger = [CONFIRMED] \<and>
   map ev_status (res_ledger (projr (evaluate_strategy text_hash (sample_input confirm_bars) (Some confirm_ledger)))) =
     [CONFIRMED, ACTIVE] \<and>
   map reason (res_decisions (projr (evaluate_strategy text_hash (sample_input confirm_bars) (Some confirm_ledger)))) =
     [''SWEEP_CANDIDATE_CREATED'']"
  by code_simp

end
