(* ===== verification/Clock.thy ===== *)
theory Clock
  imports Kernel_Types "HOL-Library.Log_Nat"
begin

text \<open>
  Instants of Python's \<open>datetime\<close> in UTC and rounding to binary64, as far as the components use them.
\<close>

section \<open>Instants\<close>

text \<open>
  An instant is a number of microseconds since 0001-01-01 in UTC; the last representable year is not
  modelled.
\<close>

type_synonym instant = int

text \<open>\<open>datetime.isoformat()\<close> before the offset: the calendar date of a day number, then the time of day; the fraction is omitted when it is zero.\<close>

definition days_before_month :: "int \<Rightarrow> int" where
  "days_before_month m = [0, 31, 59, 90, 120, 151, 181, 212, 243, 273, 304, 334] ! nat (m - 1)"

definition days_in_month :: "int \<Rightarrow> int" where
  "days_in_month m = [31, 28, 31, 30, 31, 30, 31, 31, 30, 31, 30, 31] ! nat (m - 1)"

definition month_day :: "bool \<Rightarrow> int \<Rightarrow> int \<times> int" where
  "month_day leap n =
     (let m = (n + 50) div 32;
          before = days_before_month m + (if 2 < m \<and> leap then 1 else 0)
      in if n < before
         then (m - 1, n - (before - (days_in_month (m - 1) + (if m - 1 = 2 \<and> leap then 1 else 0))) + 1)
         else (m, n - before + 1))"

definition ymd_of_day :: "int \<Rightarrow> int \<times> int \<times> int" where
  "ymd_of_day d =
     (let n400 = d div 146097; r400 = d mod 146097;
          n100 = r400 div 36524; r100 = r400 mod 36524;
          n4 = r100 div 1461; r4 = r100 mod 1461;
          n1 = r4 div 365; n = r4 mod 365;
          year = n400 * 400 + 1 + n100 * 100 + n4 * 4 + n1
      in if n1 = 4 \<or> n100 = 4 then (year - 1, 12, 31)
         else (year, month_day (n1 = 3 \<and> (n4 \<noteq> 24 \<or> n100 = 3)) n))"

definition pad :: "nat \<Rightarrow> int \<Rightarrow> string" where
  "pad w i = (let s = int_str i in replicate (w - length s) CHR ''0'' @ s)"

definition iso_text :: "instant \<Rightarrow> string" where
  "iso_text t =
     (let us = t mod 1000000; secs = t div 1000000;
          (y, m, d) = ymd_of_day (secs div 86400); s = secs mod 86400
      in pad 4 y @ ''-'' @ pad 2 m @ ''-'' @ pad 2 d @ ''T'' @ pad 2 (s div 3600) @ '':'' @
         pad 2 (s mod 3600 div 60) @ '':'' @ pad 2 (s mod 60) @
         (if us = 0 then [] else ''.'' @ pad 6 us))"

section \<open>Binary64\<close>

text \<open>Rounding of a non-negative value to binary64: 53 significant bits, half to even.\<close>

definition bin_exponent :: "rat \<Rightarrow> int" where
  "bin_exponent x =
     (if 1 \<le> x then int (floorlog 2 (nat \<lfloor>x\<rfloor>)) - 1 else - int (floorlog 2 (nat (\<lceil>1 / x\<rceil> - 1))))"

definition float_of :: "rat \<Rightarrow> rat" where
  "float_of x =
     (if x = 0 then 0
      else let e = bin_exponent x - 52
           in of_int (round_half_even (x * 2 powi (- e))) * 2 powi e)"

text \<open>\<open>int(value.timestamp() * 1000)\<close>: seconds since 1970 as a \<open>float\<close>, the product rounded again, truncated.\<close>

definition EPOCH :: instant where "EPOCH = 719162 * 86400 * 1000000"

definition timestamp_ms :: "instant \<Rightarrow> int" where
  "timestamp_ms t =
     (let s = float_of (float_of (\<bar>of_int (t - EPOCH)\<bar> / 1000000) * 1000)
      in if t < EPOCH then - \<lfloor>s\<rfloor> else \<lfloor>s\<rfloor>)"

end
