(* ===== verification/Scanner.thy ===== *)
theory Scanner
  imports Indicators Clock
begin

text \<open>
  Cross-sectional discovery and the candidate state machine,
  \<^verbatim>\<open>src/src/trader_assist_v0/multi_asset_shadow/strategy_kernel/scanner.py\<close>. The dictionaries
  of returns are association lists in insertion order. The size of a tail is a product of an
  integer and a \<open>float\<close>, so the rounding of binary64 is part of the model.
\<close>

section \<open>Inputs, metrics and candidates\<close>

record scanner_market_input =
  sm_market_id :: string
  sm_bars_5m :: "bar list"
  sm_minimum_tick :: decimal
  sm_current_spread_price :: decimal
  sm_liquidity_healthy :: bool
  sm_btc_returns :: "decimal option \<times> decimal option \<times> decimal option"
  sm_history_count :: "int option"
  sm_exact_wilder_atr_5m :: "decimal option"

record scanner_metrics =
  return_15m :: decimal
  return_30m :: decimal
  return_60m :: decimal
  relative_universe_15m :: decimal
  relative_universe_30m :: decimal
  relative_universe_60m :: decimal
  relative_btc_15m :: "decimal option"
  relative_btc_30m :: "decimal option"
  relative_btc_60m :: "decimal option"
  move_atr_15m :: decimal
  move_atr_30m :: decimal
  move_atr_60m :: decimal
  relative_volume_5m :: decimal
  er_15m :: decimal
  er_30m :: decimal
  er_60m :: decimal
  prior_high_12 :: decimal
  prior_low_12 :: decimal
  prior_high_36 :: decimal
  prior_low_36 :: decimal

record scanner_candidate =
  sc_candidate_id :: string
  sc_market_id :: string
  sc_side :: "side option"
  sc_state :: scanner_state
  sc_created_bar_open_time_ms :: int
  sc_breakout_bar_open_time_ms :: "int option"
  sc_breakout_level :: "decimal option"
  sc_breakout_buffer :: "decimal option"
  sc_secondary_level_broken :: bool
  sc_retest_touch_bar_open_time_ms :: "int option"
  sc_chase :: "scanner_chase option"
  sc_chase_distance_atr :: "decimal option"
  sc_reason :: string
  sc_transitions :: "string list"
  sc_scanner_version :: string
  sc_parameter_version :: string

record scanner_observation =
  ob_market_id :: string
  ob_metrics :: "scanner_metrics option"
  ob_candidate :: "scanner_candidate option"

definition candidate_linkage :: "scanner_candidate \<Rightarrow> scanner_linkage" where
  "candidate_linkage c = \<lparr> link_candidate_id = sc_candidate_id c, link_state = sc_state c,
     link_scanner_version = SCANNER_VERSION \<rparr>"

definition history_count :: "scanner_market_input \<Rightarrow> int" where
  "history_count item =
     (case sm_history_count item of None \<Rightarrow> int (length (sm_bars_5m item)) | Some n \<Rightarrow> n)"

definition exact_atr :: "scanner_market_input \<Rightarrow> decimal res" where
  "exact_atr item =
     (case sm_exact_wilder_atr_5m item of None \<Rightarrow> wilder_atr14 (sm_bars_5m item) | Some a \<Rightarrow> Inr a)"

datatype scanner_candidate_class = DISCOVERY_ONLY | PROGRESSION_ELIGIBLE | TERMINAL

fun classify_scanner_state :: "scanner_state \<Rightarrow> scanner_candidate_class" where
  "classify_scanner_state WATCH_MOMENTUM = DISCOVERY_ONLY"
| "classify_scanner_state WATCH_NEAR_LEVEL = DISCOVERY_ONLY"
| "classify_scanner_state WATCH_NEW_MARKET = DISCOVERY_ONLY"
| "classify_scanner_state BREAKOUT_DETECTED = PROGRESSION_ELIGIBLE"
| "classify_scanner_state RETEST_PENDING = PROGRESSION_ELIGIBLE"
| "classify_scanner_state LATE_WATCH = PROGRESSION_ELIGIBLE"
| "classify_scanner_state REJECTED_CHASE_FOR_ACTION = PROGRESSION_ELIGIBLE"
| "classify_scanner_state BREAKOUT_RETEST_READY = TERMINAL"
| "classify_scanner_state FAILED_BREAKOUT_SWEEP_WATCH = TERMINAL"
| "classify_scanner_state FAILED_INVALIDATED_INSIDE_RANGE = TERMINAL"
| "classify_scanner_state EXPIRED_NO_RETEST = TERMINAL"

section \<open>Metrics\<close>

definition scanner_returns :: "bar list \<Rightarrow> decimal list res" where
  "scanner_returns bars =
     (if length bars < 13
      then Inl (KernelInputError ''scanner returns require 13 closed 5m bars'')
      else rmap (\<lambda>offset. rbind (rdiv (bar_close (last bars)) (bar_close (from_end (Suc offset) bars)))
             (\<lambda>q. Inr (dsub q 1))) [3, 6, 12])"

definition relative_btc :: "decimal \<Rightarrow> decimal option \<Rightarrow> decimal option" where
  "relative_btc v btc = map_option (dsub v) btc"

definition make_metrics :: "scanner_market_input \<Rightarrow> decimal list \<Rightarrow> scanner_metrics res" where
  "make_metrics item universe_medians =
     (let bars = sm_bars_5m item in
      if length bars < 37
      then Inl (KernelInputError ''scanner structure metrics require 37 closed bars'')
      else
        rbind (exact_atr item) (\<lambda>atr.
        rbind (scanner_returns bars) (\<lambda>rets.
        rbind (rmap (\<lambda>offset.
            rdiv (dabs (dsub (bar_close (last bars)) (bar_close (from_end (Suc offset) bars)))) atr)
          [3, 6, 12]) (\<lambda>moves.
        rbind (median_previous_20_volume bars) (\<lambda>m20.
        let relative_volume = (if m20 = 0 then 0 else ddiv (bar_volume (last bars)) m20);
            previous_12 = butlast (last_n 13 bars);
            previous_36 = butlast (last_n 37 bars)
        in Inr \<lparr> return_15m = rets ! 0, return_30m = rets ! 1, return_60m = rets ! 2,
             relative_universe_15m = dsub (rets ! 0) (universe_medians ! 0),
             relative_universe_30m = dsub (rets ! 1) (universe_medians ! 1),
             relative_universe_60m = dsub (rets ! 2) (universe_medians ! 2),
             relative_btc_15m = relative_btc (rets ! 0) (fst (sm_btc_returns item)),
             relative_btc_30m = relative_btc (rets ! 1) (fst (snd (sm_btc_returns item))),
             relative_btc_60m = relative_btc (rets ! 2) (snd (snd (sm_btc_returns item))),
             move_atr_15m = moves ! 0, move_atr_30m = moves ! 1, move_atr_60m = moves ! 2,
             relative_volume_5m = relative_volume,
             er_15m = efficiency_of (last_n 4 bars), er_30m = efficiency_of (last_n 7 bars),
             er_60m = efficiency_of (last_n 13 bars),
             prior_high_12 = list_max (map bar_high previous_12),
             prior_low_12 = list_min (map bar_low previous_12),
             prior_high_36 = list_max (map bar_high previous_36),
             prior_low_36 = list_min (map bar_low previous_36) \<rparr>)))))"

section \<open>Tails of the cross section\<close>

definition tail_count :: "nat \<Rightarrow> decimal \<Rightarrow> nat" where
  "tail_count n fraction = nat (max 1 \<lceil>float_of (of_nat n * float_of fraction)\<rceil>)"

definition tail_members :: "(string \<times> decimal) list \<Rightarrow> decimal \<Rightarrow> string set \<times> string set" where
  "tail_members values fraction =
     (let count = tail_count (length values) fraction;
          ordered = map fst (sort_key (\<lambda>(m, v). (v, m)) values)
      in (set (take count ordered), set (last_n count ordered)))"

section \<open>Candidates\<close>

definition scanner_candidate_id ::
  "hashing \<Rightarrow> string \<Rightarrow> side option \<Rightarrow> scanner_state \<Rightarrow> bar \<Rightarrow> decimal option \<Rightarrow> string" where
  "scanner_candidate_id H market sd st b level =
     hexdigest H (market @ (case sd of None \<Rightarrow> ''NO_DIRECTION'' | Some s \<Rightarrow> side_value s) @
       scanner_state_value st @ candle_id H b @
       (case level of None \<Rightarrow> ''None'' | Some l \<Rightarrow> dec_str H l) @ SCANNER_VERSION @ PARAMETER_VERSION)"

definition chase_of :: "decimal \<Rightarrow> scanner_chase" where
  "chase_of distance =
     (if distance \<le> 0.75 then CHASE_EARLY else if distance \<le> 1.50 then CHASE_LATE else CHASE_REJECTED)"

definition scanner_breakout ::
  "hashing \<Rightarrow> scanner_market_input \<Rightarrow> scanner_metrics \<Rightarrow> side \<Rightarrow> scanner_candidate option res" where
  "scanner_breakout H item metrics sd =
     (let current = last (sm_bars_5m item) in
      rbind (exact_atr item) (\<lambda>atr.
      let buffer = max (dmul 0.10 atr)
            (max (dmul 2 (sm_current_spread_price item)) (dmul 2 (sm_minimum_tick item)));
          level = (if sd = LONG then prior_high_12 metrics else prior_low_12 metrics);
          detected = (if sd = LONG then dadd level buffer < bar_close current
            else bar_close current < dsub level buffer)
      in if \<not> detected then Inr None
         else
           let secondary = (if sd = LONG then dadd (prior_high_36 metrics) buffer < bar_close current
                 else bar_close current < dsub (prior_low_36 metrics) buffer)
           in rbind (rdiv (dabs (dsub (bar_close current) level)) atr) (\<lambda>distance.
             let chase = chase_of distance;
                 state = (if chase = CHASE_REJECTED then REJECTED_CHASE_FOR_ACTION
                   else if chase = CHASE_LATE then LATE_WATCH else BREAKOUT_DETECTED)
             in Inr (Some
               \<lparr> sc_candidate_id = scanner_candidate_id H (sm_market_id item) (Some sd)
                   BREAKOUT_DETECTED current (Some level),
                 sc_market_id = sm_market_id item, sc_side = Some sd, sc_state = state,
                 sc_created_bar_open_time_ms = bar_open_time_ms current,
                 sc_breakout_bar_open_time_ms = Some (bar_open_time_ms current),
                 sc_breakout_level = Some level, sc_breakout_buffer = Some buffer,
                 sc_secondary_level_broken = secondary, sc_retest_touch_bar_open_time_ms = None,
                 sc_chase = Some chase, sc_chase_distance_atr = Some distance,
                 sc_reason = ''BREAKOUT_DETECTED'',
                 sc_transitions = [''NEW->'' @ scanner_state_value state],
                 sc_scanner_version = SCANNER_VERSION, sc_parameter_version = PARAMETER_VERSION \<rparr>))))"

text \<open>The shape the three watch branches of \<open>scan_cross_section\<close> share.\<close>

definition watch_candidate ::
  "hashing \<Rightarrow> scanner_market_input \<Rightarrow> side option \<Rightarrow> scanner_state \<Rightarrow> decimal option \<Rightarrow> string \<Rightarrow>
   scanner_candidate" where
  "watch_candidate H item sd st level rsn =
     (let current = last (sm_bars_5m item)
      in \<lparr> sc_candidate_id = scanner_candidate_id H (sm_market_id item) sd st current level,
           sc_market_id = sm_market_id item, sc_side = sd, sc_state = st,
           sc_created_bar_open_time_ms = bar_open_time_ms current,
           sc_breakout_bar_open_time_ms = None, sc_breakout_level = level,
           sc_breakout_buffer = None, sc_secondary_level_broken = False,
           sc_retest_touch_bar_open_time_ms = None, sc_chase = None, sc_chase_distance_atr = None,
           sc_reason = rsn, sc_transitions = [''NEW->'' @ scanner_state_value st],
           sc_scanner_version = SCANNER_VERSION, sc_parameter_version = PARAMETER_VERSION \<rparr>)"

section \<open>One closed 5m cadence\<close>

definition usable_market :: "scanner_market_input \<Rightarrow> bool" where
  "usable_market item \<longleftrightarrow> 64 \<le> history_count item \<and> sm_liquidity_healthy item"

definition return_map :: "scanner_market_input list \<Rightarrow> nat \<Rightarrow> (string \<times> decimal) list res" where
  "return_map usable horizon =
     rfold (\<lambda>item m. rbind (scanner_returns (sm_bars_5m item)) (\<lambda>r.
         Inr (aput (sm_market_id item) (r ! horizon) m)))
       (filter (\<lambda>item. 13 \<le> length (sm_bars_5m item)) usable) []"

definition universe_median :: "(string \<times> decimal) list \<Rightarrow> decimal res" where
  "universe_median values = (if values = [] then Inr 0 else median (map snd values))"

definition move_ready :: "scanner_metrics \<Rightarrow> bool" where
  "move_ready metrics \<longleftrightarrow> 0.60 \<le> move_atr_15m metrics \<or> 0.90 \<le> move_atr_30m metrics \<or>
     1.20 \<le> move_atr_60m metrics"

type_synonym tails = "(string set \<times> string set) list"

definition in_upper :: "string \<Rightarrow> tails \<Rightarrow> bool" where
  "in_upper m ts \<longleftrightarrow> (\<exists>(lower, upper) \<in> set ts. m \<in> upper)"

definition in_lower :: "string \<Rightarrow> tails \<Rightarrow> bool" where
  "in_lower m ts \<longleftrightarrow> (\<exists>(lower, upper) \<in> set ts. m \<in> lower)"

definition near_level_candidate ::
  "hashing \<Rightarrow> scanner_market_input \<Rightarrow> scanner_metrics \<Rightarrow> tails \<Rightarrow> scanner_candidate option res" where
  "near_level_candidate H item metrics tails_20 =
     (let close = bar_close (last (sm_bars_5m item)) in
      rbind (exact_atr item) (\<lambda>atr.
      let long_near = (min (dabs (dsub close (prior_high_12 metrics)))
                           (dabs (dsub close (prior_high_36 metrics))) \<le> dmul 0.35 atr \<and>
            in_upper (sm_market_id item) tails_20);
          short_near = (min (dabs (dsub close (prior_low_12 metrics)))
                            (dabs (dsub close (prior_low_36 metrics))) \<le> dmul 0.35 atr \<and>
            in_lower (sm_market_id item) tails_20)
      in if long_near \<or> short_near
         then Inr (Some (watch_candidate H item (Some (if long_near then LONG else SHORT))
                WATCH_NEAR_LEVEL
                (Some (if long_near then prior_high_12 metrics else prior_low_12 metrics))
                ''TOP_OR_BOTTOM_20_PERCENT_NEAR_LEVEL''))
         else Inr None))"

definition discover ::
  "hashing \<Rightarrow> tails \<Rightarrow> tails \<Rightarrow> scanner_market_input \<Rightarrow> scanner_metrics \<Rightarrow> scanner_candidate option res" where
  "discover H tails_15 tails_20 item metrics =
     (let long_rank = in_upper (sm_market_id item) tails_15;
          short_rank = in_lower (sm_market_id item) tails_15;
          ready = move_ready metrics
      in rbind (if long_rank \<and> ready then scanner_breakout H item metrics LONG else Inr None) (\<lambda>c1.
         rbind (if c1 = None \<and> short_rank \<and> ready then scanner_breakout H item metrics SHORT
                else Inr c1) (\<lambda>c2.
         let c3 = (if c2 = None \<and> (long_rank \<or> short_rank) \<and> ready
               then Some (watch_candidate H item (Some (if long_rank then LONG else SHORT))
                      WATCH_MOMENTUM None ''TOP_OR_BOTTOM_15_PERCENT_AND_MOVE_ATR'')
               else c2)
         in if c3 = None then near_level_candidate H item metrics tails_20 else Inr c3)))"

definition observe_market ::
  "hashing \<Rightarrow> decimal list \<Rightarrow> tails \<Rightarrow> tails \<Rightarrow> scanner_market_input \<Rightarrow> scanner_observation res" where
  "observe_market H medians tails_15 tails_20 item =
     (if history_count item < 64 \<or> \<not> sm_liquidity_healthy item
      then Inr \<lparr> ob_market_id = sm_market_id item, ob_metrics = None, ob_candidate = None \<rparr>
      else if history_count item < 288 then
        (if sm_bars_5m item = [] then Inl IndexError
         else Inr \<lparr> ob_market_id = sm_market_id item, ob_metrics = None,
           ob_candidate = Some (watch_candidate H item None WATCH_NEW_MARKET None ''HISTORY_64_TO_287'') \<rparr>)
      else rbind (make_metrics item medians) (\<lambda>metrics.
        rbind (discover H tails_15 tails_20 item metrics) (\<lambda>candidate.
          Inr \<lparr> ob_market_id = sm_market_id item, ob_metrics = Some metrics,
                ob_candidate = candidate \<rparr>)))"

definition scan_cross_section ::
  "hashing \<Rightarrow> scanner_market_input list \<Rightarrow> scanner_observation list res" where
  "scan_cross_section H inputs =
     (let usable = filter usable_market inputs in
      rbind (rmap (return_map usable) [0, 1, 2]) (\<lambda>return_maps.
      rbind (rmap universe_median return_maps) (\<lambda>medians.
      let tails_15 = map (\<lambda>values. tail_members values 0.15) return_maps;
          tails_20 = map (\<lambda>values. tail_members values 0.20) return_maps
      in rmap (observe_market H medians tails_15 tails_20) (sort_key sm_market_id inputs))))"

section \<open>Progress of a candidate\<close>

text \<open>\<open>positions\<close>: a later bar with the same opening time replaces an earlier one.\<close>

definition bar_position :: "bar list \<Rightarrow> int \<Rightarrow> nat option" where
  "bar_position bars t = find (\<lambda>i. bar_open_time_ms (bars ! i) = t) (rev [0..<length bars])"

definition elapsed_bars :: "bar list \<Rightarrow> int \<Rightarrow> int res" where
  "elapsed_bars bars breakout_time =
     (case bar_position bars breakout_time of
        Some i \<Rightarrow> Inr (int (length bars) - 1 - int i)
      | None \<Rightarrow>
          if bars = [] then Inl IndexError
          else let elapsed_ms = bar_open_time_ms (last bars) - breakout_time
               in if elapsed_ms \<le> 12 * 300000 \<or> elapsed_ms mod 300000 \<noteq> 0
                  then Inl (KernelInputError ''scanner breakout bar is absent from history'')
                  else Inr (elapsed_ms div 300000))"

definition move_to :: "scanner_candidate \<Rightarrow> scanner_state \<Rightarrow> string \<Rightarrow> scanner_candidate" where
  "move_to c st rsn = c\<lparr> sc_state := st, sc_reason := rsn,
     sc_transitions := sc_transitions c @
       [scanner_state_value (sc_state c) @ ''->'' @ scanner_state_value st] \<rparr>"

definition back_inside :: "side \<Rightarrow> decimal \<Rightarrow> decimal \<Rightarrow> decimal \<Rightarrow> decimal \<Rightarrow> bool" where
  "back_inside sd level share atr close \<longleftrightarrow>
     (if sd = LONG then close \<le> dsub level (dmul share atr) else dadd level (dmul share atr) \<le> close)"

definition touch_time_of :: "scanner_candidate \<Rightarrow> decimal \<Rightarrow> bar \<Rightarrow> decimal \<Rightarrow> decimal \<Rightarrow> int option" where
  "touch_time_of c level current atr spread =
     (let half_width = max (dmul 0.25 atr) (dmul 2 spread);
          touched = (bar_low current \<le> dadd level half_width \<and> dsub level half_width \<le> bar_high current)
      in if sc_retest_touch_bar_open_time_ms c = None \<and> touched
         then Some (bar_open_time_ms current) else sc_retest_touch_bar_open_time_ms c)"

definition retest_confirmed :: "side \<Rightarrow> decimal \<Rightarrow> bar \<Rightarrow> int option \<Rightarrow> scanner_chase \<Rightarrow> bool \<Rightarrow> bool" where
  "retest_confirmed sd level current touch_time chase healthy \<longleftrightarrow>
     (case touch_time of None \<Rightarrow> False | Some t \<Rightarrow> t < bar_open_time_ms current) \<and>
     (if sd = LONG then level < bar_close current else bar_close current < level) \<and>
     chase \<noteq> CHASE_REJECTED \<and> healthy"

definition retest_verdict :: "bool \<Rightarrow> scanner_chase \<Rightarrow> int option \<Rightarrow> scanner_state \<times> string" where
  "retest_verdict confirmed chase touch_time =
     (if confirmed
      then (BREAKOUT_RETEST_READY,
        if chase = CHASE_EARLY then ''RETEST_CONFIRMED'' else ''RETEST_CONFIRMED_DO_NOT_CHASE'')
      else case chase of
        CHASE_REJECTED \<Rightarrow> (REJECTED_CHASE_FOR_ACTION, ''CHASE_DISTANCE_ABOVE_1.50_ATR'')
      | CHASE_LATE \<Rightarrow> (LATE_WATCH, ''CHASE_DISTANCE_ABOVE_0.75_ATR_DO_NOT_CHASE'')
      | CHASE_EARLY \<Rightarrow> (RETEST_PENDING,
          if touch_time \<noteq> None then ''RETEST_TOUCH_PENDING_CONFIRMATION'' else ''RETEST_NOT_TOUCHED''))"

definition retest_progress ::
  "scanner_candidate \<Rightarrow> side \<Rightarrow> decimal \<Rightarrow> bar \<Rightarrow> decimal \<Rightarrow> decimal \<Rightarrow> bool \<Rightarrow> scanner_candidate res" where
  "retest_progress c sd level current atr spread healthy =
     (let touch_time = touch_time_of c level current atr spread
      in rbind (rdiv (dabs (dsub (bar_close current) level)) atr) (\<lambda>distance.
         let chase = chase_of distance;
             verdict = retest_verdict (retest_confirmed sd level current touch_time chase healthy)
               chase touch_time
         in Inr (c\<lparr> sc_state := fst verdict, sc_retest_touch_bar_open_time_ms := touch_time,
              sc_chase := Some chase, sc_chase_distance_atr := Some distance, sc_reason := snd verdict,
              sc_transitions := (if fst verdict = sc_state c then sc_transitions c
                else sc_transitions c @
                  [scanner_state_value (sc_state c) @ ''->'' @ scanner_state_value (fst verdict)]) \<rparr>)))"

definition advance_scanner_candidate ::
  "scanner_candidate \<Rightarrow> bar list \<Rightarrow> decimal \<Rightarrow> bool \<Rightarrow> decimal option \<Rightarrow> scanner_candidate res" where
  "advance_scanner_candidate c bars spread healthy atr_override =
     (case (sc_breakout_bar_open_time_ms c, sc_breakout_level c) of
        (Some breakout_time, Some level) \<Rightarrow>
          if classify_scanner_state (sc_state c) = TERMINAL then Inr c
          else rbind (elapsed_bars bars breakout_time) (\<lambda>elapsed.
            if elapsed \<le> 0 then Inr c
            else
              let current = last bars in
              rbind (case atr_override of None \<Rightarrow> wilder_atr14 bars | Some a \<Rightarrow> Inr a) (\<lambda>atr.
              case sc_side c of
                None \<Rightarrow> Inl (KernelInputError
                  ''directionless WATCH cannot enter the breakout state machine'')
              | Some sd \<Rightarrow>
                  if elapsed \<le> 6 \<and> back_inside sd level 0.10 atr (bar_close current) \<and> healthy
                  then Inr (move_to c FAILED_BREAKOUT_SWEEP_WATCH
                    ''RETURNED_INSIDE_RANGE_AT_LEAST_0.10_ATR_WITHIN_1_TO_6'')
                  else if back_inside sd level 0.25 atr (bar_close current)
                  then Inr (move_to c FAILED_INVALIDATED_INSIDE_RANGE
                    ''INVALIDATION_INSIDE_RANGE_0.25_ATR'')
                  else if 12 < elapsed
                  then Inr (move_to c EXPIRED_NO_RETEST ''SCANNER_RETEST_WINDOW_ENDED'')
                  else retest_progress c sd level current atr spread healthy))
      | _ \<Rightarrow> Inr c)"

end
