(* ===== verification/Scanner_Props.thy ===== *)
theory Scanner_Props
  imports Scanner
begin

text \<open>
  Properties of the scanner: candidates resolve within thirteen bars, the transition log is a path
  of the state machine, a candidate becomes ready only after a strictly earlier touch, the scan does
  not depend on the order of its inputs, and the floating point tail sizes are exact.
\<close>

section \<open>One step of a candidate\<close>

text \<open>The part of a candidate that progress never changes.\<close>

definition candidate_core :: "scanner_candidate \<Rightarrow>
    string \<times> string \<times> side option \<times> int \<times> int option \<times> decimal option \<times> decimal option \<times> bool" where
  "candidate_core c = (sc_candidate_id c, sc_market_id c, sc_side c, sc_created_bar_open_time_ms c,
     sc_breakout_bar_open_time_ms c, sc_breakout_level c, sc_breakout_buffer c, sc_secondary_level_broken c)"

definition edge_text :: "scanner_state \<times> scanner_state \<Rightarrow> string" where
  "edge_text = (\<lambda>(a, b). scanner_state_value a @ ''->'' @ scanner_state_value b)"

definition step_log :: "scanner_candidate \<Rightarrow> scanner_candidate \<Rightarrow> bool" where
  "step_log c c' \<longleftrightarrow> sc_transitions c' =
     (if sc_state c' = sc_state c then sc_transitions c
      else sc_transitions c @ [edge_text (sc_state c, sc_state c')])"

lemma move_to_step:
  "sc_state c \<noteq> st \<Longrightarrow> candidate_core (move_to c st r) = candidate_core c \<and> step_log c (move_to c st r)"
  by (simp add: move_to_def candidate_core_def step_log_def edge_text_def)

lemma move_to_state [simp]: "sc_state (move_to c st r) = st"
  by (simp add: move_to_def)

lemma retest_verdict_state:
  "fst (retest_verdict k chase t) \<in> {BREAKOUT_RETEST_READY, REJECTED_CHASE_FOR_ACTION, LATE_WATCH, RETEST_PENDING}"
  by (cases chase) (auto simp: retest_verdict_def)

lemma retest_progress_step:
  assumes "retest_progress c sd level b atr spread healthy = Inr c'"
  shows "candidate_core c' = candidate_core c \<and> step_log c c' \<and>
    sc_state c' \<in> {BREAKOUT_RETEST_READY, REJECTED_CHASE_FOR_ACTION, LATE_WATCH, RETEST_PENDING}"
  using assms retest_verdict_state
  by (fastforce simp: retest_progress_def Let_def rbind_Inr candidate_core_def step_log_def edge_text_def)

lemma retest_progress_class:
  "retest_progress c sd level b atr spread healthy = Inr c' \<Longrightarrow>
     classify_scanner_state (sc_state c') \<noteq> DISCOVERY_ONLY"
  by (drule retest_progress_step) auto

lemma retest_progress_total: "atr \<noteq> 0 \<Longrightarrow> \<exists>c'. retest_progress c sd level b atr spread healthy = Inr c'"
  by (simp add: retest_progress_def rdiv_def Let_def split_beta)

lemma advance_step:
  assumes "advance_scanner_candidate c bars spread healthy ov = Inr c'"
  shows "c' = c \<or> (candidate_core c' = candidate_core c \<and> step_log c c' \<and>
    sc_breakout_bar_open_time_ms c \<noteq> None \<and> classify_scanner_state (sc_state c) \<noteq> TERMINAL \<and>
    classify_scanner_state (sc_state c') \<noteq> DISCOVERY_ONLY)"
proof (cases "classify_scanner_state (sc_state c) = TERMINAL")
  case True
  then show ?thesis using assms
    by (auto simp: advance_scanner_candidate_def split: option.splits)
next
  case False
  then have ne: "sc_state c \<noteq> FAILED_BREAKOUT_SWEEP_WATCH" "sc_state c \<noteq> FAILED_INVALIDATED_INSIDE_RANGE"
    "sc_state c \<noteq> EXPIRED_NO_RETEST" by auto
  show ?thesis
  proof (cases "c' = c")
    case new: False
    from assms False new obtain t level sd atr where
      t: "sc_breakout_bar_open_time_ms c = Some t" and
      c': "c' = move_to c FAILED_BREAKOUT_SWEEP_WATCH
             ''RETURNED_INSIDE_RANGE_AT_LEAST_0.10_ATR_WITHIN_1_TO_6'' \<or>
           c' = move_to c FAILED_INVALIDATED_INSIDE_RANGE ''INVALIDATION_INSIDE_RANGE_0.25_ATR'' \<or>
           c' = move_to c EXPIRED_NO_RETEST ''SCANNER_RETEST_WINDOW_ENDED'' \<or>
           retest_progress c sd level (last bars) atr spread healthy = Inr c'"
      unfolding advance_scanner_candidate_def Let_def
      by (fastforce simp: rbind_Inr split: option.splits if_splits)
    from c' t False show ?thesis
      using move_to_step [OF ne(1)] move_to_step [OF ne(2)] move_to_step [OF ne(3)]
        retest_progress_step retest_progress_class by (elim disjE) auto
  qed simp
qed

section \<open>Resolution\<close>

lemma series_position:
  assumes "series_of ''5m'' bars" and "i < n" and "n \<le> length bars"
  shows "bar_position (take n bars) (bar_open_time_ms (bars ! i)) = Some i"
proof -
  from assms(1) obtain t0 where "\<forall>j < length bars. bar_open_time_ms (bars ! j) = t0 + int j * 300000"
    by (auto simp: series_of_def series_at_def FIVE_MINUTES_MS_def)
  then show ?thesis using assms(2,3) by (auto simp: bar_position_def find_rev_upt)
qed

lemma series_elapsed:
  assumes "series_of ''5m'' bars" and "i < n" and "n \<le> length bars"
  shows "elapsed_bars (take n bars) (bar_open_time_ms (bars ! i)) = Inr (int n - 1 - int i)"
  using series_position [OF assms] assms(3) by (simp add: elapsed_bars_def)

lemma advance_total:
  assumes "sc_breakout_bar_open_time_ms c = Some t" "sc_breakout_level c = Some level" "sc_side c = Some sd"
    and "elapsed_bars bars t = Inr n" and "a \<noteq> 0"
  shows "\<exists>c'. advance_scanner_candidate c bars spread healthy (Some a) = Inr c' \<and>
    (12 < n \<longrightarrow> classify_scanner_state (sc_state c') = TERMINAL)"
  using assms retest_progress_total [OF assms(5)]
  by (auto simp: advance_scanner_candidate_def Let_def)

definition advance_run ::
  "bar list \<Rightarrow> (nat \<Rightarrow> decimal) \<Rightarrow> (nat \<Rightarrow> bool) \<Rightarrow> (nat \<Rightarrow> decimal) \<Rightarrow> nat list \<Rightarrow>
   scanner_candidate \<Rightarrow> scanner_candidate res" where
  "advance_run bars spread healthy atr =
     rfold (\<lambda>n c. advance_scanner_candidate c (take n bars) (spread n) (healthy n) (Some (atr n)))"

lemma core_fields:
  "candidate_core c' = candidate_core c \<Longrightarrow>
     sc_breakout_bar_open_time_ms c' = sc_breakout_bar_open_time_ms c \<and>
     sc_breakout_level c' = sc_breakout_level c \<and> sc_side c' = sc_side c"
  by (simp add: candidate_core_def)

text \<open>
  C18: every breakout candidate is resolved. Advanced bar by bar along a gap-free
  5m series with positive ATR values, whatever the prices, spreads and liquidity, no call raises
  and after the thirteenth bar behind the breakout the candidate is in a terminal state.
\<close>

theorem scanner_candidate_resolves:
  assumes "series_of ''5m'' bars" and "i + 14 \<le> length bars"
    and "sc_breakout_bar_open_time_ms c = Some (bar_open_time_ms (bars ! i))"
    and "sc_breakout_level c = Some level" and "sc_side c = Some sd" and "\<And>n. 0 < atr n"
  shows "\<exists>c'. advance_run bars spread healthy atr [i + 1..<i + 15] c = Inr c' \<and>
    classify_scanner_state (sc_state c') = TERMINAL \<and> candidate_core c' = candidate_core c"
proof -
  let ?f = "\<lambda>n c. advance_scanner_candidate c (take n bars) (spread n) (healthy n) (Some (atr n))"
  have step: "\<exists>t. ?f n s = Inr t \<and> candidate_core t = candidate_core c \<and>
      (n = i + 14 \<longrightarrow> classify_scanner_state (sc_state t) = TERMINAL)"
    if n: "i < n" "n \<le> i + 14" and s: "candidate_core s = candidate_core c" for n s
  proof -
    have e: "elapsed_bars (take n bars) (bar_open_time_ms (bars ! i)) = Inr (int n - 1 - int i)"
      using series_elapsed [OF assms(1) n(1)] n(2) assms(2) by simp
    have "atr n \<noteq> 0" using assms(6) [of n] by simp
    with advance_total [OF _ _ _ e this, of s level sd "spread n" "healthy n"] core_fields [OF s] assms(3-5)
    obtain t where t: "?f n s = Inr t" "12 < int n - 1 - int i \<longrightarrow> classify_scanner_state (sc_state t) = TERMINAL"
      by auto
    with advance_step [OF t(1)] s show ?thesis by auto
  qed
  have "\<exists>t. rfold ?f [i + 1..<i + 14] c = Inr t \<and> candidate_core t = candidate_core c"
  proof (rule rfold_returns)
    fix n s assume "n \<in> set [i + 1..<i + 14]" "candidate_core s = candidate_core c"
    with step [of n s] show "\<exists>t. ?f n s = Inr t \<and> candidate_core t = candidate_core c" by auto
  qed simp
  then obtain t where t: "rfold ?f [i + 1..<i + 14] c = Inr t" "candidate_core t = candidate_core c" by blast
  have split: "[i + 1..<i + 15] = [i + 1..<i + 14] @ [i + 14]"
    using upt_Suc_append [of "i + 1" "i + 14"] by (simp add: numeral_eq_Suc)
  from step [OF _ _ t(2), of "i + 14"] show ?thesis
    unfolding advance_run_def split rfold_append t(1) by (auto simp: rbind_Inr)
qed

section \<open>Reachable candidates\<close>

inductive scanner_reach :: "hashing \<Rightarrow> scanner_candidate \<Rightarrow> bool" for H where
  discovered: "scan_cross_section H inputs = Inr obs \<Longrightarrow> ob \<in> set obs \<Longrightarrow> ob_candidate ob = Some c \<Longrightarrow>
    scanner_reach H c"
| advanced: "scanner_reach H c \<Longrightarrow> advance_scanner_candidate c bars spread healthy ov = Inr c' \<Longrightarrow>
    scanner_reach H c'"

fun transition_log :: "scanner_state list \<Rightarrow> string list" where
  "transition_log [] = []"
| "transition_log (s # ss) = (''NEW->'' @ scanner_state_value s) # map edge_text (pairwise (s # ss))"

lemma pairwise_snoc: "ss \<noteq> [] \<Longrightarrow> pairwise (ss @ [t]) = pairwise ss @ [(last ss, t)]"
  by (induction ss rule: pairwise.induct) auto

lemma set_butlast_last: "ss \<noteq> [] \<Longrightarrow> set ss = insert (last ss) (set (butlast ss))"
  by (induction ss) auto

lemma transition_log_snoc:
  "ss \<noteq> [] \<Longrightarrow> transition_log (ss @ [t]) = transition_log ss @ [edge_text (last ss, t)]"
  using pairwise_snoc [of ss t] by (cases ss) auto

definition logged_path :: "scanner_candidate \<Rightarrow> scanner_state list \<Rightarrow> bool" where
  "logged_path c ss \<longleftrightarrow> ss \<noteq> [] \<and> sc_transitions c = transition_log ss \<and> last ss = sc_state c \<and>
     (\<forall>s \<in> set (butlast ss). classify_scanner_state s = PROGRESSION_ELIGIBLE) \<and>
     (\<forall>(a, b) \<in> set (pairwise ss). a \<noteq> b)"

lemma new_logged_path:
  "sc_transitions c = [''NEW->'' @ scanner_state_value (sc_state c)] \<Longrightarrow> logged_path c [sc_state c]"
  by (simp add: logged_path_def)

definition candidate_ok :: "scanner_candidate \<Rightarrow> bool" where
  "candidate_ok c \<longleftrightarrow> (\<exists>ss. logged_path c ss) \<and>
     (sc_breakout_bar_open_time_ms c \<noteq> None \<longleftrightarrow> classify_scanner_state (sc_state c) \<noteq> DISCOVERY_ONLY) \<and>
     (sc_breakout_bar_open_time_ms c \<noteq> None \<longrightarrow> sc_side c \<noteq> None \<and> sc_breakout_level c \<noteq> None)"

lemma new_candidate_ok:
  assumes "sc_transitions c = [''NEW->'' @ scanner_state_value (sc_state c)]"
    and "sc_breakout_bar_open_time_ms c \<noteq> None \<longleftrightarrow> classify_scanner_state (sc_state c) \<noteq> DISCOVERY_ONLY"
    and "sc_breakout_bar_open_time_ms c \<noteq> None \<longrightarrow> sc_side c \<noteq> None \<and> sc_breakout_level c \<noteq> None"
  shows "candidate_ok c"
  using new_logged_path [OF assms(1)] assms(2,3) unfolding candidate_ok_def by blast

lemma watch_candidate_ok:
  "classify_scanner_state st = DISCOVERY_ONLY \<Longrightarrow> candidate_ok (watch_candidate H item sd st level rsn)"
  by (rule new_candidate_ok) (simp_all add: watch_candidate_def Let_def)

lemma scanner_breakout_ok:
  assumes "scanner_breakout H item metrics sd = Inr (Some c)"
  shows "candidate_ok c"
proof (rule new_candidate_ok)
  show "sc_transitions c = [''NEW->'' @ scanner_state_value (sc_state c)]"
    using assms by (auto simp: scanner_breakout_def Let_def rbind_Inr split: if_splits)
  show "sc_breakout_bar_open_time_ms c \<noteq> None \<longleftrightarrow> classify_scanner_state (sc_state c) \<noteq> DISCOVERY_ONLY"
    using assms by (auto simp: scanner_breakout_def Let_def rbind_Inr split: if_splits)
  show "sc_breakout_bar_open_time_ms c \<noteq> None \<longrightarrow> sc_side c \<noteq> None \<and> sc_breakout_level c \<noteq> None"
    using assms by (auto simp: scanner_breakout_def Let_def rbind_Inr split: if_splits)
qed

lemma near_level_ok: "near_level_candidate H item metrics ts = Inr (Some c) \<Longrightarrow> candidate_ok c"
  by (auto simp: near_level_candidate_def Let_def rbind_Inr watch_candidate_ok split: if_splits)

lemma discover_ok: "discover H ts us item metrics = Inr (Some c) \<Longrightarrow> candidate_ok c"
  by (auto simp: discover_def Let_def rbind_Inr watch_candidate_ok split: if_splits
      dest: near_level_ok scanner_breakout_ok)

lemma observe_ok: "observe_market H ms ts us item = Inr ob \<Longrightarrow> ob_candidate ob = Some c \<Longrightarrow> candidate_ok c"
  by (auto simp: observe_market_def rbind_Inr watch_candidate_ok split: if_splits dest: discover_ok)

lemma scan_ok:
  assumes "scan_cross_section H inputs = Inr obs" "ob \<in> set obs" "ob_candidate ob = Some c"
  shows "candidate_ok c"
  using assms by (auto simp: scan_cross_section_def Let_def rbind_Inr dest!: rmap_Inr_set intro: observe_ok)

lemma advance_ok:
  assumes ok: "candidate_ok c" and adv: "advance_scanner_candidate c bars spread healthy ov = Inr c'"
  shows "candidate_ok c'"
  using advance_step [OF adv]
proof (elim disjE conjE)
  assume core: "candidate_core c' = candidate_core c" and log: "step_log c c'"
    and b: "sc_breakout_bar_open_time_ms c \<noteq> None"
    and cl: "classify_scanner_state (sc_state c) \<noteq> TERMINAL" "classify_scanner_state (sc_state c') \<noteq> DISCOVERY_ONLY"
  from ok obtain ss where ss: "logged_path c ss" by (auto simp: candidate_ok_def)
  have el: "classify_scanner_state (sc_state c) = PROGRESSION_ELIGIBLE"
    using ok b cl(1) by (cases "classify_scanner_state (sc_state c)") (auto simp: candidate_ok_def)
  have "\<exists>ss'. logged_path c' ss'"
  proof (cases "sc_state c' = sc_state c")
    case True
    with ss log have "logged_path c' ss" by (simp add: logged_path_def step_log_def)
    then show ?thesis by blast
  next
    case False
    have "\<forall>s \<in> set ss. classify_scanner_state s = PROGRESSION_ELIGIBLE"
      using ss el set_butlast_last [of ss] by (auto simp: logged_path_def)
    with False ss log have "logged_path c' (ss @ [sc_state c'])"
      by (auto simp: logged_path_def step_log_def transition_log_snoc pairwise_snoc)
    then show ?thesis by blast
  qed
  with ok b cl core_fields [OF core] show ?thesis by (auto simp: candidate_ok_def)
qed (use ok in simp)

text \<open>
  C19: the transition log of every candidate the scanner can produce is a path of its
  state machine. It starts at the state of discovery, each entry starts where the previous one
  ended, no entry stays in place, the last one ends in the current state, and every state the
  candidate has left admits progression; so terminal states are never left. A candidate has a
  breakout bar exactly when it is past discovery, and then it has a side and a level, so the error
  of a directionless candidate is unreachable.
\<close>

theorem scanner_log_is_path:
  assumes "scanner_reach H c"
  shows "(\<exists>ss. ss \<noteq> [] \<and> sc_transitions c = transition_log ss \<and> last ss = sc_state c \<and>
      (\<forall>s \<in> set (butlast ss). classify_scanner_state s = PROGRESSION_ELIGIBLE) \<and>
      (\<forall>(a, b) \<in> set (pairwise ss). a \<noteq> b)) \<and>
    (sc_breakout_bar_open_time_ms c \<noteq> None \<longleftrightarrow> classify_scanner_state (sc_state c) \<noteq> DISCOVERY_ONLY) \<and>
    (sc_breakout_bar_open_time_ms c \<noteq> None \<longrightarrow> sc_side c \<noteq> None \<and> sc_breakout_level c \<noteq> None)"
proof -
  from assms have "candidate_ok c" by induction (auto intro: scan_ok advance_ok)
  then show ?thesis by (simp add: candidate_ok_def logged_path_def)
qed

text \<open>
  C21: a candidate becomes \<open>BREAKOUT_RETEST_READY\<close> only on a bar strictly later than a
  touch that an earlier bar recorded, between one and twelve bars after the breakout, with healthy
  liquidity, a close beyond the level in the direction of the breakout and at most 1.50 ATR from it.
\<close>

theorem scanner_ready_rule:
  assumes "advance_scanner_candidate c bars spread healthy (Some atr) = Inr c'"
    and "sc_state c \<noteq> BREAKOUT_RETEST_READY" and "sc_state c' = BREAKOUT_RETEST_READY"
  shows "\<exists>t level sd n touch. sc_breakout_bar_open_time_ms c = Some t \<and> sc_breakout_level c = Some level \<and>
    sc_side c = Some sd \<and> elapsed_bars bars t = Inr n \<and> 1 \<le> n \<and> n \<le> 12 \<and> healthy \<and>
    sc_retest_touch_bar_open_time_ms c = Some touch \<and> touch < bar_open_time_ms (last bars) \<and>
    (if sd = LONG then level < bar_close (last bars) else bar_close (last bars) < level) \<and>
    ddiv (dabs (dsub (bar_close (last bars)) level)) atr \<le> 1.50"
proof -
  from assms obtain t level sd n where c: "sc_breakout_bar_open_time_ms c = Some t"
      "sc_breakout_level c = Some level" "sc_side c = Some sd" "elapsed_bars bars t = Inr n" "0 < n" "n \<le> 12"
    and r: "retest_progress c sd level (last bars) atr spread healthy = Inr c'"
    unfolding advance_scanner_candidate_def Let_def
    by (fastforce simp: rbind_Inr split: option.splits if_splits)
  let ?d = "ddiv (dabs (dsub (bar_close (last bars)) level)) atr"
  let ?tt = "touch_time_of c level (last bars) atr spread"
  from r have "fst (retest_verdict (retest_confirmed sd level (last bars) ?tt (chase_of ?d) healthy)
      (chase_of ?d) ?tt) = sc_state c'"
    by (auto simp: retest_progress_def Let_def rbind_Inr rdiv_def split: if_splits)
  with assms(3) have k: "retest_confirmed sd level (last bars) ?tt (chase_of ?d) healthy"
    by (auto simp: retest_verdict_def split: if_splits scanner_chase.splits)
  then obtain touch where tt: "?tt = Some touch" "touch < bar_open_time_ms (last bars)"
    by (auto simp: retest_confirmed_def split: option.splits)
  then have "sc_retest_touch_bar_open_time_ms c = Some touch"
    by (auto simp: touch_time_of_def Let_def split: if_splits)
  moreover have "?d \<le> 1.50" using k by (auto simp: retest_confirmed_def chase_of_def split: if_splits)
  ultimately show ?thesis using c k tt(2) by (auto simp: retest_confirmed_def)
qed

section \<open>Independence of the input order\<close>

definition market_return :: "nat \<Rightarrow> scanner_market_input \<Rightarrow> string \<times> decimal" where
  "market_return h item = (sm_market_id item, projr (scanner_returns (sm_bars_5m item)) ! h)"

lemma scanner_returns_total:
  assumes "list_all wf_bar bars" and "13 \<le> length bars"
  shows "scanner_returns bars = Inr (projr (scanner_returns bars))"
proof -
  have "bar_close (from_end (Suc k) bars) \<noteq> 0" if "k < 13" for k
  proof -
    have "from_end (Suc k) bars \<in> set bars" using assms(2) that by (auto simp: from_end_def)
    then show ?thesis using assms(1) by (auto simp: list_all_iff wf_bar_def)
  qed
  from this [of 3] this [of 6] this [of 12] assms(2) show ?thesis
    by (simp add: scanner_returns_def rdiv_def)
qed

lemma aput_fresh: "k \<notin> fst ` set al \<Longrightarrow> aput k v al = al @ [(k, v)]"
  by (simp add: aput_def)

lemma return_map_fold:
  assumes "distinct (map fst al @ map sm_market_id items)"
    and "\<forall>item \<in> set items. scanner_returns (sm_bars_5m item) = Inr (projr (scanner_returns (sm_bars_5m item)))"
  shows "rfold (\<lambda>item m. rbind (scanner_returns (sm_bars_5m item)) (\<lambda>r.
      Inr (aput (sm_market_id item) (r ! h) m))) items al = Inr (al @ map (market_return h) items)"
  using assms
proof (induction items arbitrary: al)
  case (Cons item items)
  have r: "scanner_returns (sm_bars_5m item) = Inr (projr (scanner_returns (sm_bars_5m item)))"
    using Cons.prems(2) by simp
  have fresh: "sm_market_id item \<notin> fst ` set al" using Cons.prems(1) by auto
  have "rfold (\<lambda>item m. rbind (scanner_returns (sm_bars_5m item)) (\<lambda>r.
      Inr (aput (sm_market_id item) (r ! h) m))) (item # items) al =
    rfold (\<lambda>item m. rbind (scanner_returns (sm_bars_5m item)) (\<lambda>r.
      Inr (aput (sm_market_id item) (r ! h) m))) items (al @ [market_return h item])"
    by (subst rfold.simps, subst r) (simp add: aput_fresh [OF fresh] market_return_def)
  also have "\<dots> = Inr ((al @ [market_return h item]) @ map (market_return h) items)"
    by (rule Cons.IH) (use Cons.prems in \<open>auto simp: market_return_def\<close>)
  finally show ?case by simp
qed simp

definition returning :: "scanner_market_input list \<Rightarrow> scanner_market_input list" where
  "returning items = filter (\<lambda>item. 13 \<le> length (sm_bars_5m item)) (filter usable_market items)"

lemma return_map_eq:
  assumes "distinct (map sm_market_id items)" and "\<forall>item \<in> set items. list_all wf_bar (sm_bars_5m item)"
  shows "return_map (filter usable_market items) h = Inr (map (market_return h) (returning items))"
proof -
  have "distinct (map sm_market_id (returning items))"
    using assms(1) by (simp add: returning_def distinct_map_filter)
  moreover have "\<forall>item \<in> set (returning items).
      scanner_returns (sm_bars_5m item) = Inr (projr (scanner_returns (sm_bars_5m item)))"
    using assms(2) scanner_returns_total by (auto simp: returning_def)
  ultimately show ?thesis
    using return_map_fold [of "[]" "returning items" h] by (simp add: return_map_def returning_def)
qed

lemma universe_median_mset:
  assumes "mset xs = mset ys" shows "universe_median xs = universe_median ys"
proof -
  have m: "mset (map snd xs) = mset (map snd ys)" using assms by simp
  have "sort (map snd xs) = sort (map snd ys)" by (rule properties_for_sort) (simp_all add: assms)
  moreover have "length xs = length ys" using assms by (rule mset_eq_length)
  moreover have "xs = [] \<longleftrightarrow> ys = []" using assms by auto
  ultimately show ?thesis by (simp add: universe_median_def median_def Let_def)
qed

lemma tail_members_mset:
  assumes "mset xs = mset ys" and "distinct (map fst xs)"
  shows "tail_members xs fraction = tail_members ys fraction"
proof -
  have "inj_on (\<lambda>(m, v). (v, m)) (set xs)" by (auto simp: inj_on_def)
  then have "sort_key (\<lambda>(m, v). (v, m)) xs = sort_key (\<lambda>(m, v). (v, m)) ys"
    by (intro sort_key_inj_key_eq) (simp_all add: assms(1))
  then show ?thesis using mset_eq_length [OF assms(1)] by (simp add: tail_members_def Let_def)
qed

text \<open>
  C20: a cadence does not depend on the order in which its markets are supplied. For
  markets with distinct identities whose bars satisfy the \<open>Bar\<close> contract, any permutation of the
  inputs gives the same observations, in order of the market identity, or the same error.
\<close>

theorem scan_order_independent:
  assumes "mset xs = mset ys" and "distinct (map sm_market_id xs)"
    and "\<forall>item \<in> set xs. list_all wf_bar (sm_bars_5m item)"
  shows "scan_cross_section H xs = scan_cross_section H ys"
proof -
  have ys: "distinct (map sm_market_id ys)" "\<forall>item \<in> set ys. list_all wf_bar (sm_bars_5m item)"
    using assms mset_eq_setD [OF assms(1)] mset_eq_imp_distinct_iff [of "map sm_market_id xs" "map sm_market_id ys"]
    by auto
  have r: "mset (map (market_return h) (returning xs)) = mset (map (market_return h) (returning ys))" for h
    using assms(1) by (simp add: returning_def)
  have d: "distinct (map fst (map (market_return h) (returning xs)))" for h
    using assms(2) by (simp add: returning_def market_return_def comp_def distinct_map_filter)
  have s: "sort_key sm_market_id xs = sort_key sm_market_id ys"
    using assms(1,2) by (intro sort_key_inj_key_eq) (simp_all add: distinct_map)
  show ?thesis
    by (simp add: scan_cross_section_def return_map_eq [OF assms(2,3)] return_map_eq [OF ys] s
        universe_median_mset [OF r] tail_members_mset [OF r d])
qed

section \<open>Tail sizes\<close>

lemma round_half_even_near: "\<bar>x - of_int k\<bar> < 1/2 \<Longrightarrow> round_half_even x = k"
proof -
  assume a: "\<bar>x - of_int k\<bar> < 1/2"
  show ?thesis
  proof (cases "of_int k \<le> x")
    case True
    with a have "\<lfloor>x\<rfloor> = k" by linarith
    with a True show ?thesis by (simp add: round_half_even_def Let_def)
  next
    case False
    with a have "\<lfloor>x\<rfloor> = k - 1" by linarith
    with a False show ?thesis by (simp add: round_half_even_def Let_def)
  qed
qed

lemma bin_exponent_bounds:
  assumes "1 \<le> x"
  shows "0 \<le> bin_exponent x" and "2 powi bin_exponent x \<le> x" and "x < 2 * 2 powi bin_exponent x"
proof -
  define m where "m = nat \<lfloor>x\<rfloor>"
  have fl: "\<lfloor>x\<rfloor> = int m" "0 < m" using assms by (auto simp: m_def le_floor_iff)
  define k where "k = floorlog 2 m - 1"
  have b: "2 ^ k \<le> m" "m < 2 ^ floorlog 2 m"
    using floorlog_bounds [of m 2] fl(2) by (auto simp: k_def)
  have "floorlog 2 m \<noteq> 0" using b fl(2) by (intro notI) simp
  then have e: "bin_exponent x = int k" and s: "floorlog 2 m = Suc k"
    using assms by (auto simp: bin_exponent_def k_def simp flip: m_def)
  show "0 \<le> bin_exponent x" by (simp add: e)
  have "(2::rat) ^ k = of_nat (2 ^ k)" by simp
  also have "\<dots> \<le> of_nat m" using b(1) by (simp only: of_nat_le_iff)
  also have "\<dots> \<le> x" using fl(1) by linarith
  finally show "2 powi bin_exponent x \<le> x" by (simp add: e)
  have "x < of_nat (m + 1)" using fl(1) by simp linarith
  also have "\<dots> \<le> (of_nat (2 ^ Suc k) :: rat)" using b(2) unfolding s of_nat_le_iff by simp
  finally show "x < 2 * 2 powi bin_exponent x" by (simp add: e)
qed

lemma powi2_cancel: "(2::rat) powi a * 2 powi (- a) = 1"
  by (simp add: power_int_minus)

lemma float_of_scaled:
  assumes "1 \<le> p"
  obtains s where "0 < s" and "2 ^ 52 * s \<le> p" and "p < 2 ^ 53 * s"
    and "float_of p = of_int (round_half_even (p / s)) * s" and "bin_exponent p \<le> 52 \<longrightarrow> (\<exists>j::int. 1 / s = of_int j)"
proof
  let ?s = "(2::rat) powi (bin_exponent p - 52)"
  note b = bin_exponent_bounds [OF assms]
  have s: "2 ^ 52 * ?s = 2 powi bin_exponent p" by (simp add: power_int_diff)
  show "0 < ?s" by (simp add: zero_less_power_int)
  show "2 ^ 52 * ?s \<le> p" using b(2) s by simp
  have "2 ^ 53 * ?s = 2 * (2 ^ 52 * ?s)" by simp
  with b(3) s show "p < 2 ^ 53 * ?s" by simp
  show "float_of p = of_int (round_half_even (p / ?s)) * ?s"
    using assms by (simp add: float_of_def Let_def power_int_minus divide_inverse)
  show "bin_exponent p \<le> 52 \<longrightarrow> (\<exists>j::int. 1 / ?s = of_int j)"
  proof
    assume "bin_exponent p \<le> 52"
    then have "1 / ?s = of_int (2 ^ nat (52 - bin_exponent p))"
      by (simp add: power_int_def field_simps)
    then show "\<exists>j::int. 1 / ?s = of_int j" by blast
  qed
qed

lemma tail_exact:
  assumes p1: "1 \<le> p" and px: "\<bar>p - x\<bar> < p / 2 ^ 54" and pm: "p < 2 ^ 41" and v: "20 * x = of_int v"
  shows "\<lceil>float_of p\<rceil> = \<lceil>x\<rceil>"
proof -
  obtain s where s: "0 < s" "2 ^ 52 * s \<le> p" "p < 2 ^ 53 * s"
    "float_of p = of_int (round_half_even (p / s)) * s" "bin_exponent p \<le> 52 \<longrightarrow> (\<exists>j::int. 1 / s = of_int j)"
    by (rule float_of_scaled [OF p1]) blast
  have err: "\<bar>float_of p - p\<bar> \<le> p / 2 ^ 53"
  proof -
    have h: "\<bar>of_int (round_half_even (p / s)) - p / s\<bar> \<le> 1/2"
      using round_half_even_bounds [of "p / s"] by linarith
    have "float_of p - p = (of_int (round_half_even (p / s)) - p / s) * s"
      using s(1) unfolding s(4) by (simp add: algebra_simps)
    then have "\<bar>float_of p - p\<bar> = \<bar>of_int (round_half_even (p / s)) - p / s\<bar> * s"
      using s(1) by (simp add: abs_mult)
    also have "\<dots> \<le> 1/2 * s" using h s(1) by (intro mult_right_mono) simp_all
    finally show ?thesis using s(2) by simp
  qed
  show ?thesis
  proof (cases "x \<in> \<int>")
    case True
    then obtain k where k: "x = of_int k" by (auto elim: Ints_cases)
    have "(2::rat) powi bin_exponent p < 2 powi 41"
      using bin_exponent_bounds(2) [OF p1] pm by simp
    then have "bin_exponent p < 41" using power_int_increasing [of 41 "bin_exponent p" "2::rat"] by force
    with s(5) obtain j where j: "1 / s = of_int j" by auto
    have ks: "x / s = of_int (k * j)" using j by (simp add: k divide_inverse)
    have "\<bar>p / s - x / s\<bar> = \<bar>p - x\<bar> / s" using s(1) by (simp add: diff_divide_distrib [symmetric] abs_divide)
    also have "\<dots> < (p / 2 ^ 54) / s" using px s(1) by (rule divide_strict_right_mono)
    also have "\<dots> < 1/2" using s(1,3) by (simp add: field_simps)
    finally have "round_half_even (p / s) = k * j" unfolding ks by (rule round_half_even_near)
    then have "float_of p = x" using s(1,4) ks by (simp add: field_simps)
    then show ?thesis by simp
  next
    case False
    have near: "\<bar>float_of p - x\<bar> < 1 / 20" 
    proof -
      have "p / 2 ^ 53 < 1 / 100" "p / 2 ^ 54 < 1 / 100" using pm by simp_all
      with err px show ?thesis by linarith
    qed
    define c where "c = \<lceil>x\<rceil>"
    have n1: "20 * c \<noteq> v"
    proof
      assume "20 * c = v"
      with v have "x = of_int c" by (metis mult_cancel_left of_int_mult of_int_numeral zero_neq_numeral)
      with False show False by simp
    qed
    have n2: "v \<noteq> 20 * (c - 1)"
    proof
      assume "v = 20 * (c - 1)"
      with v have "x = of_int (c - 1)" by simp
      with False show False by (metis Ints_of_int)
    qed
    have cx: "x \<le> of_int c" "of_int c - 1 < x" unfolding c_def by linarith+
    have "of_int v \<le> (of_int (20 * c) :: rat)" using v cx(1) by simp
    then have n3: "v \<le> 20 * c" by (simp only: of_int_le_iff)
    have "(of_int (20 * (c - 1)) :: rat) < of_int v" unfolding v [symmetric] using cx(2) by simp
    then have n4: "20 * (c - 1) < v" by (simp only: of_int_less_iff)
    have "v \<le> 20 * c - 1" using n1 n3 by simp
    moreover have "20 * c - 19 \<le> v" using n4 by simp
    ultimately have "of_int v \<le> (of_int (20 * c - 1) :: rat)" "(of_int (20 * c - 19) :: rat) \<le> of_int v"
      by (simp_all only: of_int_le_iff)
    then have "x \<le> of_int c - 1/20" "of_int c - 1 + 1/20 \<le> x" unfolding v [symmetric] by simp_all
    with near have "float_of p \<le> of_int c" "of_int c - 1 < float_of p" by linarith+
    then show ?thesis unfolding c_def [symmetric] by (simp add: ceiling_unique)
  qed
qed

lemma float_fractions:
  "float_of (3 / 20) = 5404319552844595 / 2 ^ 55" "float_of (1 / 5) = 3602879701896397 / 2 ^ 54"
  by code_simp+

lemma small_tails:
  "map (\<lambda>n. \<lceil>float_of (n * float_of (3 / 20))\<rceil>) [1, 2, 3, 4, 5, 6, 7, 8, 9] = [1, 1, 1, 1, 1, 1, 2, 2, 2]"
  "map (\<lambda>n. \<lceil>float_of (n * float_of (1 / 5))\<rceil>) [1, 2, 3, 4, 5, 6, 7, 8, 9] = [1, 1, 1, 1, 1, 2, 2, 2, 2]"
  by code_simp+

lemma ceil_20: "\<lceil>3 * of_nat n / (20 :: rat)\<rceil> = (3 * int n + 19) div 20"
  using ceiling_divide_eq_div [of "3 * int n" 20, where 'a = rat] by simp

lemma ceil_5: "\<lceil>of_nat n / (5 :: rat)\<rceil> = (int n + 4) div 5"
  using ceiling_divide_eq_div [of "int n" 5, where 'a = rat] by simp

text \<open>
  C22: the tail sizes do not suffer from the floating point product. For every
  non-empty universe of fewer than 2 to the 40 markets, rounding the two factors and their product to
  binary64 before taking the ceiling gives exactly 15 and 20 percent of the markets, rounded up.
\<close>

theorem tail_count_exact:
  assumes "0 < n" and "n < 2 ^ 40"
  shows "tail_count n 0.15 = (3 * n + 19) div 20 \<and> tail_count n 0.20 = (n + 4) div 5"
proof (cases "n < 10")
  case True
  with assms(1) have "n \<in> {1, 2, 3, 4, 5, 6, 7, 8, 9}" by auto
  then show ?thesis using small_tails by (auto simp: tail_count_def)
next
  case False
  have n: "10 \<le> (of_nat n :: rat)" using False by simp
  have "of_nat n < (of_nat (2 ^ 40) :: rat)" using assms(2) by (simp only: of_nat_less_iff)
  then have m: "of_nat n < (2 ^ 40 :: rat)" by simp
  have "\<lceil>float_of (of_nat n * float_of (3 / 20))\<rceil> = \<lceil>3 * of_nat n / (20 :: rat)\<rceil>"
    by (rule tail_exact [where v = "3 * int n"]) (use n m in \<open>simp_all add: float_fractions\<close>)
  moreover have "\<lceil>float_of (of_nat n * float_of (1 / 5))\<rceil> = \<lceil>of_nat n / (5 :: rat)\<rceil>"
    by (rule tail_exact [where v = "4 * int n"]) (use n m in \<open>simp_all add: float_fractions\<close>)
  moreover have "1 \<le> (3 * int n + 19) div 20" "1 \<le> (int n + 4) div 5" using False by presburger+
  ultimately show ?thesis unfolding tail_count_def by (simp add: ceil_20 ceil_5 nat_div_distrib nat_add_distrib nat_mult_distrib)
qed

theorem tail_count_exact_witness: "tail_count 20 0.15 = 3 \<and> tail_count 20 0.20 = 4"
  using tail_count_exact [of 20] by simp

section \<open>Instances\<close>

definition scan_hash :: hashing where
  "scan_hash = \<lparr> hexdigest = (\<lambda>t. t), dec_str = (\<lambda>_. []) \<rparr>"

text \<open>Thirty-six quiet bars and one that breaks out upwards by four.\<close>

definition scan_bars :: "bar list" where
  "scan_bars = map (\<lambda>i. \<lparr> bar_market_id = ''BTC'', bar_interval = ''5m'', bar_open_time_ms = int i * 300000,
     bar_close_time_ms = int i * 300000 + 299999, bar_open = 100, bar_high = (if i = 36 then 106 else 101),
     bar_low = 99, bar_close = (if i = 36 then 105 else 100), bar_volume = 5,
     bar_source_identity = ''TEST'' \<rparr>) [0..<37]"

definition scan_input :: "string \<Rightarrow> scanner_market_input" where
  "scan_input m = \<lparr> sm_market_id = m, sm_bars_5m = scan_bars, sm_minimum_tick = 1 / 10,
     sm_current_spread_price = 1 / 10, sm_liquidity_healthy = True,
     sm_btc_returns = (None, None, None), sm_history_count = Some 300, sm_exact_wilder_atr_5m = Some 4 \<rparr>"

definition scan_candidate :: scanner_candidate where
  "scan_candidate = the (ob_candidate (hd (projr (scan_cross_section scan_hash [scan_input ''BTC'']))))"

lemma scan_candidate_reach: "scanner_reach scan_hash scan_candidate"
proof -
  let ?m = "scan_cross_section scan_hash [scan_input ''BTC'']"
  have a: "\<not> isl ?m \<and> projr ?m \<noteq> [] \<and> ob_candidate (hd (projr ?m)) \<noteq> None" by code_simp
  then have m: "?m = Inr (projr ?m)" by (cases ?m) auto
  from a have "hd (projr ?m) \<in> set (projr ?m)" by simp
  moreover from a have "ob_candidate (hd (projr ?m)) = Some scan_candidate" by (auto simp: scan_candidate_def)
  ultimately show ?thesis by (rule scanner_reach.discovered [OF m])
qed

theorem scanner_log_is_path_witness:
  "sc_state scan_candidate = LATE_WATCH \<and> sc_side scan_candidate \<noteq> None \<and>
   sc_breakout_level scan_candidate \<noteq> None \<and>
   (\<exists>ss. ss \<noteq> [] \<and> sc_transitions scan_candidate = transition_log ss \<and> last ss = LATE_WATCH)"
proof -
  have a: "sc_breakout_bar_open_time_ms scan_candidate \<noteq> None \<and> sc_state scan_candidate = LATE_WATCH"
    by code_simp
  with scanner_log_is_path [OF scan_candidate_reach] show ?thesis by auto
qed

theorem scan_order_independent_witness:
  "scan_cross_section scan_hash [scan_input ''ETH'', scan_input ''BTC''] =
     scan_cross_section scan_hash [scan_input ''BTC'', scan_input ''ETH''] \<and>
   [scan_input ''ETH'', scan_input ''BTC''] \<noteq> [scan_input ''BTC'', scan_input ''ETH'']"
proof
  have w: "list_all wf_bar scan_bars" by code_simp
  show "scan_cross_section scan_hash [scan_input ''ETH'', scan_input ''BTC''] =
     scan_cross_section scan_hash [scan_input ''BTC'', scan_input ''ETH'']"
    by (rule scan_order_independent) (use w in \<open>simp_all add: scan_input_def\<close>)
qed (simp add: scan_input_def)

text \<open>A breakout candidate of the first bar of a series, touched on its first bar.\<close>

definition retest_candidate :: scanner_candidate where
  "retest_candidate = \<lparr> sc_candidate_id = ''c'', sc_market_id = ''BTC'', sc_side = Some LONG,
     sc_state = RETEST_PENDING, sc_created_bar_open_time_ms = 900000,
     sc_breakout_bar_open_time_ms = Some 900000, sc_breakout_level = Some 100,
     sc_breakout_buffer = Some 1, sc_secondary_level_broken = False,
     sc_retest_touch_bar_open_time_ms = Some 1200000, sc_chase = Some CHASE_EARLY,
     sc_chase_distance_atr = Some 0, sc_reason = [], sc_transitions = [''NEW->RETEST_PENDING''],
     sc_scanner_version = SCANNER_VERSION, sc_parameter_version = PARAMETER_VERSION \<rparr>"

theorem scanner_candidate_resolves_witness:
  "\<exists>c'. advance_run (sample_5m 14) (\<lambda>_. 0) (\<lambda>_. False) (\<lambda>_. 4) [0 + 1..<0 + 15] retest_candidate = Inr c' \<and>
    classify_scanner_state (sc_state c') = TERMINAL \<and> candidate_core c' = candidate_core retest_candidate"
proof (rule scanner_candidate_resolves)
  show "series_of ''5m'' (sample_5m 14)" by code_simp
  show "0 + 14 \<le> length (sample_5m 14)" by (simp add: sample_5m_def)
  show "sc_breakout_bar_open_time_ms retest_candidate = Some (bar_open_time_ms (sample_5m 14 ! 0))"
    by (simp add: retest_candidate_def sample_5m_def)
  show "sc_breakout_level retest_candidate = Some 100" "sc_side retest_candidate = Some LONG"
    by (simp_all add: retest_candidate_def)
qed simp

theorem scanner_ready_rule_witness:
  "\<exists>c'. advance_scanner_candidate retest_candidate (sample_5m 3) 0 True (Some 4) = Inr c' \<and>
    sc_state c' = BREAKOUT_RETEST_READY \<and> 1200000 < bar_open_time_ms (last (sample_5m 3)) \<and>
    100 < bar_close (last (sample_5m 3))"
proof -
  let ?m = "advance_scanner_candidate retest_candidate (sample_5m 3) 0 True (Some 4)"
  have "\<not> isl ?m \<and> sc_state (projr ?m) = BREAKOUT_RETEST_READY" by code_simp
  then have m: "?m = Inr (projr ?m)" "sc_state (projr ?m) = BREAKOUT_RETEST_READY" by (cases ?m, auto)
  have s: "sc_state retest_candidate \<noteq> BREAKOUT_RETEST_READY" by (simp add: retest_candidate_def)
  from scanner_ready_rule [OF m(1) s m(2)] m show ?thesis
    by (intro exI [of _ "projr ?m"]) (auto simp: retest_candidate_def)
qed

end
