(* ===== verification/Outcome_Models.thy ===== *)
theory Outcome_Models
  imports Kernel_Types "HOL-Library.Log_Nat"
begin

text \<open>
  Contracts of the on-demand 1m outcome path,
  \<^verbatim>\<open>src/src/trader_assist_v0/multi_asset_shadow/outcome_engine/models.py\<close>. Each \<open>make_\<close> function is
  the constructor of a record with the checks of its \<open>__post_init__\<close> in the order of the code. The
  sides and setup families of this package have the values of those of the strategy kernel. Type
  tests (\<open>isinstance\<close>) and finiteness hold by typing.
\<close>

section \<open>Enumerations\<close>

definition ONE_MINUTE_MS :: int where "ONE_MINUTE_MS = 60000"

definition OUTCOME_HORIZONS_MINUTES :: "int list" where "OUTCOME_HORIZONS_MINUTES = [30, 60, 120]"

datatype shadow_state = FORMAL_SHADOW_PLAN | SHADOW_WATCH

datatype transition_kind =
    RETURN_INSIDE_RANGE | ACCEPTED_REENTRY | FAILED_BREAKOUT | RECLAIM_ATTEMPT | RECLAIM_SUCCEEDED
  | RECLAIM_FAILED

datatype admission_status = ADMITTED | DUPLICATE | CONFLICT | OUTSIDE_REQUIRED_WINDOW

datatype maturity_status = MS_PENDING | MS_MATURE | MS_GAPPED | MS_CONFLICTED | MS_DETACHED

datatype path_primary_result = STOP_FIRST | TP_FIRST | NO_HIT

datatype reclaim_status = RS_NOT_APPLICABLE | RS_UNRESOLVED | RS_SUCCEEDED | RS_FAILED

section \<open>Checks and texts\<close>

definition positive_finite :: "decimal \<Rightarrow> string \<Rightarrow> unit res" where
  "positive_finite v name =
     rguard (v \<le> 0) (OutcomeEngineError (name @ '' must be a positive finite Decimal''))"

text \<open>The characters \<open>str.strip\<close> removes, among the first 256 code points.\<close>

definition is_space :: "char \<Rightarrow> bool" where
  "is_space c \<longleftrightarrow> (let n = of_char c :: nat in 9 \<le> n \<and> n \<le> 13 \<or> 28 \<le> n \<and> n \<le> 32 \<or> n = 133 \<or> n = 160)"

definition exact_identifier :: "string \<Rightarrow> string \<Rightarrow> unit res" where
  "exact_identifier v name =
     rguard (v = [] \<or> is_space (hd v) \<or> is_space (last v))
       (OutcomeEngineError (name @ '' must be a non-empty exact identifier''))"

text \<open>
  \<open>format(value, "f")\<close> with the zeros after the point removed: the integer part, then the decimal
  digits until the rest is zero. A decimal with denominator \<open>d\<close> has at most \<open>floorlog 2 d\<close> of them.
\<close>

fun frac_digits :: "nat \<Rightarrow> rat \<Rightarrow> string" where
  "frac_digits 0 x = []"
| "frac_digits (Suc n) x =
     (if x = 0 then [] else int_str \<lfloor>10 * x\<rfloor> @ frac_digits n (10 * x - of_int \<lfloor>10 * x\<rfloor>))"

definition decimal_text :: "decimal \<Rightarrow> string" where
  "decimal_text v =
     (let a = \<bar>v\<bar>; f = a - of_int \<lfloor>a\<rfloor>;
          digits = frac_digits (floorlog 2 (nat (snd (quotient_of f)))) f
      in (if v < 0 then ''-'' else []) @ int_str \<lfloor>a\<rfloor> @ (if f = 0 then [] else ''.'' @ digits))"

section \<open>Plan views\<close>

record formal_shadow_view =
  fv_shadow_order_id :: string
  fv_market_id :: string
  fv_side :: side
  fv_setup_family :: setup_family
  fv_outcome_start_ms :: int
  fv_planned_entry :: decimal
  fv_stop :: decimal
  fv_tp1 :: decimal
  fv_atr :: decimal
  fv_tp2 :: "decimal option"
  fv_zone_low :: "decimal option"
  fv_zone_high :: "decimal option"
  fv_state :: shadow_state
  fv_active :: bool

definition sides_valid :: "formal_shadow_view \<Rightarrow> bool" where
  "sides_valid v \<longleftrightarrow>
     (if fv_side v = LONG
      then fv_stop v < fv_planned_entry v \<and> fv_planned_entry v < fv_tp1 v \<and>
        (case fv_tp2 v of None \<Rightarrow> True | Some t \<Rightarrow> fv_tp1 v \<le> t)
      else fv_tp1 v < fv_planned_entry v \<and> fv_planned_entry v < fv_stop v \<and>
        (case fv_tp2 v of None \<Rightarrow> True | Some t \<Rightarrow> t \<le> fv_tp1 v))"

definition make_view :: "formal_shadow_view \<Rightarrow> formal_shadow_view res" where
  "make_view v =
     rbind (exact_identifier (fv_shadow_order_id v) ''shadow_order_id'') (\<lambda>_.
     rbind (exact_identifier (fv_market_id v) ''market_id'') (\<lambda>_.
     rbind (rguard (fv_outcome_start_ms v < 0)
       (OutcomeEngineError ''outcome_start_ms must be non-negative'')) (\<lambda>_.
     rbind (rguard (fv_outcome_start_ms v mod ONE_MINUTE_MS \<noteq> 0)
       (OutcomeEngineError ''outcome_start_ms must be on a closed 1m boundary'')) (\<lambda>_.
     rbind (positive_finite (fv_planned_entry v) ''planned_entry'') (\<lambda>_.
     rbind (positive_finite (fv_stop v) ''stop'') (\<lambda>_.
     rbind (positive_finite (fv_tp1 v) ''tp1'') (\<lambda>_.
     rbind (positive_finite (fv_atr v) ''atr'') (\<lambda>_.
     rbind (case fv_tp2 v of None \<Rightarrow> Inr () | Some t \<Rightarrow> positive_finite t ''tp2'') (\<lambda>_.
     rbind (rguard ((fv_zone_low v = None) \<noteq> (fv_zone_high v = None))
       (OutcomeEngineError ''zone bounds must be provided together'')) (\<lambda>_.
     rbind (case (fv_zone_low v, fv_zone_high v) of
         (Some lo, Some hi) \<Rightarrow>
           rbind (positive_finite lo ''zone_low'') (\<lambda>_.
           rbind (positive_finite hi ''zone_high'') (\<lambda>_.
             rguard (hi \<le> lo) (OutcomeEngineError ''zone_low must be below zone_high'')))
       | _ \<Rightarrow> Inr ()) (\<lambda>_.
     rbind (rguard (\<not> sides_valid v)
       (OutcomeEngineError ''stop and targets are invalid for side'')) (\<lambda>_. Inr v))))))))))))"

definition view_risk_distance :: "formal_shadow_view \<Rightarrow> decimal" where
  "view_risk_distance v = dabs (dsub (fv_planned_entry v) (fv_stop v))"

definition original_deadline_ms :: "formal_shadow_view \<Rightarrow> int" where
  "original_deadline_ms v = fv_outcome_start_ms v + 120 * ONE_MINUTE_MS"

definition r_level :: "formal_shadow_view \<Rightarrow> decimal \<Rightarrow> decimal" where
  "r_level v multiple =
     (let distance = dmul (view_risk_distance v) multiple
      in if fv_side v = LONG then dadd (fv_planned_entry v) distance
         else dsub (fv_planned_entry v) distance)"

section \<open>One-minute bars\<close>

record one_minute_bar =
  om_market_id :: string
  om_open_time_ms :: int
  om_close_time_ms :: int
  om_open :: decimal
  om_high :: decimal
  om_low :: decimal
  om_close :: decimal
  om_canonical_hash :: string
  om_source_id :: string

definition payload_fields ::
  "string \<Rightarrow> int \<Rightarrow> int \<Rightarrow> decimal \<Rightarrow> decimal \<Rightarrow> decimal \<Rightarrow> decimal \<Rightarrow> string" where
  "payload_fields market open_ms close_ms op hi lo cl =
     join_str ''|'' [market, int_str open_ms, int_str close_ms, decimal_text op, decimal_text hi,
       decimal_text lo, decimal_text cl]"

definition hash_payload ::
  "hashing \<Rightarrow> string \<Rightarrow> int \<Rightarrow> int \<Rightarrow> decimal \<Rightarrow> decimal \<Rightarrow> decimal \<Rightarrow> decimal \<Rightarrow> string" where
  "hash_payload H market open_ms close_ms op hi lo cl =
     hexdigest H (payload_fields market open_ms close_ms op hi lo cl)"

definition bar_payload_hash :: "hashing \<Rightarrow> one_minute_bar \<Rightarrow> string" where
  "bar_payload_hash H b = hash_payload H (om_market_id b) (om_open_time_ms b) (om_close_time_ms b)
     (om_open b) (om_high b) (om_low b) (om_close b)"

definition make_one_minute_bar :: "hashing \<Rightarrow> one_minute_bar \<Rightarrow> one_minute_bar res" where
  "make_one_minute_bar H b =
     rbind (exact_identifier (om_market_id b) ''market_id'') (\<lambda>_.
     rbind (exact_identifier (om_source_id b) ''source_id'') (\<lambda>_.
     rbind (rguard (om_open_time_ms b < 0 \<or> om_open_time_ms b mod ONE_MINUTE_MS \<noteq> 0 \<or>
         om_close_time_ms b \<noteq> om_open_time_ms b + ONE_MINUTE_MS)
       (OutcomeEngineError ''bar must cover one exact aligned minute'')) (\<lambda>_.
     rbind (positive_finite (om_open b) ''open'') (\<lambda>_.
     rbind (positive_finite (om_high b) ''high'') (\<lambda>_.
     rbind (positive_finite (om_low b) ''low'') (\<lambda>_.
     rbind (positive_finite (om_close b) ''close'') (\<lambda>_.
     rbind (rguard (om_high b < max (om_open b) (max (om_close b) (om_low b)) \<or>
         min (om_open b) (min (om_close b) (om_high b)) < om_low b)
       (OutcomeEngineError ''bar OHLC range is invalid'')) (\<lambda>_.
     rbind (rguard (length (om_canonical_hash b) \<noteq> 64 \<or>
         \<not> list_all (\<lambda>c. c \<in> set ''0123456789abcdef'') (om_canonical_hash b))
       (OutcomeEngineError ''canonical_hash must be lowercase sha256 hex'')) (\<lambda>_.
     rbind (rguard (om_canonical_hash b \<noteq> bar_payload_hash H b)
       (OutcomeEngineError ''canonical_hash does not bind normalized 1m bar'')) (\<lambda>_. Inr b))))))))))"

definition create_one_minute_bar ::
  "hashing \<Rightarrow> string \<Rightarrow> int \<Rightarrow> decimal \<Rightarrow> decimal \<Rightarrow> decimal \<Rightarrow> decimal \<Rightarrow> string \<Rightarrow> one_minute_bar res" where
  "create_one_minute_bar H market open_ms op hi lo cl source =
     (let close_ms = open_ms + ONE_MINUTE_MS
      in make_one_minute_bar H
        \<lparr> om_market_id = market, om_open_time_ms = open_ms, om_close_time_ms = close_ms,
          om_open = op, om_high = hi, om_low = lo, om_close = cl,
          om_canonical_hash = hash_payload H market open_ms close_ms op hi lo cl,
          om_source_id = source \<rparr>)"

section \<open>Transitions, conflicts and outcomes\<close>

record outcome_transition_view =
  ot_transition_id :: string
  ot_shadow_order_id :: string
  ot_market_id :: string
  ot_kind :: transition_kind
  ot_occurred_at_ms :: int
  ot_reference_price :: "decimal option"

definition make_transition :: "outcome_transition_view \<Rightarrow> outcome_transition_view res" where
  "make_transition t =
     rbind (exact_identifier (ot_transition_id t) ''transition_id'') (\<lambda>_.
     rbind (exact_identifier (ot_shadow_order_id t) ''shadow_order_id'') (\<lambda>_.
     rbind (exact_identifier (ot_market_id t) ''market_id'') (\<lambda>_.
     rbind (rguard (ot_occurred_at_ms t < 0)
       (OutcomeEngineError ''occurred_at_ms must be non-negative'')) (\<lambda>_.
     rbind (rguard (ot_occurred_at_ms t mod ONE_MINUTE_MS \<noteq> 0)
       (OutcomeEngineError ''occurred_at_ms must be on a closed 1m boundary'')) (\<lambda>_.
     rbind (case ot_reference_price t of None \<Rightarrow> Inr () | Some p \<Rightarrow> positive_finite p ''reference_price'')
       (\<lambda>_. Inr t))))))"

record bar_conflict =
  bc_market_id :: string
  bc_open_time_ms :: int
  bc_retained_hash :: string
  bc_conflicting_hash :: string

record horizon_metrics =
  hm_horizon_minutes :: int
  hm_maturity :: maturity_status
  hm_window_end_ms :: int
  hm_mfe :: "decimal option"
  hm_mae :: "decimal option"
  hm_mfe_atr :: "decimal option"
  hm_mae_atr :: "decimal option"
  hm_one_r_hit :: bool
  hm_one_and_half_r_hit :: bool
  hm_two_r_hit :: bool
  hm_stop_hit :: bool

record reverse_horizon_metrics =
  rh_horizon_minutes :: int
  rh_maturity :: maturity_status
  rh_window_end_ms :: int
  rh_mfe :: "decimal option"
  rh_mae :: "decimal option"
  rh_mfe_atr :: "decimal option"
  rh_mae_atr :: "decimal option"

record path_evaluation =
  pe_primary_result :: path_primary_result
  pe_ambiguous_path :: bool
  pe_ambiguous_bar_open_times :: "int list"
  pe_stop_hit :: bool
  pe_stop_hit_time_ms :: "int option"
  pe_tp1_hit :: bool
  pe_tp1_hit_time_ms :: "int option"
  pe_tp2_hit :: bool
  pe_tp2_hit_time_ms :: "int option"
  pe_one_r_hit :: bool
  pe_one_and_half_r_hit :: bool
  pe_two_r_hit :: bool
  pe_time_to_one_r_ms :: "int option"
  pe_max_mfe_before_stop :: decimal
  pe_max_profit_giveback :: decimal
  pe_return_to_entry_after_profit :: bool

record failed_breakout_research =
  fr_failed_breakout :: bool
  fr_first_return_inside_range_time_ms :: "int option"
  fr_return_inside_range_depth_atr :: "decimal option"
  fr_accepted_reentry_time_ms :: "int option"
  fr_mfe_before_first_reentry :: "decimal option"
  fr_bars_outside_zone :: int
  fr_time_outside_zone_ms :: int
  fr_reclaim_attempt_count :: int
  fr_reclaim_status :: reclaim_status
  fr_mae_after_reentry :: "decimal option"
  fr_original_stop :: decimal
  fr_original_r :: decimal
  fr_original_stop_hit :: bool
  fr_reverse_anchor_time_ms :: "int option"
  fr_reverse_entry :: "decimal option"
  fr_hypothetical_reverse :: "reverse_horizon_metrics list"

record formal_shadow_outcome =
  fo_shadow_order_id :: string
  fo_market_id :: string
  fo_evaluated_at_ms :: int
  fo_required_start_ms :: int
  fo_original_deadline_ms :: int
  fo_required_end_ms :: int
  fo_path_maturity_status :: maturity_status
  fo_unresolved :: bool
  fo_horizons :: "horizon_metrics list"
  fo_path :: path_evaluation
  fo_time_to_retest_ms :: "int option"
  fo_return_inside_range :: bool
  fo_failed_breakout :: bool
  fo_research :: "failed_breakout_research option"
  fo_conflicts :: "bar_conflict list"

end
