(* ===== verification/Outcome.thy ===== *)
theory Outcome
  imports Outcome_Models
begin

text \<open>
  The deterministic outcome engine,
  \<^verbatim>\<open>src/src/trader_assist_v0/multi_asset_shadow/outcome_engine/engine.py\<close>. The engine object is a
  record that its methods return updated; its dictionaries are association lists in insertion order.
  The provider is a parameter: a function that answers backfill requests. The calls the engine makes
  on the provider and the sink are logged in the order in which they happen. A method that raises
  returns the error; what a caller could still observe of a half-updated engine is not modelled.
\<close>

section \<open>Windows and excursions\<close>

definition floor_minute :: "int \<Rightarrow> int" where
  "floor_minute t = t - t mod ONE_MINUTE_MS"

definition elapsed_end :: "int \<Rightarrow> int \<Rightarrow> int \<Rightarrow> int" where
  "elapsed_end start_ms end_ms as_of =
     (if as_of \<le> start_ms then start_ms else min end_ms (floor_minute as_of))"

text \<open>\<open>range(start_ms, end_ms, ONE_MINUTE_MS)\<close>.\<close>

definition minute_opens :: "int \<Rightarrow> int \<Rightarrow> int list" where
  "minute_opens start_ms end_ms =
     map (\<lambda>i. start_ms + int i * ONE_MINUTE_MS)
       [0..<nat ((end_ms - start_ms + (ONE_MINUTE_MS - 1)) div ONE_MINUTE_MS)]"

definition favorable_adverse ::
  "side \<Rightarrow> decimal \<Rightarrow> one_minute_bar list \<Rightarrow> decimal option \<times> decimal option" where
  "favorable_adverse sd entry bars =
     (if bars = [] then (None, None)
      else let up = max 0 (dsub (list_max (map om_high bars)) entry);
               down = max 0 (dsub entry (list_min (map om_low bars)))
           in if sd = LONG then (Some up, Some down) else (Some down, Some up))"

record profit_path =
  pp_prior_peak :: decimal
  pp_max_giveback :: decimal
  pp_returned :: bool

definition profit_step :: "side \<Rightarrow> decimal \<Rightarrow> one_minute_bar \<Rightarrow> profit_path \<Rightarrow> profit_path" where
  "profit_step sd entry b s =
     (let opening = max 0 (if sd = LONG then dsub (om_open b) entry else dsub entry (om_open b));
          favorable = max 0 (if sd = LONG then dsub (om_high b) entry else dsub entry (om_low b));
          crosses = (if sd = LONG then om_low b \<le> entry else entry \<le> om_high b);
          established = max (pp_prior_peak s) opening;
          retained = max 0 (if sd = LONG then dsub (om_low b) entry else dsub entry (om_high b));
          giveback = dsub established (min established retained);
          peak = max established favorable
      in if 0 < established
         then \<lparr> pp_prior_peak = peak, pp_max_giveback = max (pp_max_giveback s) giveback,
                pp_returned = (pp_returned s \<or> crosses) \<rparr>
         else s\<lparr> pp_prior_peak := peak \<rparr>)"

definition profit_path_statistics :: "side \<Rightarrow> decimal \<Rightarrow> one_minute_bar list \<Rightarrow> decimal \<times> bool" where
  "profit_path_statistics sd entry bars =
     (let s = fold (profit_step sd entry) bars
            \<lparr> pp_prior_peak = 0, pp_max_giveback = 0, pp_returned = False \<rparr>
      in (pp_max_giveback s, pp_returned s))"

section \<open>Path evaluation\<close>

definition reaches :: "formal_shadow_view \<Rightarrow> decimal \<Rightarrow> one_minute_bar \<Rightarrow> bool" where
  "reaches v level b \<longleftrightarrow> (if fv_side v = LONG then level \<le> om_high b else om_low b \<le> level)"

definition bar_stop :: "formal_shadow_view \<Rightarrow> one_minute_bar \<Rightarrow> bool" where
  "bar_stop v b \<longleftrightarrow> (if fv_side v = LONG then om_low b \<le> fv_stop v else fv_stop v \<le> om_high b)"

definition bar_tp1 :: "formal_shadow_view \<Rightarrow> one_minute_bar \<Rightarrow> bool" where
  "bar_tp1 v b \<longleftrightarrow> reaches v (fv_tp1 v) b"

definition bar_tp2 :: "formal_shadow_view \<Rightarrow> one_minute_bar \<Rightarrow> bool" where
  "bar_tp2 v b \<longleftrightarrow> (case fv_tp2 v of None \<Rightarrow> False | Some t \<Rightarrow> reaches v t b)"

definition bar_favorable :: "formal_shadow_view \<Rightarrow> one_minute_bar \<Rightarrow> decimal" where
  "bar_favorable v b = max 0 (if fv_side v = LONG then dsub (om_high b) (fv_planned_entry v)
     else dsub (fv_planned_entry v) (om_low b))"

definition first_hit :: "path_primary_result \<Rightarrow> path_primary_result \<Rightarrow> path_primary_result" where
  "first_hit primary r = (if primary = NO_HIT then r else primary)"

definition path_stopped :: "formal_shadow_view \<Rightarrow> one_minute_bar \<Rightarrow> path_evaluation \<Rightarrow> path_evaluation" where
  "path_stopped v b p =
     p\<lparr> pe_ambiguous_bar_open_times := pe_ambiguous_bar_open_times p @
           (if bar_tp1 v b \<or> bar_tp2 v b then [om_open_time_ms b] else []),
        pe_stop_hit := True, pe_stop_hit_time_ms := Some (om_close_time_ms b),
        pe_primary_result := first_hit (pe_primary_result p) STOP_FIRST \<rparr>"

definition path_continues :: "formal_shadow_view \<Rightarrow> one_minute_bar \<Rightarrow> path_evaluation \<Rightarrow> path_evaluation" where
  "path_continues v b p =
     (let p1 = (if bar_tp1 v b \<and> \<not> pe_tp1_hit p
            then p\<lparr> pe_tp1_hit := True, pe_tp1_hit_time_ms := Some (om_close_time_ms b),
                    pe_primary_result := first_hit (pe_primary_result p) TP_FIRST \<rparr>
            else p);
          p2 = (if bar_tp2 v b \<and> \<not> pe_tp2_hit p1
            then p1\<lparr> pe_tp2_hit := True, pe_tp2_hit_time_ms := Some (om_close_time_ms b),
                     pe_primary_result := first_hit (pe_primary_result p1) TP_FIRST \<rparr>
            else p1);
          p3 = (if reaches v (r_level v 1) b \<and> \<not> pe_one_r_hit p2
            then p2\<lparr> pe_one_r_hit := True,
                     pe_time_to_one_r_ms := Some (om_close_time_ms b - fv_outcome_start_ms v) \<rparr>
            else p2)
      in p3\<lparr> pe_one_and_half_r_hit := (pe_one_and_half_r_hit p3 \<or> reaches v (r_level v (3 / 2)) b),
              pe_two_r_hit := (pe_two_r_hit p3 \<or> reaches v (r_level v 2) b),
              pe_max_mfe_before_stop := max (pe_max_mfe_before_stop p3) (bar_favorable v b) \<rparr>)"

fun path_loop :: "formal_shadow_view \<Rightarrow> one_minute_bar list \<Rightarrow> path_evaluation \<Rightarrow> path_evaluation" where
  "path_loop v [] p = p"
| "path_loop v (b # bs) p =
     (if bar_stop v b then path_stopped v b p else path_loop v bs (path_continues v b p))"

definition path_start :: path_evaluation where
  "path_start = \<lparr> pe_primary_result = NO_HIT, pe_ambiguous_path = False, pe_ambiguous_bar_open_times = [],
     pe_stop_hit = False, pe_stop_hit_time_ms = None, pe_tp1_hit = False, pe_tp1_hit_time_ms = None,
     pe_tp2_hit = False, pe_tp2_hit_time_ms = None, pe_one_r_hit = False,
     pe_one_and_half_r_hit = False, pe_two_r_hit = False, pe_time_to_one_r_ms = None,
     pe_max_mfe_before_stop = 0, pe_max_profit_giveback = 0, pe_return_to_entry_after_profit = False \<rparr>"

definition evaluate_path :: "formal_shadow_view \<Rightarrow> one_minute_bar list \<Rightarrow> path_evaluation" where
  "evaluate_path v bars =
     (let stats = profit_path_statistics (fv_side v) (fv_planned_entry v) bars;
          p = path_loop v bars path_start
      in p\<lparr> pe_ambiguous_path := (pe_ambiguous_bar_open_times p \<noteq> []),
            pe_max_profit_giveback := fst stats, pe_return_to_entry_after_profit := snd stats \<rparr>)"

definition time_to_retest :: "formal_shadow_view \<Rightarrow> one_minute_bar list \<Rightarrow> int option" where
  "time_to_retest v bars =
     (case (fv_zone_low v, fv_zone_high v) of
        (Some lo, Some hi) \<Rightarrow>
          if fv_setup_family v \<noteq> BREAKOUT_RETEST then None
          else map_option (\<lambda>b. om_close_time_ms b - fv_outcome_start_ms v)
            (find (\<lambda>b. if fv_side v = LONG then om_low b \<le> hi else lo \<le> om_high b) bars)
      | _ \<Rightarrow> None)"

section \<open>The engine\<close>

record outcome_state =
  os_view :: formal_shadow_view
  os_transitions :: "(string \<times> outcome_transition_view) list"
  os_forced_detached :: bool

datatype provider_call =
    Subscribe_1m string
  | Unsubscribe_1m string
  | Save_outcome formal_shadow_outcome

type_synonym backfill = "string \<Rightarrow> int \<Rightarrow> int \<Rightarrow> one_minute_bar list"

record outcome_engine =
  oe_provider :: "backfill option"
  oe_has_sink :: bool
  oe_states :: "(string \<times> outcome_state) list"
  oe_bars :: "(string \<times> (int \<times> one_minute_bar) list) list"
  oe_conflicts :: "((string \<times> int) \<times> string set) list"
  oe_subscribed :: "string set"
  oe_last_saved :: "(string \<times> formal_shadow_outcome) list"
  oe_calls :: "provider_call list"

definition new_engine :: "backfill option \<Rightarrow> bool \<Rightarrow> outcome_engine" where
  "new_engine provider has_sink =
     \<lparr> oe_provider = provider, oe_has_sink = has_sink, oe_states = [], oe_bars = [],
       oe_conflicts = [], oe_subscribed = {}, oe_last_saved = [], oe_calls = [] \<rparr>"

definition attached_shadow_ids :: "outcome_engine \<Rightarrow> string list" where
  "attached_shadow_ids e = sort (map fst (oe_states e))"

definition subscription_requirements :: "outcome_engine \<Rightarrow> string list" where
  "subscription_requirements e = sorted_list_of_set (oe_subscribed e)"

definition lookup_state :: "outcome_engine \<Rightarrow> string \<Rightarrow> outcome_state res" where
  "lookup_state e sid =
     (case map_of (oe_states e) sid of
        None \<Rightarrow> Inl (OutcomeEngineError ''Formal Shadow is not attached'') | Some st \<Rightarrow> Inr st)"

definition validate_now :: "int \<Rightarrow> unit res" where
  "validate_now now =
     rguard (now < 0) (OutcomeEngineError ''time must be a non-negative integer millisecond'')"

definition extending :: "transition_kind \<Rightarrow> bool" where
  "extending k \<longleftrightarrow> k = ACCEPTED_REENTRY \<or> k = FAILED_BREAKOUT"

definition required_end :: "outcome_state \<Rightarrow> int" where
  "required_end st =
     (if fv_setup_family (os_view st) = BREAKOUT_RETEST
      then foldl (\<lambda>e t. if extending (ot_kind t) then max e (ot_occurred_at_ms t + 120 * ONE_MINUTE_MS) else e)
        (original_deadline_ms (os_view st)) (map snd (os_transitions st))
      else original_deadline_ms (os_view st))"

definition required_window :: "outcome_engine \<Rightarrow> string \<Rightarrow> (int \<times> int) res" where
  "required_window e sid =
     rbind (lookup_state e sid) (\<lambda>st. Inr (fv_outcome_start_ms (os_view st), required_end st))"

definition state_requires :: "outcome_state \<Rightarrow> string \<Rightarrow> int \<Rightarrow> bool" where
  "state_requires st market open_ms \<longleftrightarrow> fv_market_id (os_view st) = market \<and>
     fv_outcome_start_ms (os_view st) \<le> open_ms \<and> open_ms < required_end st"

definition requires_bar :: "outcome_engine \<Rightarrow> one_minute_bar \<Rightarrow> bool" where
  "requires_bar e b \<longleftrightarrow>
     list_ex (\<lambda>(_, st). state_requires st (om_market_id b) (om_open_time_ms b)) (oe_states e)"

definition market_bars :: "outcome_engine \<Rightarrow> string \<Rightarrow> (int \<times> one_minute_bar) list" where
  "market_bars e m = (case map_of (oe_bars e) m of None \<Rightarrow> [] | Some bs \<Rightarrow> bs)"

text \<open>\<open>self._bars.setdefault(market_id, {})\<close>.\<close>

definition ensure_market :: "string \<Rightarrow> outcome_engine \<Rightarrow> outcome_engine" where
  "ensure_market m e =
     (if map_of (oe_bars e) m = None then e\<lparr> oe_bars := aput m [] (oe_bars e) \<rparr> else e)"

definition synchronize_subscriptions :: "int \<Rightarrow> outcome_engine \<Rightarrow> outcome_engine" where
  "synchronize_subscriptions now e =
     (let required = (\<lambda>(_, st). fv_market_id (os_view st)) `
            set (filter (\<lambda>(_, st). \<not> os_forced_detached st \<and> now < required_end st) (oe_states e));
          calls = (case oe_provider e of None \<Rightarrow> []
            | Some _ \<Rightarrow> map Subscribe_1m (sorted_list_of_set (required - oe_subscribed e)) @
                 map Unsubscribe_1m (sorted_list_of_set (oe_subscribed e - required)))
      in e\<lparr> oe_subscribed := required, oe_calls := oe_calls e @ calls \<rparr>)"

definition admit_bar :: "one_minute_bar \<Rightarrow> outcome_engine \<Rightarrow> admission_status \<times> outcome_engine" where
  "admit_bar b e =
     (if \<not> requires_bar e b then (OUTSIDE_REQUIRED_WINDOW, e)
      else
        let m = om_market_id b; t = om_open_time_ms b; bs = market_bars e m in
        case map_of bs t of
          None \<Rightarrow> (ADMITTED, e\<lparr> oe_bars := aput m (aput t b bs) (oe_bars e) \<rparr>)
        | Some old \<Rightarrow>
            if om_canonical_hash old = om_canonical_hash b then (DUPLICATE, ensure_market m e)
            else
              let known = (case map_of (oe_conflicts e) (m, t) of None \<Rightarrow> {} | Some hs \<Rightarrow> hs);
                  kept = (if om_canonical_hash b < om_canonical_hash old then b else old)
              in (CONFLICT, e\<lparr> oe_conflicts := aput (m, t)
                     (known \<union> {om_canonical_hash old, om_canonical_hash b}) (oe_conflicts e),
                   oe_bars := aput m (aput t kept bs) (oe_bars e) \<rparr>))"

section \<open>Recovery\<close>

definition selected_states :: "outcome_engine \<Rightarrow> string list option \<Rightarrow> outcome_state list res" where
  "selected_states e sids =
     (case sids of None \<Rightarrow> Inr (map snd (oe_states e)) | Some ids \<Rightarrow> rmap (lookup_state e) ids)"

definition missing_points :: "outcome_engine \<Rightarrow> int \<Rightarrow> outcome_state \<Rightarrow> int set" where
  "missing_points e now st =
     (let v = os_view st; end_ms = elapsed_end (fv_outcome_start_ms v) (required_end st) now
      in set (filter (\<lambda>p. map_of (market_bars e (fv_market_id v)) p = None)
           (minute_opens (fv_outcome_start_ms v) end_ms)))"

definition note_missing ::
  "int \<Rightarrow> outcome_state \<Rightarrow> outcome_engine \<times> (string \<times> int set) list \<Rightarrow>
   outcome_engine \<times> (string \<times> int set) list" where
  "note_missing now st = (\<lambda>(e, missing).
     if os_forced_detached st then (e, missing)
     else let m = fv_market_id (os_view st);
              known = (case map_of missing m of None \<Rightarrow> {} | Some ps \<Rightarrow> ps)
          in (ensure_market m e, aput m (known \<union> missing_points e now st) missing))"

text \<open>
  The blocks of \<open>groupby(enumerate(points), ...)\<close>: a point joins the current block when its key
  \<open>point - index * ONE_MINUTE_MS\<close> equals that of the point before it. The key is constant along a
  block exactly when consecutive points are one minute apart.
\<close>

fun group_points :: "nat \<Rightarrow> int list \<Rightarrow> int list list" where
  "group_points i [] = []"
| "group_points i (p # ps) =
     (case group_points (Suc i) ps of
        (q # qs) # blocks \<Rightarrow>
          if p - int i * ONE_MINUTE_MS = q - int (Suc i) * ONE_MINUTE_MS
          then (p # q # qs) # blocks else [p] # (q # qs) # blocks
      | blocks \<Rightarrow> [p] # blocks)"

definition market_requests :: "string \<Rightarrow> int set \<Rightarrow> (string \<times> int \<times> int) list" where
  "market_requests m points =
     map (\<lambda>block. (m, hd block, last block + ONE_MINUTE_MS)) (group_points 0 (sorted_list_of_set points))"

definition recovery_requests ::
  "int \<Rightarrow> string list option \<Rightarrow> outcome_engine \<Rightarrow> ((string \<times> int \<times> int) list \<times> outcome_engine) res" where
  "recovery_requests now sids e =
     rbind (validate_now now) (\<lambda>_.
     rbind (selected_states e sids) (\<lambda>selected.
     let (e', missing) = fold (note_missing now) selected (e, [])
     in Inr (concat (map (\<lambda>(m, ps). market_requests m ps) (sort_key fst missing)), e')))"

definition admit_recovered ::
  "string \<Rightarrow> int \<Rightarrow> int \<Rightarrow> one_minute_bar \<Rightarrow> outcome_engine \<Rightarrow> outcome_engine res" where
  "admit_recovered m start_ms end_ms b e =
     (if om_market_id b \<noteq> m \<or> \<not> (start_ms \<le> om_open_time_ms b \<and> om_open_time_ms b < end_ms)
      then Inl (OutcomeEngineError ''backfill returned a bar outside its request'')
      else Inr (snd (admit_bar b e)))"

definition recover ::
  "int \<Rightarrow> string list option \<Rightarrow> outcome_engine \<Rightarrow> ((string \<times> int \<times> int) list \<times> outcome_engine) res" where
  "recover now sids e =
     rbind (validate_now now) (\<lambda>_.
     case oe_provider e of
       None \<Rightarrow> Inr ([], e)
     | Some backfill_1m \<Rightarrow>
         rbind (recovery_requests now sids e) (\<lambda>(requests, e1).
         rbind (rfold (\<lambda>(m, start_ms, end_ms). rfold (admit_recovered m start_ms end_ms)
             (backfill_1m m start_ms end_ms)) requests e1) (\<lambda>e2. Inr (requests, e2))))"

section \<open>Attachment\<close>

definition attach ::
  "formal_shadow_view \<Rightarrow> int \<Rightarrow> bool \<Rightarrow> outcome_engine \<Rightarrow> (bool \<times> outcome_engine) res" where
  "attach v now do_recover e =
     rbind (validate_now now) (\<lambda>_.
     if fv_state v \<noteq> FORMAL_SHADOW_PLAN \<or> \<not> fv_active v then Inr (False, e)
     else case map_of (oe_states e) (fv_shadow_order_id v) of
       Some old \<Rightarrow>
         if os_view old \<noteq> v
         then Inl (OutcomeEngineError ''shadow_order_id has conflicting Formal Shadow views'')
         else Inr (False, synchronize_subscriptions now e)
     | None \<Rightarrow>
         let st = \<lparr> os_view = v, os_transitions = [], os_forced_detached = False \<rparr>;
             e1 = synchronize_subscriptions now (ensure_market (fv_market_id v)
               (e\<lparr> oe_states := aput (fv_shadow_order_id v) st (oe_states e) \<rparr>))
         in if do_recover
            then rbind (recover now (Some [fv_shadow_order_id v]) e1) (\<lambda>(_, e2). Inr (True, e2))
            else Inr (True, e1))"

definition admit_transition ::
  "outcome_transition_view \<Rightarrow> int \<Rightarrow> bool \<Rightarrow> outcome_engine \<Rightarrow> (bool \<times> outcome_engine) res" where
  "admit_transition t now do_recover e =
     rbind (validate_now now) (\<lambda>_.
     rbind (lookup_state e (ot_shadow_order_id t)) (\<lambda>st.
     rbind (rguard (ot_market_id t \<noteq> fv_market_id (os_view st))
       (OutcomeEngineError ''transition market does not match Formal Shadow'')) (\<lambda>_.
     rbind (rguard (ot_occurred_at_ms t < fv_outcome_start_ms (os_view st))
       (OutcomeEngineError ''transition predates the Formal Shadow outcome'')) (\<lambda>_.
     rbind (rguard (now < ot_occurred_at_ms t)
       (OutcomeEngineError ''transition cannot be admitted before it occurs'')) (\<lambda>_.
     rbind (rguard (extending (ot_kind t) \<and> fv_setup_family (os_view st) \<noteq> BREAKOUT_RETEST)
       (OutcomeEngineError ''breakout transition cannot extend a non-breakout plan'')) (\<lambda>_.
     case map_of (os_transitions st) (ot_transition_id t) of
       Some old \<Rightarrow>
         if old \<noteq> t then Inl (OutcomeEngineError ''transition_id has conflicting evidence'')
         else Inr (False, e)
     | None \<Rightarrow>
         let st' = st\<lparr> os_transitions := aput (ot_transition_id t) t (os_transitions st) \<rparr>;
             e1 = synchronize_subscriptions now
               (e\<lparr> oe_states := aput (ot_shadow_order_id t) st' (oe_states e) \<rparr>)
         in if do_recover
            then rbind (recover now (Some [ot_shadow_order_id t]) e1) (\<lambda>(_, e2). Inr (True, e2))
            else Inr (True, e1)))))))"

definition detach :: "string \<Rightarrow> int \<Rightarrow> outcome_engine \<Rightarrow> (bool \<times> outcome_engine) res" where
  "detach sid now e =
     rbind (validate_now now) (\<lambda>_.
     rbind (lookup_state e sid) (\<lambda>st.
     if os_forced_detached st then Inr (False, e)
     else Inr (True, synchronize_subscriptions now
       (e\<lparr> oe_states := aput sid (st\<lparr> os_forced_detached := True \<rparr>) (oe_states e) \<rparr>))))"

section \<open>Evaluation\<close>

definition state_conflicts :: "outcome_engine \<Rightarrow> outcome_state \<Rightarrow> bar_conflict list" where
  "state_conflicts e st =
     sort_key (\<lambda>c. (bc_open_time_ms c, bc_retained_hash c, bc_conflicting_hash c))
       (concat (map (\<lambda>((m, t), hashes).
          if state_requires st m t
          then let ordered = sorted_list_of_set hashes
               in map (\<lambda>h. \<lparr> bc_market_id = m, bc_open_time_ms = t, bc_retained_hash = hd ordered,
                              bc_conflicting_hash = h \<rparr>) (tl ordered)
          else []) (oe_conflicts e)))"

definition window_status :: "outcome_engine \<Rightarrow> outcome_state \<Rightarrow> int \<Rightarrow> int \<Rightarrow> int \<Rightarrow> maturity_status" where
  "window_status e st start_ms end_ms as_of =
     (let ee = elapsed_end start_ms end_ms as_of;
          m = fv_market_id (os_view st);
          admitted = map_of (market_bars e m)
      in if list_ex (\<lambda>((m', t), _). m' = m \<and> start_ms \<le> t \<and> t < ee) (oe_conflicts e) then MS_CONFLICTED
         else if list_ex (\<lambda>p. admitted p = None) (minute_opens start_ms ee) then MS_GAPPED
         else if as_of < end_ms then MS_PENDING
         else if list_ex (\<lambda>p. admitted p = None) (minute_opens start_ms end_ms) then MS_GAPPED
         else MS_MATURE)"

definition usable_bars :: "outcome_engine \<Rightarrow> outcome_state \<Rightarrow> int \<Rightarrow> int \<Rightarrow> int \<Rightarrow> one_minute_bar list" where
  "usable_bars e st start_ms end_ms as_of =
     (let status = window_status e st start_ms end_ms as_of
      in if status = MS_GAPPED \<or> status = MS_CONFLICTED then []
         else map (\<lambda>p. the (map_of (market_bars e (fv_market_id (os_view st))) p))
           (minute_opens start_ms (elapsed_end start_ms end_ms as_of)))"

definition per_atr :: "formal_shadow_view \<Rightarrow> decimal option \<Rightarrow> decimal option" where
  "per_atr v x = map_option (\<lambda>d. ddiv d (fv_atr v)) x"

definition horizon :: "outcome_engine \<Rightarrow> outcome_state \<Rightarrow> int \<Rightarrow> int \<Rightarrow> horizon_metrics" where
  "horizon e st minutes as_of =
     (let v = os_view st;
          end_ms = fv_outcome_start_ms v + minutes * ONE_MINUTE_MS;
          bars = usable_bars e st (fv_outcome_start_ms v) end_ms as_of;
          (mfe, mae) = favorable_adverse (fv_side v) (fv_planned_entry v) bars;
          path = evaluate_path v bars
      in \<lparr> hm_horizon_minutes = minutes,
           hm_maturity = window_status e st (fv_outcome_start_ms v) end_ms as_of,
           hm_window_end_ms = end_ms, hm_mfe = mfe, hm_mae = mae,
           hm_mfe_atr = per_atr v mfe, hm_mae_atr = per_atr v mae,
           hm_one_r_hit = pe_one_r_hit path, hm_one_and_half_r_hit = pe_one_and_half_r_hit path,
           hm_two_r_hit = pe_two_r_hit path, hm_stop_hit = pe_stop_hit path \<rparr>)"

definition transitions_of :: "outcome_state \<Rightarrow> transition_kind set \<Rightarrow> outcome_transition_view list" where
  "transitions_of st kinds =
     sort_key (\<lambda>t. (ot_occurred_at_ms t, ot_transition_id t))
       (filter (\<lambda>t. ot_kind t \<in> kinds) (map snd (os_transitions st)))"

definition has_existing_failure_transition :: "outcome_state \<Rightarrow> bool" where
  "has_existing_failure_transition st \<longleftrightarrow> transitions_of st {ACCEPTED_REENTRY, FAILED_BREAKOUT} \<noteq> []"

definition first_time :: "outcome_transition_view list \<Rightarrow> int option" where
  "first_time ts = (case ts of [] \<Rightarrow> None | t # _ \<Rightarrow> Some (ot_occurred_at_ms t))"

definition inside_depth :: "formal_shadow_view \<Rightarrow> decimal \<Rightarrow> decimal \<Rightarrow> decimal \<Rightarrow> decimal" where
  "inside_depth v lo hi price =
     ddiv (max 0 (if fv_side v = LONG then dsub hi price else dsub price lo)) (fv_atr v)"

text \<open>The first return inside the range and its depth: lines 687 to 715 of the module.\<close>

definition first_return ::
  "formal_shadow_view \<Rightarrow> one_minute_bar list \<Rightarrow> outcome_transition_view list \<Rightarrow> int option \<times> decimal option" where
  "first_return v bars returns_ts =
     (case (fv_zone_low v, fv_zone_high v) of
        (Some lo, Some hi) \<Rightarrow>
          (case returns_ts of
             t # _ \<Rightarrow> (Some (ot_occurred_at_ms t), map_option (inside_depth v lo hi) (ot_reference_price t))
           | [] \<Rightarrow>
               (case find (\<lambda>b. if fv_side v = LONG then om_close b \<le> hi else lo \<le> om_close b) bars of
                  None \<Rightarrow> (None, None)
                | Some b \<Rightarrow> (Some (om_close_time_ms b), Some (inside_depth v lo hi (om_close b)))))
      | _ \<Rightarrow> (first_time returns_ts, None))"

definition outside_zone_count :: "formal_shadow_view \<Rightarrow> one_minute_bar list \<Rightarrow> int" where
  "outside_zone_count v bars =
     (case (fv_zone_low v, fv_zone_high v) of
        (Some lo, Some hi) \<Rightarrow>
          int (length (filter (\<lambda>b. if fv_side v = LONG then hi < om_close b else om_close b < lo) bars))
      | _ \<Rightarrow> 0)"

definition reclaim_of :: "outcome_state \<Rightarrow> bool \<Rightarrow> reclaim_status" where
  "reclaim_of st failed =
     (let succeeded = transitions_of st {RECLAIM_SUCCEEDED};
          failed_reclaim = transitions_of st {RECLAIM_FAILED}
      in if succeeded \<noteq> [] \<and> failed_reclaim \<noteq> []
         then (if ot_occurred_at_ms (hd succeeded) < ot_occurred_at_ms (hd failed_reclaim)
               then RS_SUCCEEDED else RS_FAILED)
         else if succeeded \<noteq> [] then RS_SUCCEEDED
         else if failed_reclaim \<noteq> [] \<or> transitions_of st {FAILED_BREAKOUT} \<noteq> [] then RS_FAILED
         else if failed then RS_UNRESOLVED else RS_NOT_APPLICABLE)"

definition transition_reference ::
  "outcome_engine \<Rightarrow> outcome_state \<Rightarrow> outcome_transition_view \<Rightarrow> decimal option" where
  "transition_reference e st t =
     (case ot_reference_price t of
        Some p \<Rightarrow> Some p
      | None \<Rightarrow> map_option om_close (min_by (\<lambda>b. - om_close_time_ms b)
          (filter (\<lambda>b. om_close_time_ms b \<le> ot_occurred_at_ms t)
            (map snd (market_bars e (fv_market_id (os_view st)))))))"

definition reverse_horizon ::
  "outcome_engine \<Rightarrow> outcome_state \<Rightarrow> int \<Rightarrow> decimal \<Rightarrow> int \<Rightarrow> int \<Rightarrow> reverse_horizon_metrics" where
  "reverse_horizon e st anchor entry as_of minutes =
     (let end_ms = anchor + minutes * ONE_MINUTE_MS;
          (mfe, mae) = favorable_adverse (opposite (fv_side (os_view st))) entry
            (usable_bars e st anchor end_ms as_of)
      in \<lparr> rh_horizon_minutes = minutes, rh_maturity = window_status e st anchor end_ms as_of,
           rh_window_end_ms = end_ms, rh_mfe = mfe, rh_mae = mae,
           rh_mfe_atr = per_atr (os_view st) mfe, rh_mae_atr = per_atr (os_view st) mae \<rparr>)"

definition reverse_horizons ::
  "outcome_engine \<Rightarrow> outcome_state \<Rightarrow> int \<Rightarrow> decimal \<Rightarrow> int \<Rightarrow> reverse_horizon_metrics list" where
  "reverse_horizons e st anchor entry as_of =
     map (reverse_horizon e st anchor entry as_of) OUTCOME_HORIZONS_MINUTES"

text \<open>\<open>first_return_time or accepted_time\<close>: a time of zero counts as absent.\<close>

definition py_or :: "int option \<Rightarrow> int option \<Rightarrow> int option" where
  "py_or a b = (case a of None \<Rightarrow> b | Some x \<Rightarrow> if x = 0 then b else a)"

definition failed_breakout_research_of ::
  "outcome_engine \<Rightarrow> outcome_state \<Rightarrow> int \<Rightarrow> failed_breakout_research option" where
  "failed_breakout_research_of e st as_of =
     (let v = os_view st in
      if fv_setup_family v \<noteq> BREAKOUT_RETEST then None
      else
        let bars = usable_bars e st (fv_outcome_start_ms v) (original_deadline_ms v) as_of;
            accepted = transitions_of st {ACCEPTED_REENTRY};
            failures = transitions_of st {FAILED_BREAKOUT};
            (return_time, depth) = first_return v bars (transitions_of st {RETURN_INSIDE_RANGE});
            accepted_time = first_time accepted;
            failed = (accepted_time \<noteq> None \<or> failures \<noteq> []);
            pre_reentry = (case py_or return_time accepted_time of
                None \<Rightarrow> bars | Some c \<Rightarrow> filter (\<lambda>b. om_close_time_ms b < c) bars);
            outside = outside_zone_count v pre_reentry;
            anchor = (case failures of t # _ \<Rightarrow> Some t
              | [] \<Rightarrow> (case accepted of t # _ \<Rightarrow> Some t | [] \<Rightarrow> None));
            entry = Option.bind anchor (transition_reference e st);
            after = (case accepted_time of None \<Rightarrow> []
              | Some a \<Rightarrow> filter (\<lambda>b. a \<le> om_open_time_ms b)
                  (usable_bars e st (fv_outcome_start_ms v) (required_end st) as_of))
        in Some \<lparr> fr_failed_breakout = failed,
             fr_first_return_inside_range_time_ms = return_time,
             fr_return_inside_range_depth_atr = depth, fr_accepted_reentry_time_ms = accepted_time,
             fr_mfe_before_first_reentry =
               fst (favorable_adverse (fv_side v) (fv_planned_entry v) pre_reentry),
             fr_bars_outside_zone = outside, fr_time_outside_zone_ms = outside * ONE_MINUTE_MS,
             fr_reclaim_attempt_count = int (length (transitions_of st {RECLAIM_ATTEMPT})),
             fr_reclaim_status = reclaim_of st failed,
             fr_mae_after_reentry = snd (favorable_adverse (fv_side v) (fv_planned_entry v) after),
             fr_original_stop = fv_stop v, fr_original_r = view_risk_distance v,
             fr_original_stop_hit = pe_stop_hit (evaluate_path v bars),
             fr_reverse_anchor_time_ms = map_option ot_occurred_at_ms anchor,
             fr_reverse_entry = entry,
             fr_hypothetical_reverse = (case (anchor, entry) of
               (Some t, Some p) \<Rightarrow> reverse_horizons e st (ot_occurred_at_ms t) p as_of | _ \<Rightarrow> []) \<rparr>)"

definition evaluate_state :: "outcome_engine \<Rightarrow> outcome_state \<Rightarrow> int \<Rightarrow> formal_shadow_outcome" where
  "evaluate_state e st as_of =
     (let v = os_view st;
          start_ms = fv_outcome_start_ms v;
          deadline = original_deadline_ms v;
          req_end = required_end st;
          original_status = window_status e st start_ms deadline as_of;
          bars = usable_bars e st start_ms deadline as_of;
          raw = window_status e st start_ms req_end as_of;
          overall = (if os_forced_detached st \<and> raw = MS_PENDING then MS_DETACHED else raw);
          research = failed_breakout_research_of e st as_of;
          return_inside = (case research of None \<Rightarrow> False
            | Some r \<Rightarrow> fr_first_return_inside_range_time_ms r \<noteq> None);
          broken = (original_status = MS_GAPPED \<or> original_status = MS_CONFLICTED)
      in \<lparr> fo_shadow_order_id = fv_shadow_order_id v, fo_market_id = fv_market_id v,
           fo_evaluated_at_ms = as_of, fo_required_start_ms = start_ms,
           fo_original_deadline_ms = deadline, fo_required_end_ms = req_end,
           fo_path_maturity_status = overall, fo_unresolved = (overall \<noteq> MS_MATURE),
           fo_horizons = map (\<lambda>minutes. horizon e st minutes as_of) OUTCOME_HORIZONS_MINUTES,
           fo_path = (if broken then evaluate_path v [] else evaluate_path v bars),
           fo_time_to_retest_ms = (if broken then None else time_to_retest v bars),
           fo_return_inside_range =
             (if broken \<and> \<not> has_existing_failure_transition st then False else return_inside),
           fo_failed_breakout = (case research of None \<Rightarrow> False | Some r \<Rightarrow> fr_failed_breakout r),
           fo_research = research, fo_conflicts = state_conflicts e st \<rparr>)"

definition evaluate_outcome :: "string \<Rightarrow> int \<Rightarrow> outcome_engine \<Rightarrow> formal_shadow_outcome res" where
  "evaluate_outcome sid as_of e =
     rbind (validate_now as_of) (\<lambda>_. rbind (lookup_state e sid) (\<lambda>st. Inr (evaluate_state e st as_of)))"

section \<open>Ticks and reconstruction\<close>

definition required_somewhere :: "outcome_engine \<Rightarrow> string \<Rightarrow> int \<Rightarrow> bool" where
  "required_somewhere e m t \<longleftrightarrow> list_ex (\<lambda>(_, st). state_requires st m t) (oe_states e)"

definition prune_inactive_bars :: "outcome_engine \<Rightarrow> outcome_engine" where
  "prune_inactive_bars e =
     e\<lparr> oe_bars := map (\<lambda>(m, bs). (m, filter (\<lambda>(t, _). required_somewhere e m t) bs))
           (filter (\<lambda>(m, _). list_ex (\<lambda>(_, st). fv_market_id (os_view st) = m) (oe_states e)) (oe_bars e)),
        oe_conflicts := filter (\<lambda>((m, t), _). required_somewhere e m t) (oe_conflicts e) \<rparr>"

definition save_changed :: "formal_shadow_outcome \<Rightarrow> outcome_engine \<Rightarrow> outcome_engine" where
  "save_changed out e =
     (if map_of (oe_last_saved e) (fo_shadow_order_id out) \<noteq> Some out
      then e\<lparr> oe_calls := oe_calls e @ [Save_outcome out],
              oe_last_saved := aput (fo_shadow_order_id out) out (oe_last_saved e) \<rparr>
      else e)"

definition drop_completed :: "string list \<Rightarrow> outcome_engine \<Rightarrow> outcome_engine" where
  "drop_completed sids e =
     e\<lparr> oe_states := filter (\<lambda>(k, _). k \<notin> set sids) (oe_states e),
        oe_last_saved := filter (\<lambda>(k, _). k \<notin> set sids) (oe_last_saved e) \<rparr>"

definition tick ::
  "int \<Rightarrow> bool \<Rightarrow> outcome_engine \<Rightarrow> (formal_shadow_outcome list \<times> outcome_engine) res" where
  "tick now do_recover e =
     rbind (validate_now now) (\<lambda>_.
     rbind (if do_recover then rbind (recover now None e) (\<lambda>(_, e1). Inr e1) else Inr e) (\<lambda>e1.
     rbind (rmap (\<lambda>sid. evaluate_outcome sid now e1) (attached_shadow_ids e1)) (\<lambda>outcomes.
     let e2 = (if oe_has_sink e1 then fold save_changed outcomes e1 else e1);
         completed = map fo_shadow_order_id
           (filter (\<lambda>out. \<not> fo_unresolved out \<and> fo_required_end_ms out \<le> now) outcomes);
         e3 = drop_completed completed e2;
         e4 = (if completed \<noteq> [] then prune_inactive_bars e3 else e3)
     in Inr (outcomes, synchronize_subscriptions now e4))))"

definition reconstruct ::
  "formal_shadow_view list \<Rightarrow> outcome_transition_view list \<Rightarrow> one_minute_bar list \<Rightarrow> int \<Rightarrow>
   backfill option \<Rightarrow> bool \<Rightarrow> bool \<Rightarrow> outcome_engine res" where
  "reconstruct shadows transitions bars now provider has_sink do_recover =
     rbind (rfold (\<lambda>v e. rbind (attach v now False e) (\<lambda>(_, e'). Inr e'))
       (sort_key fv_shadow_order_id shadows) (new_engine provider has_sink)) (\<lambda>e1.
     rbind (rfold (\<lambda>t e. rbind (admit_transition t now False e) (\<lambda>(_, e'). Inr e'))
       (sort_key (\<lambda>t. (ot_occurred_at_ms t, ot_transition_id t)) transitions) e1) (\<lambda>e2.
     let e3 = fold (\<lambda>b e. snd (admit_bar b e))
           (sort_key (\<lambda>b. (om_market_id b, om_open_time_ms b, om_canonical_hash b)) bars) e2;
         e4 = synchronize_subscriptions now e3
     in if do_recover then rbind (recover now None e4) (\<lambda>(_, e5). Inr e5) else Inr e4))"

end
