(* ===== verification/Outcome_Props.thy ===== *)
theory Outcome_Props
  imports Outcome
begin

text \<open>
  Properties of the outcome engine: the path evaluation against a declarative reference, admission
  of bars against a specification by sets of hashes, maturity, recovery of gaps, subscriptions and
  pruning.
\<close>

section \<open>Path evaluation\<close>

abbreviation until_stop :: "formal_shadow_view \<Rightarrow> one_minute_bar list \<Rightarrow> one_minute_bar list" where
  "until_stop v bars \<equiv> takeWhile (\<lambda>b. \<not> bar_stop v b) bars"

lemma path_loop_fold:
  "path_loop v bars p =
     (let q = fold (path_continues v) (until_stop v bars) p
      in case find (bar_stop v) bars of None \<Rightarrow> q | Some b \<Rightarrow> path_stopped v b q)"
  by (induction bars arbitrary: p) auto

lemma path_continues_simps:
  "pe_stop_hit (path_continues v b p) = pe_stop_hit p"
  "pe_stop_hit_time_ms (path_continues v b p) = pe_stop_hit_time_ms p"
  "pe_ambiguous_bar_open_times (path_continues v b p) = pe_ambiguous_bar_open_times p"
  "pe_tp1_hit (path_continues v b p) = (pe_tp1_hit p \<or> bar_tp1 v b)"
  "pe_tp2_hit (path_continues v b p) = (pe_tp2_hit p \<or> bar_tp2 v b)"
  "pe_one_r_hit (path_continues v b p) = (pe_one_r_hit p \<or> reaches v (r_level v 1) b)"
  "pe_one_and_half_r_hit (path_continues v b p) = (pe_one_and_half_r_hit p \<or> reaches v (r_level v (3 / 2)) b)"
  "pe_two_r_hit (path_continues v b p) = (pe_two_r_hit p \<or> reaches v (r_level v 2) b)"
  "pe_max_mfe_before_stop (path_continues v b p) = max (pe_max_mfe_before_stop p) (bar_favorable v b)"
  "pe_tp1_hit_time_ms (path_continues v b p) =
     (if bar_tp1 v b \<and> \<not> pe_tp1_hit p then Some (om_close_time_ms b) else pe_tp1_hit_time_ms p)"
  "pe_tp2_hit_time_ms (path_continues v b p) =
     (if bar_tp2 v b \<and> \<not> pe_tp2_hit p then Some (om_close_time_ms b) else pe_tp2_hit_time_ms p)"
  "pe_time_to_one_r_ms (path_continues v b p) =
     (if reaches v (r_level v 1) b \<and> \<not> pe_one_r_hit p
      then Some (om_close_time_ms b - fv_outcome_start_ms v) else pe_time_to_one_r_ms p)"
  by (auto simp: path_continues_def Let_def)

lemma path_continues_primary:
  assumes "pe_primary_result p \<noteq> STOP_FIRST" and "pe_tp1_hit p \<or> pe_tp2_hit p \<longrightarrow> pe_primary_result p = TP_FIRST"
  shows "pe_primary_result (path_continues v b p) =
    (if pe_primary_result p = TP_FIRST \<or> bar_tp1 v b \<or> bar_tp2 v b then TP_FIRST else NO_HIT)"
  using assms by (cases "pe_primary_result p") (auto simp: path_continues_def Let_def first_hit_def)

lemma path_start_simps [simp]:
  "pe_primary_result path_start = NO_HIT" "pe_ambiguous_bar_open_times path_start = []"
  "\<not> pe_stop_hit path_start" "pe_stop_hit_time_ms path_start = None"
  "\<not> pe_tp1_hit path_start" "pe_tp1_hit_time_ms path_start = None"
  "\<not> pe_tp2_hit path_start" "pe_tp2_hit_time_ms path_start = None"
  "\<not> pe_one_r_hit path_start" "\<not> pe_one_and_half_r_hit path_start" "\<not> pe_two_r_hit path_start"
  "pe_time_to_one_r_ms path_start = None" "pe_max_mfe_before_stop path_start = 0"
  by (simp_all add: path_start_def)

text \<open>The first time of a hit along a fold that remembers whether it has happened.\<close>

lemma fold_hits:
  fixes v :: formal_shadow_view and bs :: "one_minute_bar list" and p :: path_evaluation
  defines "q \<equiv> fold (path_continues v) bs p"
  shows "pe_stop_hit q = pe_stop_hit p" "pe_stop_hit_time_ms q = pe_stop_hit_time_ms p"
    "pe_ambiguous_bar_open_times q = pe_ambiguous_bar_open_times p"
    "pe_tp1_hit q = (pe_tp1_hit p \<or> (\<exists>b \<in> set bs. bar_tp1 v b))"
    "pe_tp2_hit q = (pe_tp2_hit p \<or> (\<exists>b \<in> set bs. bar_tp2 v b))"
    "pe_one_r_hit q = (pe_one_r_hit p \<or> (\<exists>b \<in> set bs. reaches v (r_level v 1) b))"
    "pe_one_and_half_r_hit q = (pe_one_and_half_r_hit p \<or> (\<exists>b \<in> set bs. reaches v (r_level v (3 / 2)) b))"
    "pe_two_r_hit q = (pe_two_r_hit p \<or> (\<exists>b \<in> set bs. reaches v (r_level v 2) b))"
    "pe_max_mfe_before_stop q = fold max (map (bar_favorable v) bs) (pe_max_mfe_before_stop p)"
  unfolding q_def by (induction bs arbitrary: p) (auto simp: path_continues_simps max.commute)

lemma fold_times:
  fixes v :: formal_shadow_view and bs :: "one_minute_bar list" and p :: path_evaluation
  defines "q \<equiv> fold (path_continues v) bs p"
  shows "pe_tp1_hit_time_ms q = (if pe_tp1_hit p then pe_tp1_hit_time_ms p
      else case find (bar_tp1 v) bs of None \<Rightarrow> pe_tp1_hit_time_ms p | Some b \<Rightarrow> Some (om_close_time_ms b))"
    and "pe_tp2_hit_time_ms q = (if pe_tp2_hit p then pe_tp2_hit_time_ms p
      else case find (bar_tp2 v) bs of None \<Rightarrow> pe_tp2_hit_time_ms p | Some b \<Rightarrow> Some (om_close_time_ms b))"
    and "pe_time_to_one_r_ms q = (if pe_one_r_hit p then pe_time_to_one_r_ms p
      else case find (reaches v (r_level v 1)) bs of None \<Rightarrow> pe_time_to_one_r_ms p
        | Some b \<Rightarrow> Some (om_close_time_ms b - fv_outcome_start_ms v))"
  unfolding q_def by (induction bs arbitrary: p) (auto simp: path_continues_simps split: option.splits)

lemma fold_primary:
  assumes "pe_primary_result p \<noteq> STOP_FIRST" and "pe_tp1_hit p \<or> pe_tp2_hit p \<longrightarrow> pe_primary_result p = TP_FIRST"
  shows "pe_primary_result (fold (path_continues v) bs p) =
    (if pe_primary_result p = TP_FIRST \<or> (\<exists>b \<in> set bs. bar_tp1 v b \<or> bar_tp2 v b) then TP_FIRST else NO_HIT)"
  using assms
proof (induction bs arbitrary: p)
  case Nil
  then show ?case by (cases "pe_primary_result p") auto
next
  case (Cons b bs)
  have pr: "pe_primary_result (path_continues v b p) =
      (if pe_primary_result p = TP_FIRST \<or> bar_tp1 v b \<or> bar_tp2 v b then TP_FIRST else NO_HIT)"
    by (rule path_continues_primary [OF Cons.prems])
  show ?case
    using Cons.prems by (simp add: Cons.IH [of "path_continues v b p"] pr path_continues_simps)
qed

text \<open>
  C24: the single pass over the bars computes the conservative reading of the path. Only
  bars strictly before the first bar that touches the stop count for targets, R multiples and the
  best excursion; the stop is reported with the close of that first bar; a bar that touches the stop
  and a target counts as the stop and is reported as ambiguous; the primary result is a target
  only if some bar before the stop reaches one.
\<close>

theorem evaluate_path_reference:
  "evaluate_path v bars =
    (let pre = takeWhile (\<lambda>b. \<not> bar_stop v b) bars; stop_bar = find (bar_stop v) bars;
         amb = (case stop_bar of None \<Rightarrow> []
           | Some b \<Rightarrow> if bar_tp1 v b \<or> bar_tp2 v b then [om_open_time_ms b] else [])
     in \<lparr> pe_primary_result =
            (if \<exists>b \<in> set pre. bar_tp1 v b \<or> bar_tp2 v b then TP_FIRST
             else if \<exists>b \<in> set bars. bar_stop v b then STOP_FIRST else NO_HIT),
          pe_ambiguous_path = (amb \<noteq> []), pe_ambiguous_bar_open_times = amb,
          pe_stop_hit = (\<exists>b \<in> set bars. bar_stop v b),
          pe_stop_hit_time_ms = map_option om_close_time_ms stop_bar,
          pe_tp1_hit = (\<exists>b \<in> set pre. bar_tp1 v b),
          pe_tp1_hit_time_ms = map_option om_close_time_ms (find (bar_tp1 v) pre),
          pe_tp2_hit = (\<exists>b \<in> set pre. bar_tp2 v b),
          pe_tp2_hit_time_ms = map_option om_close_time_ms (find (bar_tp2 v) pre),
          pe_one_r_hit = (\<exists>b \<in> set pre. reaches v (r_level v 1) b),
          pe_one_and_half_r_hit = (\<exists>b \<in> set pre. reaches v (r_level v (3 / 2)) b),
          pe_two_r_hit = (\<exists>b \<in> set pre. reaches v (r_level v 2) b),
          pe_time_to_one_r_ms = map_option (\<lambda>b. om_close_time_ms b - fv_outcome_start_ms v)
            (find (reaches v (r_level v 1)) pre),
          pe_max_mfe_before_stop = Max (insert 0 (bar_favorable v ` set pre)),
          pe_max_profit_giveback = fst (profit_path_statistics (fv_side v) (fv_planned_entry v) bars),
          pe_return_to_entry_after_profit =
            snd (profit_path_statistics (fv_side v) (fv_planned_entry v) bars) \<rparr>)"
proof -
  let ?pre = "until_stop v bars"
  let ?q = "fold (path_continues v) ?pre path_start"
  have pr: "pe_primary_result ?q = (if \<exists>b \<in> set ?pre. bar_tp1 v b \<or> bar_tp2 v b then TP_FIRST else NO_HIT)"
    using fold_primary [of path_start v ?pre] by simp
  have mx: "fold max (map (bar_favorable v) ?pre) 0 = Max (insert 0 (bar_favorable v ` set ?pre))"
    using list_max_Max [of "0 # map (bar_favorable v) ?pre"] by simp
  note q = fold_hits [of v ?pre path_start] fold_times [of v ?pre path_start] pr
  have st: "(\<exists>b \<in> set bars. bar_stop v b) \<longleftrightarrow> find (bar_stop v) bars \<noteq> None"
    by (auto simp: find_None_iff)
  show ?thesis
  proof (cases "find (bar_stop v) bars")
    case None
    then show ?thesis unfolding evaluate_path_def path_loop_fold Let_def st
      by (intro path_evaluation.equality)
        (simp_all add: q mx split: option.splits)
  next
    case (Some b)
    then show ?thesis unfolding evaluate_path_def path_loop_fold Let_def st
      by (intro path_evaluation.equality)
        (simp_all add: q path_stopped_def first_hit_def mx split: option.splits)
  qed
qed

section \<open>Admission of evidence\<close>

text \<open>
  What the engine promises about evidence keyed by market and minute: a store that keeps the least
  hash it has accepted per key and, once two different hashes were accepted, all of them.
\<close>

locale hash_evidence =
  fixes retained :: "'s \<Rightarrow> 'k \<Rightarrow> ('h::linorder) option"
    and conflicts :: "'s \<Rightarrow> 'k \<Rightarrow> 'h set option"
    and admit :: "'b \<Rightarrow> 's \<Rightarrow> 's"
    and key :: "'b \<Rightarrow> 'k" and hash :: "'b \<Rightarrow> 'h"
    and accepts :: "'s \<Rightarrow> 'b \<Rightarrow> bool"
  assumes accepts_admit: "accepts (admit b s) c = accepts s c"
    and admit_rejected: "\<not> accepts s b \<Longrightarrow> retained (admit b s) k = retained s k \<and> conflicts (admit b s) k = conflicts s k"
    and admit_other: "k \<noteq> key b \<Longrightarrow> retained (admit b s) k = retained s k \<and> conflicts (admit b s) k = conflicts s k"
    and admit_new: "accepts s b \<Longrightarrow> retained s (key b) = None \<Longrightarrow>
      retained (admit b s) (key b) = Some (hash b) \<and> conflicts (admit b s) (key b) = conflicts s (key b)"
    and admit_old: "accepts s b \<Longrightarrow> retained s (key b) = Some h \<Longrightarrow>
      retained (admit b s) (key b) = Some (min h (hash b)) \<and>
      conflicts (admit b s) (key b) = (if h = hash b then conflicts s (key b)
        else Some ((case conflicts s (key b) of None \<Rightarrow> {} | Some hs \<Rightarrow> hs) \<union> {h, hash b}))"
begin

definition holds :: "'s \<Rightarrow> 'k \<Rightarrow> 'h set \<Rightarrow> bool" where
  "holds s k hs \<longleftrightarrow> finite hs \<and> retained s k = (if hs = {} then None else Some (Min hs)) \<and>
     conflicts s k = (if 2 \<le> card hs then Some hs else None)"

lemma holds_admit:
  assumes "holds s k hs"
  shows "holds (admit b s) k (if accepts s b \<and> key b = k then insert (hash b) hs else hs)"
proof (cases "accepts s b \<and> key b = k")
  case False
  then show ?thesis using assms admit_rejected [of s b k] admit_other [of k b s] by (auto simp: holds_def)
next
  case acc: True
  have fin: "finite hs" using assms by (simp add: holds_def)
  show ?thesis
  proof (cases "hs = {}")
    case True
    then show ?thesis using assms acc admit_new [of s b] by (auto simp: holds_def)
  next
    case False
    let ?h = "Min hs"
    have r: "retained s (key b) = Some ?h" and c: "conflicts s k = (if 2 \<le> card hs then Some hs else None)"
      using assms acc False by (auto simp: holds_def)
    have m: "Min (insert (hash b) hs) = min ?h (hash b)" using fin False by (simp add: min.commute)
    have "conflicts (admit b s) k = (if 2 \<le> card (insert (hash b) hs) then Some (insert (hash b) hs) else None)"
    proof (cases "?h = hash b")
      case True
      then have "hash b \<in> hs" using Min_in [OF fin False] by simp
      then show ?thesis using admit_old [OF _ r] acc c True by (simp add: insert_absorb)
    next
      case ne: False
      have two: "2 \<le> card (insert (hash b) hs)"
      proof -
        have "{?h, hash b} \<subseteq> insert (hash b) hs" using Min_in [OF fin False] by simp
        from card_mono [OF _ this] fin ne show ?thesis by simp
      qed
      have "(case conflicts s k of None \<Rightarrow> {} | Some x \<Rightarrow> x) \<union> {?h, hash b} = insert (hash b) hs"
      proof (cases "2 \<le> card hs")
        case True
        then show ?thesis using c Min_in [OF fin False] by auto
      next
        case small: False
        then have "card hs = 1" using fin False by (metis One_nat_def Suc_1 card_0_eq less_Suc_eq linorder_not_le less_one)
        then obtain x where "hs = {x}" by (rule card_1_singletonE)
        then show ?thesis using c by auto
      qed
      then show ?thesis using admit_old [OF _ r] acc ne two by simp
    qed
    then show ?thesis using admit_old [OF _ r] acc fin m by (simp add: holds_def)
  qed
qed

lemma holds_fold:
  "holds s k hs \<Longrightarrow> holds (fold admit bs s) k (hs \<union> hash ` {b \<in> set bs. accepts s b \<and> key b = k})"
proof (induction bs arbitrary: s hs)
  case (Cons b bs)
  have acc: "accepts (admit b s) = accepts s" using accepts_admit by blast
  have "(if accepts s b \<and> key b = k then insert (hash b) hs else hs) \<union>
      hash ` {c \<in> set bs. accepts s c \<and> key c = k} =
    hs \<union> hash ` {c \<in> set (b # bs). accepts s c \<and> key c = k}" by auto
  with Cons.IH [OF holds_admit [OF Cons.prems, of b]] show ?case by (simp add: acc)
qed simp

end

definition retained_hash :: "outcome_engine \<Rightarrow> string \<times> int \<Rightarrow> string option" where
  "retained_hash e k = map_option om_canonical_hash (map_of (market_bars e (fst k)) (snd k))"

definition bar_key :: "one_minute_bar \<Rightarrow> string \<times> int" where
  "bar_key b = (om_market_id b, om_open_time_ms b)"

abbreviation admit :: "one_minute_bar \<Rightarrow> outcome_engine \<Rightarrow> outcome_engine" where
  "admit b e \<equiv> snd (admit_bar b e)"

lemma market_bars_aput:
  "market_bars (e\<lparr> oe_bars := aput m bs (oe_bars e) \<rparr>) m' = (if m' = m then bs else market_bars e m')"
  "market_bars (e\<lparr> oe_conflicts := cs, oe_bars := aput m bs (oe_bars e) \<rparr>) m' = (if m' = m then bs else market_bars e m')"
  by (simp_all add: market_bars_def map_of_aput)

lemma market_bars_ensure [simp]: "market_bars (ensure_market m e) = market_bars e"
  by (auto simp: ensure_market_def market_bars_def map_of_aput fun_eq_iff)

lemma ensure_market_fields [simp]:
  "oe_states (ensure_market m e) = oe_states e" "oe_conflicts (ensure_market m e) = oe_conflicts e"
  "oe_provider (ensure_market m e) = oe_provider e"
  by (simp_all add: ensure_market_def)

lemma admit_states [simp]: "oe_states (admit b e) = oe_states e"
  by (simp add: admit_bar_def Let_def split: option.splits)

interpretation evidence: hash_evidence retained_hash "\<lambda>e. map_of (oe_conflicts e)" admit bar_key om_canonical_hash requires_bar
proof
  fix b c s
  show "requires_bar (admit b s) c = requires_bar s c" by (simp add: requires_bar_def)
next
  fix s b k
  assume "\<not> requires_bar s b"
  then show "retained_hash (admit b s) k = retained_hash s k \<and>
      map_of (oe_conflicts (admit b s)) k = map_of (oe_conflicts s) k" by (simp add: admit_bar_def)
next
  fix k :: "string \<times> int" and b s
  assume "k \<noteq> bar_key b"
  then show "retained_hash (admit b s) k = retained_hash s k \<and>
      map_of (oe_conflicts (admit b s)) k = map_of (oe_conflicts s) k"
    by (cases k) (auto simp: admit_bar_def retained_hash_def bar_key_def Let_def market_bars_aput map_of_aput
        split: option.splits)
next
  fix s b
  assume "requires_bar s b" "retained_hash s (bar_key b) = None"
  then show "retained_hash (admit b s) (bar_key b) = Some (om_canonical_hash b) \<and>
      map_of (oe_conflicts (admit b s)) (bar_key b) = map_of (oe_conflicts s) (bar_key b)"
    by (simp add: admit_bar_def retained_hash_def bar_key_def Let_def market_bars_aput map_of_aput)
next
  fix s b h
  assume "requires_bar s b" "retained_hash s (bar_key b) = Some h"
  then show "retained_hash (admit b s) (bar_key b) = Some (min h (om_canonical_hash b)) \<and>
      map_of (oe_conflicts (admit b s)) (bar_key b) =
        (if h = om_canonical_hash b then map_of (oe_conflicts s) (bar_key b)
         else Some ((case map_of (oe_conflicts s) (bar_key b) of None \<Rightarrow> {} | Some hs \<Rightarrow> hs) \<union> {h, om_canonical_hash b}))"
    by (auto simp: admit_bar_def retained_hash_def bar_key_def Let_def market_bars_aput map_of_aput min_def)
qed

text \<open>
  C23: admitting bars implements a specification by sets. Starting without evidence,
  after any sequence of bars the engine retains for each market and minute the least hash among the
  accepted bars of that slot, and reports a conflict exactly when two different hashes were accepted,
  listing all of them. Both depend only on the set of bars, not on their order or repetition.
\<close>

theorem admission_refines_hash_sets:
  assumes "\<forall>m. market_bars e m = []" and "oe_conflicts e = []"
  defines "accepted m t bs \<equiv> om_canonical_hash `
    {b \<in> set bs. requires_bar e b \<and> om_market_id b = m \<and> om_open_time_ms b = t}"
  shows "map_option om_canonical_hash (map_of (market_bars (fold (\<lambda>b e. snd (admit_bar b e)) bs e) m) t) =
      (if accepted m t bs = {} then None else Some (Min (accepted m t bs))) \<and>
    map_of (oe_conflicts (fold (\<lambda>b e. snd (admit_bar b e)) bs e)) (m, t) =
      (if 2 \<le> card (accepted m t bs) then Some (accepted m t bs) else None)"
proof -
  have "evidence.holds e (m, t) {}"
    using assms(1,2) by (simp add: evidence.holds_def retained_hash_def)
  from evidence.holds_fold [OF this, of bs] show ?thesis
    unfolding assms(3) by (simp add: evidence.holds_def retained_hash_def bar_key_def)
qed

section \<open>Instances\<close>

definition sample_view :: "string \<Rightarrow> int \<Rightarrow> formal_shadow_view" where
  "sample_view sid start = \<lparr> fv_shadow_order_id = sid, fv_market_id = ''BTC'', fv_side = LONG,
     fv_setup_family = BREAKOUT_RETEST, fv_outcome_start_ms = start, fv_planned_entry = 100, fv_stop = 95,
     fv_tp1 = 105, fv_atr = 4, fv_tp2 = None, fv_zone_low = Some 90, fv_zone_high = Some 99,
     fv_state = FORMAL_SHADOW_PLAN, fv_active = True \<rparr>"

definition sample_minute :: "int \<Rightarrow> string \<Rightarrow> one_minute_bar" where
  "sample_minute i h = \<lparr> om_market_id = ''BTC'', om_open_time_ms = i * 60000, om_close_time_ms = i * 60000 + 60000,
     om_open = 100, om_high = 102, om_low = 99, om_close = 101, om_canonical_hash = h, om_source_id = ''S'' \<rparr>"

definition sample_engine :: outcome_engine where
  "sample_engine = snd (projr (attach (sample_view ''a'' 0) 0 False (new_engine None False)))"

theorem admission_refines_hash_sets_witness:
  "map_of (oe_conflicts (fold (\<lambda>b e. snd (admit_bar b e)) [sample_minute 1 ''y'', sample_minute 1 ''x''] sample_engine))
     (''BTC'', 60000) = Some {''x'', ''y''} \<and>
   map_option om_canonical_hash (map_of (market_bars
     (fold (\<lambda>b e. snd (admit_bar b e)) [sample_minute 1 ''y'', sample_minute 1 ''x''] sample_engine) ''BTC'') 60000) = Some ''x''"
proof -
  let ?bs = "[sample_minute 1 ''y'', sample_minute 1 ''x'']"
  have "oe_bars sample_engine = [(''BTC'', [])]" "oe_conflicts sample_engine = []" by code_simp+
  then have e: "\<forall>m. market_bars sample_engine m = []" "oe_conflicts sample_engine = []"
    by (simp_all add: market_bars_def)
  have r: "requires_bar sample_engine (sample_minute 1 ''y'')" "requires_bar sample_engine (sample_minute 1 ''x'')"
    by code_simp+
  have "{b \<in> set ?bs. requires_bar sample_engine b \<and> om_market_id b = ''BTC'' \<and> om_open_time_ms b = 60000} = set ?bs"
    using r by (auto simp: sample_minute_def)
  then have h: "om_canonical_hash ` {b \<in> set ?bs. requires_bar sample_engine b \<and> om_market_id b = ''BTC'' \<and>
      om_open_time_ms b = 60000} = {''x'', ''y''}" by (auto simp: sample_minute_def)
  have "Min {''x'', ''y''} = (''x'' :: string)" by code_simp
  then show ?thesis using admission_refines_hash_sets [OF e, of ?bs "''BTC''" 60000] unfolding h by simp
qed

end
