(* ===== verification/Outcome_Final.thy ===== *)
theory Outcome_Final
  imports Outcome_Props
begin

text \<open>
  Finality of outcomes. Once the required window of a state has elapsed, its evaluation is a function
  of the evidence alone, and pruning of evidence keeps everything the remaining states need.
\<close>

section \<open>Elapsed windows\<close>

definition aligned :: "int \<Rightarrow> bool" where
  "aligned t \<longleftrightarrow> t mod ONE_MINUTE_MS = 0"

text \<open>What the constructors of views and transitions and the guards of admission establish.\<close>

definition wf_outcome_state :: "outcome_state \<Rightarrow> bool" where
  "wf_outcome_state st \<longleftrightarrow> aligned (fv_outcome_start_ms (os_view st)) \<and>
     (\<forall>t \<in> snd ` set (os_transitions st). aligned (ot_occurred_at_ms t) \<and>
        fv_outcome_start_ms (os_view st) \<le> ot_occurred_at_ms t)"

lemma aligned_add: "aligned a \<Longrightarrow> aligned (a + k * ONE_MINUTE_MS)"
  by (simp add: aligned_def ONE_MINUTE_MS_def)

lemma floor_minute_ge: "aligned t \<Longrightarrow> t \<le> a \<Longrightarrow> t \<le> floor_minute a"
proof -
  assume t: "aligned t" and "t \<le> a"
  then have "t div ONE_MINUTE_MS \<le> a div ONE_MINUTE_MS" by (intro zdiv_mono1) (simp_all add: ONE_MINUTE_MS_def)
  then have "t div ONE_MINUTE_MS * ONE_MINUTE_MS \<le> a div ONE_MINUTE_MS * ONE_MINUTE_MS"
    by (simp add: ONE_MINUTE_MS_def)
  moreover have "t div ONE_MINUTE_MS * ONE_MINUTE_MS = t"
    using t by (simp add: aligned_def mod_eq_0_iff_dvd)
  ultimately show ?thesis by (simp add: floor_minute_def minus_mod_eq_div_mult)
qed

lemma elapsed_end_done: "s \<le> t \<Longrightarrow> aligned t \<Longrightarrow> t \<le> a \<Longrightarrow> elapsed_end s t a = t"
  using floor_minute_ge [of t a] by (auto simp: elapsed_end_def)

lemma window_status_done:
  assumes "s \<le> t" "aligned t" "t \<le> a"
  shows "window_status e st s t a =
    (if list_ex (\<lambda>((m, o1), _). m = fv_market_id (os_view st) \<and> s \<le> o1 \<and> o1 < t) (oe_conflicts e) then MS_CONFLICTED
     else if list_ex (\<lambda>p. map_of (market_bars e (fv_market_id (os_view st))) p = None) (minute_opens s t) then MS_GAPPED
     else MS_MATURE)"
  using assms by (simp add: window_status_def elapsed_end_done Let_def)

lemma window_stable:
  assumes "s \<le> t" "aligned t" "t \<le> a" "a \<le> a'"
  shows "window_status e st s t a' = window_status e st s t a" "usable_bars e st s t a' = usable_bars e st s t a"
  using assms by (simp_all add: usable_bars_def window_status_done elapsed_end_done Let_def)

lemma foldl_max_start:
  fixes f :: "'a \<Rightarrow> int"
  shows "x \<le> foldl (\<lambda>e t. if P t then max e (f t) else e) x ts"
proof (induction ts arbitrary: x)
  case (Cons u us)
  have "x \<le> (if P u then max x (f u) else x)" by simp
  also note Cons.IH [of "if P u then max x (f u) else x"]
  finally show ?case by simp
qed simp

lemma foldl_max_ge:
  fixes f :: "'a \<Rightarrow> int"
  shows "t \<in> set ts \<Longrightarrow> P t \<Longrightarrow> f t \<le> foldl (\<lambda>e t. if P t then max e (f t) else e) x ts"
proof (induction ts arbitrary: x)
  case (Cons u us)
  show ?case
  proof (cases "t = u")
    case True
    have "f t \<le> max x (f u)" using True by simp
    also note foldl_max_start [of "max x (f u)" P f us]
    finally show ?thesis using True Cons.prems(2) by simp
  next
    case False
    then show ?thesis using Cons by simp
  qed
qed simp

lemma required_end_ge: "original_deadline_ms (os_view st) \<le> required_end st"
  unfolding required_end_def by (auto intro: foldl_max_start)

lemma required_end_extending:
  assumes "t \<in> snd ` set (os_transitions st)" "extending (ot_kind t)"
    "fv_setup_family (os_view st) = BREAKOUT_RETEST"
  shows "ot_occurred_at_ms t + 120 * ONE_MINUTE_MS \<le> required_end st"
  unfolding required_end_def using assms
  by (simp add: foldl_max_ge [where f = "\<lambda>t. ot_occurred_at_ms t + 120 * ONE_MINUTE_MS"])

lemma foldl_max_in:
  fixes f :: "'a \<Rightarrow> int"
  shows "foldl (\<lambda>e t. if P t then max e (f t) else e) x ts \<in> insert x (f ` set ts)"
  by (induction ts arbitrary: x) (auto simp: max_def split: if_splits)

lemma required_end_aligned: "wf_outcome_state st \<Longrightarrow> aligned (required_end st)"
proof -
  assume wf: "wf_outcome_state st"
  have d: "aligned (original_deadline_ms (os_view st))"
    using wf by (simp add: wf_outcome_state_def original_deadline_ms_def aligned_add)
  have t: "aligned (ot_occurred_at_ms t + 120 * ONE_MINUTE_MS)" if "t \<in> set (map snd (os_transitions st))" for t
    using wf that by (auto simp: wf_outcome_state_def intro: aligned_add)
  show ?thesis
    using foldl_max_in [of "\<lambda>t. extending (ot_kind t)" "\<lambda>t. ot_occurred_at_ms t + 120 * ONE_MINUTE_MS"
        "original_deadline_ms (os_view st)" "map snd (os_transitions st)"] d t
    by (fastforce simp: required_end_def)
qed

lemma window_bounds:
  assumes "wf_outcome_state st"
  shows "fv_outcome_start_ms (os_view st) \<le> original_deadline_ms (os_view st)"
    and "aligned (original_deadline_ms (os_view st))"
    and "fv_outcome_start_ms (os_view st) \<le> required_end st"
proof -
  show 1: "fv_outcome_start_ms (os_view st) \<le> original_deadline_ms (os_view st)"
    by (simp add: original_deadline_ms_def ONE_MINUTE_MS_def)
  show "aligned (original_deadline_ms (os_view st))"
    using assms by (simp add: wf_outcome_state_def original_deadline_ms_def aligned_add)
  show "fv_outcome_start_ms (os_view st) \<le> required_end st" using 1 required_end_ge [of st] by linarith
qed

section \<open>Stability of an evaluation\<close>

lemma horizon_stable:
  assumes "wf_outcome_state st" "0 \<le> k" "k \<le> 120" "required_end st \<le> a" "a \<le> a'"
  shows "horizon e st k a' = horizon e st k a"
proof -
  let ?s = "fv_outcome_start_ms (os_view st)"
  have "?s \<le> ?s + k * ONE_MINUTE_MS" "aligned (?s + k * ONE_MINUTE_MS)" "?s + k * ONE_MINUTE_MS \<le> a"
    using assms required_end_ge [of st]
    by (auto simp: wf_outcome_state_def original_deadline_ms_def aligned_add) (simp_all add: ONE_MINUTE_MS_def)
  from window_stable [OF this assms(5)] show ?thesis by (simp add: horizon_def Let_def)
qed

lemma reverse_stable:
  assumes "aligned n" "n + 120 * ONE_MINUTE_MS \<le> a" "a \<le> a'"
  shows "reverse_horizons e st n p a' = reverse_horizons e st n p a"
proof -
  have "reverse_horizon e st n p a' k = reverse_horizon e st n p a k" if "k \<in> {30, 60, 120}" for k
  proof -
    have "n \<le> n + k * ONE_MINUTE_MS" "n + k * ONE_MINUTE_MS \<le> a"
      using assms(2) that by (auto simp: ONE_MINUTE_MS_def)
    from window_stable [OF this(1) aligned_add [OF assms(1)] this(2) assms(3)] show ?thesis
      by (simp add: reverse_horizon_def Let_def)
  qed
  then show ?thesis by (simp add: reverse_horizons_def OUTCOME_HORIZONS_MINUTES_def)
qed

lemma transitions_of_mem: "t \<in> set (transitions_of st ks) \<Longrightarrow> t \<in> snd ` set (os_transitions st) \<and> ot_kind t \<in> ks"
  by (auto simp: transitions_of_def)

lemma research_stable:
  assumes wf: "wf_outcome_state st" and a: "required_end st \<le> a" "a \<le> a'"
  shows "failed_breakout_research_of e st a' = failed_breakout_research_of e st a"
proof (cases "fv_setup_family (os_view st) = BREAKOUT_RETEST")
  case br: True
  let ?s = "fv_outcome_start_ms (os_view st)" and ?d = "original_deadline_ms (os_view st)"
  have s: "?s \<le> ?d" "aligned ?d" "?d \<le> a" "aligned (required_end st)" "?s \<le> required_end st"
    using window_bounds [OF wf] required_end_ge [of st] a(1) required_end_aligned [OF wf] by auto
  note u = window_stable(2) [OF s(1-3) a(2)] window_stable(2) [OF s(5,4) a]
  have rev: "reverse_horizons e st (ot_occurred_at_ms t) p a' = reverse_horizons e st (ot_occurred_at_ms t) p a"
    if "t \<in> set (transitions_of st {FAILED_BREAKOUT}) \<union> set (transitions_of st {ACCEPTED_REENTRY})" for t p
  proof -
    have t: "t \<in> snd ` set (os_transitions st)" "extending (ot_kind t)"
      using that by (auto dest!: transitions_of_mem simp: extending_def)
    from required_end_extending [OF t br] wf t(1) a show ?thesis
      by (intro reverse_stable) (auto simp: wf_outcome_state_def)
  qed
  show ?thesis unfolding failed_breakout_research_of_def Let_def u
    by (auto simp: rev split: option.splits list.splits prod.splits)
qed (simp add: failed_breakout_research_of_def Let_def)

text \<open>
  C25: outcomes are final. When the required window has ended, evaluating again at any
  later time gives the same outcome but for the time stamp, and the outcome is resolved exactly when
  every minute of the window has an admitted bar and no minute of it is in conflict.
\<close>

theorem outcome_final_after_window:
  assumes "wf_outcome_state st" and "required_end st \<le> now" and "now \<le> later"
  shows "evaluate_state e st later = (evaluate_state e st now)\<lparr> fo_evaluated_at_ms := later \<rparr> \<and>
    (\<not> fo_unresolved (evaluate_state e st now) \<longleftrightarrow>
      (\<forall>t \<in> set (minute_opens (fv_outcome_start_ms (os_view st)) (required_end st)).
         map_of (market_bars e (fv_market_id (os_view st))) t \<noteq> None) \<and>
      (\<forall>((m, t), hs) \<in> set (oe_conflicts e). \<not> state_requires st m t))"
proof
  let ?s = "fv_outcome_start_ms (os_view st)" and ?d = "original_deadline_ms (os_view st)" and ?r = "required_end st"
  have s: "?s \<le> ?d" "aligned ?d" "?d \<le> now" "aligned ?r" "?s \<le> ?r"
    using window_bounds [OF assms(1)] assms(2) required_end_ge [of st] required_end_aligned [OF assms(1)] by auto
  have h: "map (\<lambda>k. horizon e st k later) OUTCOME_HORIZONS_MINUTES = map (\<lambda>k. horizon e st k now) OUTCOME_HORIZONS_MINUTES"
    using horizon_stable [OF assms(1) _ _ assms(2,3)] by (simp add: OUTCOME_HORIZONS_MINUTES_def)
  show "evaluate_state e st later = (evaluate_state e st now)\<lparr> fo_evaluated_at_ms := later \<rparr>"
    unfolding evaluate_state_def Let_def
    by (simp add: window_stable [OF s(1-3) assms(3)] window_stable [OF s(5,4) assms(2,3)] h
        research_stable [OF assms])
  have "\<not> fo_unresolved (evaluate_state e st now) \<longleftrightarrow> window_status e st ?s ?r now = MS_MATURE"
    by (auto simp: evaluate_state_def Let_def)
  then show "\<not> fo_unresolved (evaluate_state e st now) \<longleftrightarrow>
      (\<forall>t \<in> set (minute_opens ?s ?r). map_of (market_bars e (fv_market_id (os_view st))) t \<noteq> None) \<and>
      (\<forall>((m, t), hs) \<in> set (oe_conflicts e). \<not> state_requires st m t)"
    unfolding window_status_done [OF s(5,4) assms(2)]
    by (auto simp: list_ex_iff state_requires_def split: if_splits)
qed

section \<open>Pruning\<close>

lemma map_of_filter_key: "map_of (filter (\<lambda>(k, _). P k) al) k = (if P k then map_of al k else None)"
  by (induction al) auto

lemma map_of_map_value: "map_of (map (\<lambda>(k, v). (k, f k v)) al) k = map_option (f k) (map_of al k)"
  by (induction al) auto

lemma required_somewhereI: "(k, st) \<in> set (oe_states e) \<Longrightarrow> state_requires st m t \<Longrightarrow> required_somewhere e m t"
  by (auto simp: required_somewhere_def list_ex_iff)

lemma prune_lookup:
  assumes "(k, st) \<in> set (oe_states e)" "state_requires st m t"
  shows "map_of (market_bars (prune_inactive_bars e) m) t = map_of (market_bars e m) t"
proof -
  have "list_ex (\<lambda>(_, st). fv_market_id (os_view st) = m) (oe_states e)"
    using assms by (auto simp: list_ex_iff state_requires_def)
  with required_somewhereI [OF assms] show ?thesis
    by (simp add: market_bars_def prune_inactive_bars_def map_of_map_value map_of_filter_key split: option.splits)
qed

lemma elapsed_end_le: "s \<le> t \<Longrightarrow> elapsed_end s t a \<le> t"
  by (simp add: elapsed_end_def)

lemma minute_opens_bounds: "p \<in> set (minute_opens s t) \<Longrightarrow> s \<le> p \<and> p < t"
  unfolding minute_opens_def ONE_MINUTE_MS_def by (auto; linarith)

lemma prune_window:
  assumes st: "(k, st) \<in> set (oe_states e)" and w: "fv_outcome_start_ms (os_view st) \<le> s" "s \<le> t" "t \<le> required_end st"
  shows "window_status (prune_inactive_bars e) st s t a = window_status e st s t a"
    and "usable_bars (prune_inactive_bars e) st s t a = usable_bars e st s t a"
proof -
  let ?m = "fv_market_id (os_view st)"
  have req: "state_requires st ?m p" if "s \<le> p" "p < t" for p using w that by (simp add: state_requires_def)
  note le = elapsed_end_le [OF w(2), of a]
  have bars: "map_of (market_bars (prune_inactive_bars e) ?m) p = map_of (market_bars e ?m) p"
    if "p \<in> set (minute_opens s t) \<union> set (minute_opens s (elapsed_end s t a))" for p
    using that le by (intro prune_lookup [OF st] req) (auto dest: minute_opens_bounds)
  have conf: "list_ex (\<lambda>((m', o1), _). m' = ?m \<and> s \<le> o1 \<and> o1 < elapsed_end s t a) (oe_conflicts (prune_inactive_bars e)) =
      list_ex (\<lambda>((m', o1), _). m' = ?m \<and> s \<le> o1 \<and> o1 < elapsed_end s t a) (oe_conflicts e)"
    using le required_somewhereI [OF st req] by (fastforce simp: list_ex_iff prune_inactive_bars_def)
  have gap: "list_ex (\<lambda>p. map_of (market_bars (prune_inactive_bars e) ?m) p = None) ps =
      list_ex (\<lambda>p. map_of (market_bars e ?m) p = None) ps"
    if "set ps \<subseteq> set (minute_opens s t) \<union> set (minute_opens s (elapsed_end s t a))" for ps
    unfolding list_ex_iff using bars that by (intro bex_cong refl arg_cong [where f = "\<lambda>x. x = None"]) blast
  show ws: "window_status (prune_inactive_bars e) st s t a = window_status e st s t a"
    unfolding window_status_def Let_def conf by (simp add: gap)
  show "usable_bars (prune_inactive_bars e) st s t a = usable_bars e st s t a"
    unfolding usable_bars_def Let_def ws using bars by auto
qed

lemma prune_conflicts:
  assumes "(k, st) \<in> set (oe_states e)"
  shows "state_conflicts (prune_inactive_bars e) st = state_conflicts e st"
proof -
  have eq: "concat (map f (filter P xs)) = concat (map f xs)" if "\<forall>x \<in> set xs. \<not> P x \<longrightarrow> f x = []"
    for f :: "(string \<times> int) \<times> string set \<Rightarrow> bar_conflict list" and P xs
    using that by (induction xs) auto
  show ?thesis unfolding state_conflicts_def prune_inactive_bars_def
    using required_somewhereI [OF assms] by (simp, subst eq) auto
qed

lemma prune_reverse:
  assumes st: "(k, st) \<in> set (oe_states e)" and n: "fv_outcome_start_ms (os_view st) \<le> n"
    "n + 120 * ONE_MINUTE_MS \<le> required_end st"
  shows "reverse_horizons (prune_inactive_bars e) st n p a = reverse_horizons e st n p a"
proof -
  have "reverse_horizon (prune_inactive_bars e) st n p a j = reverse_horizon e st n p a j" if "j \<in> {30, 60, 120}" for j
  proof -
    have "n \<le> n + j * ONE_MINUTE_MS" "n + j * ONE_MINUTE_MS \<le> required_end st"
      using n that by (auto simp: ONE_MINUTE_MS_def)
    from prune_window [OF st n(1) this] show ?thesis by (simp add: reverse_horizon_def Let_def)
  qed
  then show ?thesis by (simp add: reverse_horizons_def OUTCOME_HORIZONS_MINUTES_def)
qed

definition anchors_priced :: "outcome_state \<Rightarrow> bool" where
  "anchors_priced st \<longleftrightarrow> (\<forall>t \<in> snd ` set (os_transitions st). extending (ot_kind t) \<longrightarrow> ot_reference_price t \<noteq> None)"

lemma prune_research:
  assumes st: "(k, st) \<in> set (oe_states e)" and wf: "wf_outcome_state st" and pr: "anchors_priced st"
  shows "failed_breakout_research_of (prune_inactive_bars e) st a = failed_breakout_research_of e st a"
proof (cases "fv_setup_family (os_view st) = BREAKOUT_RETEST")
  case br: True
  note u = prune_window(2) [OF st order_refl window_bounds(1) [OF wf] required_end_ge]
    prune_window(2) [OF st order_refl window_bounds(3) [OF wf] order_refl]
  have anchor: "transition_reference (prune_inactive_bars e) st t = transition_reference e st t \<and>
      reverse_horizons (prune_inactive_bars e) st (ot_occurred_at_ms t) p a = reverse_horizons e st (ot_occurred_at_ms t) p a"
    if "t \<in> set (transitions_of st {FAILED_BREAKOUT}) \<union> set (transitions_of st {ACCEPTED_REENTRY})" for t p
  proof -
    have t: "t \<in> snd ` set (os_transitions st)" "extending (ot_kind t)"
      using that by (auto dest!: transitions_of_mem simp: extending_def)
    have "transition_reference (prune_inactive_bars e) st t = transition_reference e st t"
      using pr t by (auto simp: anchors_priced_def transition_reference_def)
    moreover have "fv_outcome_start_ms (os_view st) \<le> ot_occurred_at_ms t" using wf t(1) by (auto simp: wf_outcome_state_def)
    ultimately show ?thesis using prune_reverse [OF st] required_end_extending [OF t br] by blast
  qed
  show ?thesis unfolding failed_breakout_research_of_def Let_def u
    by (auto simp: anchor split: option.splits list.splits prod.splits)
qed (simp add: failed_breakout_research_of_def Let_def)

text \<open>
  C26: dropping the evidence of completed outcomes never changes the outcome of a state
  that is still attached, at any time of evaluation, provided that its extending transitions carry a
  reference price.
\<close>

theorem prune_preserves_outcomes:
  assumes "(k, st) \<in> set (oe_states e)" and "wf_outcome_state st" and "anchors_priced st"
  shows "evaluate_state (prune_inactive_bars e) st now = evaluate_state e st now"
proof -
  let ?s = "fv_outcome_start_ms (os_view st)"
  have "horizon (prune_inactive_bars e) st j now = horizon e st j now" if "j \<in> {30, 60, 120}" for j
  proof -
    have "?s \<le> ?s + j * ONE_MINUTE_MS" "?s + j * ONE_MINUTE_MS \<le> required_end st"
      using that required_end_ge [of st] by (auto simp: original_deadline_ms_def ONE_MINUTE_MS_def)
    from prune_window [OF assms(1) order_refl this] show ?thesis by (simp add: horizon_def Let_def)
  qed
  then have h: "map (\<lambda>j. horizon (prune_inactive_bars e) st j now) OUTCOME_HORIZONS_MINUTES =
      map (\<lambda>j. horizon e st j now) OUTCOME_HORIZONS_MINUTES" by (simp add: OUTCOME_HORIZONS_MINUTES_def)
  show ?thesis unfolding evaluate_state_def Let_def h prune_research [OF assms] prune_conflicts [OF assms(1)]
    by (simp add: prune_window [OF assms(1) order_refl window_bounds(1) [OF assms(2)] required_end_ge]
        prune_window [OF assms(1) order_refl window_bounds(3) [OF assms(2)] order_refl])
qed

section \<open>Instances\<close>

definition sample_reentry :: "decimal option \<Rightarrow> outcome_transition_view" where
  "sample_reentry price = \<lparr> ot_transition_id = ''t'', ot_shadow_order_id = ''b'', ot_market_id = ''BTC'',
     ot_kind = ACCEPTED_REENTRY, ot_occurred_at_ms = 7200000, ot_reference_price = price \<rparr>"

text \<open>
  Shadow \<open>a\<close> runs over the first two hours, shadow \<open>b\<close> starts when they end and re-enters its range at
  once; the last minute of \<open>a\<close> is admitted.
\<close>

definition handover :: "decimal option \<Rightarrow> outcome_engine" where
  "handover price = snd (admit_bar (sample_minute 119 ''h'')
     (snd (projr (admit_transition (sample_reentry price) 7200000 False
       (snd (projr (attach (sample_view ''b'' 7200000) 0 False
         (snd (projr (attach (sample_view ''a'' 0) 0 False (new_engine None False)))))))))))"

definition after_completion :: "outcome_engine \<Rightarrow> outcome_engine" where
  "after_completion e = prune_inactive_bars (drop_completed [''a''] e)"

definition reverse_entry_of :: "formal_shadow_outcome res \<Rightarrow> decimal option" where
  "reverse_entry_of r = (case r of Inl _ \<Rightarrow> None | Inr x \<Rightarrow> Option.bind (fo_research x) fr_reverse_entry)"

text \<open>
  Without a reference price the price of a re-entry comes from any bar of the
  market, also from a minute that only another plan requires. The two steps with which a tick
  completes that other plan, dropping its state and pruning, remove the bar: the same evaluation
  of the same plan at the same time reports the reverse entry 101 before and none after. With a
  reference price on the transition both report that price.
\<close>

lemma prune_drops_reverse_entry:
  "reverse_entry_of (evaluate_outcome ''b'' 7200000 (handover None)) = Some 101 \<and>
   reverse_entry_of (evaluate_outcome ''b'' 7200000 (after_completion (handover None))) = None \<and>
   reverse_entry_of (evaluate_outcome ''b'' 7200000 (handover (Some 98))) = Some 98 \<and>
   reverse_entry_of (evaluate_outcome ''b'' 7200000 (after_completion (handover (Some 98)))) = Some 98"
  by code_simp

definition state_b :: outcome_state where
  "state_b = \<lparr> os_view = sample_view ''b'' 7200000, os_transitions = [(''t'', sample_reentry (Some 98))],
     os_forced_detached = False \<rparr>"

lemma state_b_ok: "wf_outcome_state state_b" "anchors_priced state_b"
  by (simp_all add: state_b_def wf_outcome_state_def anchors_priced_def aligned_def sample_view_def sample_reentry_def
      ONE_MINUTE_MS_def)

lemma state_b_attached: "(''b'', state_b) \<in> set (oe_states (drop_completed [''a''] (handover (Some 98))))"
proof -
  have "oe_states (drop_completed [''a''] (handover (Some 98))) = [(''b'', state_b)]" by code_simp
  then show ?thesis by simp
qed

theorem prune_preserves_outcomes_witness:
  "evaluate_state (after_completion (handover (Some 98))) state_b 7260000 =
     evaluate_state (drop_completed [''a''] (handover (Some 98))) state_b 7260000 \<and>
   market_bars (after_completion (handover (Some 98))) ''BTC'' = [] \<and>
   length (market_bars (handover (Some 98)) ''BTC'') = 1"
proof -
  have "market_bars (after_completion (handover (Some 98))) ''BTC'' = []"
    "length (market_bars (handover (Some 98)) ''BTC'') = 1" by code_simp+
  then show ?thesis
    using prune_preserves_outcomes [OF state_b_attached state_b_ok, of 7260000] by (simp add: after_completion_def)
qed

theorem outcome_final_after_window_witness:
  "required_end state_b = 14400000 \<and>
   evaluate_state (handover (Some 98)) state_b 15000000 =
     (evaluate_state (handover (Some 98)) state_b 14400000)\<lparr> fo_evaluated_at_ms := 15000000 \<rparr> \<and>
   fo_unresolved (evaluate_state (handover (Some 98)) state_b 14400000)"
proof -
  have r: "required_end state_b = 14400000" by code_simp
  have m: "7200000 \<in> set (minute_opens (fv_outcome_start_ms (os_view state_b)) (required_end state_b))"
    unfolding r by (simp add: state_b_def sample_view_def minute_opens_def ONE_MINUTE_MS_def image_iff)
  have n: "map_of (market_bars (handover (Some 98)) (fv_market_id (os_view state_b))) 7200000 = None" by code_simp
  have "required_end state_b \<le> 14400000" "(14400000::int) \<le> 15000000" by (simp_all add: r)
  from outcome_final_after_window [OF state_b_ok(1) this, of "handover (Some 98)"] m n r show ?thesis by blast
qed

end
