(* ===== verification/Outcome_Recovery.thy ===== *)
theory Outcome_Recovery
  imports Outcome_Final
begin

text \<open>
  Recovery of missing minutes: the backfill requests cover exactly the missing minutes, each once and
  in maximal ranges, and one recovery from a complete provider leaves nothing to request.
\<close>

section \<open>Blocks of consecutive minutes\<close>

definition minute_run :: "int list \<Rightarrow> bool" where
  "minute_run b \<longleftrightarrow> b \<noteq> [] \<and> b = map (\<lambda>j. hd b + int j * ONE_MINUTE_MS) [0..<length b]"

lemma minute_run_single: "minute_run [p]"
  by (simp add: minute_run_def)

lemma minute_run_Cons: "minute_run (q # qs) \<Longrightarrow> q = p + ONE_MINUTE_MS \<Longrightarrow> minute_run (p # q # qs)"
proof -
  assume r: "minute_run (q # qs)" and q: "q = p + ONE_MINUTE_MS"
  have "q # qs = map (\<lambda>j. q + int j * ONE_MINUTE_MS) [0..<length (q # qs)]"
    using r by (simp add: minute_run_def)
  also have "\<dots> = map (\<lambda>j. p + int (Suc j) * ONE_MINUTE_MS) [0..<length (q # qs)]"
    by (simp add: q algebra_simps)
  also have "\<dots> = map (\<lambda>j. p + int j * ONE_MINUTE_MS) (map Suc [0..<length (q # qs)])" by simp
  finally have "p # q # qs = map (\<lambda>j. p + int j * ONE_MINUTE_MS) (0 # map Suc [0..<length (q # qs)])" by simp
  also have "0 # map Suc [0..<length (q # qs)] = [0..<length (p # q # qs)]"
    by (simp add: map_Suc_upt upt_conv_Cons del: upt_Suc)
  finally show ?thesis unfolding minute_run_def list.sel(1) by blast
qed

lemma minute_run_last: "minute_run b \<Longrightarrow> last b = hd b + (int (length b) - 1) * ONE_MINUTE_MS"
proof -
  assume b: "minute_run b"
  then have "last b = map (\<lambda>j. hd b + int j * ONE_MINUTE_MS) [0..<length b] ! (length b - 1)"
    by (metis last_conv_nth minute_run_def)
  moreover have "0 < length b" using b by (simp add: minute_run_def)
  moreover have "int (length b - 1) = int (length b) - 1" using calculation(2) by (simp add: of_nat_diff Suc_le_eq)
  ultimately show ?thesis by simp
qed

lemma minute_run_opens: "minute_run b \<Longrightarrow> minute_opens (hd b) (last b + ONE_MINUTE_MS) = b"
proof -
  assume b: "minute_run b"
  have "(last b + ONE_MINUTE_MS - hd b + (ONE_MINUTE_MS - 1)) div ONE_MINUTE_MS = int (length b)"
    unfolding minute_run_last [OF b] by (simp add: ONE_MINUTE_MS_def)
  then show ?thesis using b by (simp add: minute_opens_def minute_run_def)
qed

lemma group_points_runs: "\<forall>b \<in> set (group_points i ps). minute_run b"
proof (induction ps arbitrary: i)
  case (Cons p ps)
  show ?case
  proof (cases "group_points (Suc i) ps")
    case Nil
    then show ?thesis by (simp add: minute_run_single)
  next
    case (Cons b bs)
    with Cons.IH [of "Suc i"] obtain q qs where b: "b = q # qs" "minute_run (q # qs)" "\<forall>c \<in> set bs. minute_run c"
      by (cases b) (auto simp: minute_run_def)
    have "minute_run (p # q # qs)" if "p - int i * ONE_MINUTE_MS = q - int (Suc i) * ONE_MINUTE_MS"
      using that by (intro minute_run_Cons [OF b(2)]) (simp add: algebra_simps)
    then show ?thesis using Cons b by (auto simp: minute_run_single)
  qed
qed simp

lemma concat_group_points: "concat (group_points i ps) = ps"
proof (induction ps arbitrary: i)
  case (Cons p ps)
  show ?case
  proof (cases "group_points (Suc i) ps")
    case Nil
    then show ?thesis using Cons.IH [of "Suc i"] by simp
  next
    case (Cons b bs)
    obtain q qs where "b = q # qs" using group_points_runs [of "Suc i" ps] Cons by (cases b) (auto simp: minute_run_def)
    then show ?thesis using Cons.IH [of "Suc i"] Cons by simp
  qed
qed simp

text \<open>A block ends where the next minute is absent, for points on the minute grid.\<close>

lemma aligned_next: "q \<le> p + ONE_MINUTE_MS \<Longrightarrow> p < q \<Longrightarrow> aligned p \<Longrightarrow> aligned q \<Longrightarrow> q = p + ONE_MINUTE_MS"
proof -
  assume a: "q \<le> p + ONE_MINUTE_MS" "p < q" "aligned p" "aligned q"
  then obtain x y where "p = ONE_MINUTE_MS * x" "q = ONE_MINUTE_MS * y"
    by (auto simp: aligned_def mod_eq_0_iff_dvd elim!: dvdE)
  with a(1,2) show ?thesis by (simp add: ONE_MINUTE_MS_def)
qed

lemma group_points_gap:
  assumes "sorted ps" "distinct ps" "\<forall>p \<in> set ps. aligned p"
  shows "\<forall>b \<in> set (group_points i ps). last b + ONE_MINUTE_MS \<notin> set ps"
  using assms
proof (induction ps arbitrary: i)
  case (Cons p ps)
  have IH: "\<forall>b \<in> set (group_points (Suc i) ps). last b + ONE_MINUTE_MS \<notin> set ps" using Cons by simp
  have up: "p < q" if "q \<in> set ps" for q using Cons.prems that by (auto simp: order_less_le)
  have mem: "last b \<in> set ps" if "b \<in> set (group_points (Suc i) ps)" for b
  proof -
    have "last b \<in> set (concat (group_points (Suc i) ps))"
      using that group_points_runs [of "Suc i" ps] by (auto simp: minute_run_def intro!: bexI [of _ b])
    then show ?thesis by (simp add: concat_group_points)
  qed
  have later: "last b + ONE_MINUTE_MS \<noteq> p" if "b \<in> set (group_points (Suc i) ps)" for b
    using up [OF mem [OF that]] by (simp add: ONE_MINUTE_MS_def)
  have keep: "last b + ONE_MINUTE_MS \<notin> set (p # ps)" if "b \<in> set (group_points (Suc i) ps)" for b
    using IH later [OF that] that by simp
  show ?case
  proof (cases "group_points (Suc i) ps")
    case Nil
    then have "ps = []" using concat_group_points [of "Suc i" ps] by simp
    then show ?thesis by (simp add: ONE_MINUTE_MS_def)
  next
    case (Cons b bs)
    obtain q qs where b: "b = q # qs" using group_points_runs [of "Suc i" ps] Cons by (cases b) (auto simp: minute_run_def)
    have ps: "ps = q # qs @ concat bs" using concat_group_points [of "Suc i" ps] Cons b by simp
    have one: "p + ONE_MINUTE_MS \<notin> set (p # ps)"
      if ne: "p - int i * ONE_MINUTE_MS \<noteq> q - int (Suc i) * ONE_MINUTE_MS"
    proof
      assume a: "p + ONE_MINUTE_MS \<in> set (p # ps)"
      then have r: "p + ONE_MINUTE_MS \<in> set ps" by (auto simp: ONE_MINUTE_MS_def)
      have "q \<le> p + ONE_MINUTE_MS" using r Cons.prems(1) by (auto simp: ps)
      moreover have "p < q" using up by (simp add: ps)
      moreover have "aligned p" "aligned q" using Cons.prems(3) by (auto simp: ps)
      ultimately have "q = p + ONE_MINUTE_MS" by (rule aligned_next)
      with ne show False by (simp add: algebra_simps)
    qed
    have old: "last (q # qs) + ONE_MINUTE_MS \<notin> set (p # ps)" by (rule keep) (simp add: Cons b)
    have rest: "\<forall>c \<in> set bs. last c + ONE_MINUTE_MS \<notin> set (p # ps)" by (rule ballI, rule keep) (simp add: Cons)
    show ?thesis
    proof (cases "p - int i * ONE_MINUTE_MS = q - int (Suc i) * ONE_MINUTE_MS")
      case True
      then have "group_points i (p # ps) = (p # q # qs) # bs" using Cons b by simp
      then show ?thesis using old rest by simp
    next
      case False
      then have "group_points i (p # ps) = [p] # (q # qs) # bs" using Cons b by simp
      then show ?thesis using old rest one [OF False] by simp
    qed
  qed
qed simp

section \<open>Requests\<close>

definition points_of :: "(string \<times> int set) list \<Rightarrow> string \<Rightarrow> int set" where
  "points_of missing m = (case map_of missing m of None \<Rightarrow> {} | Some ps \<Rightarrow> ps)"

definition wanted :: "outcome_engine \<Rightarrow> int \<Rightarrow> outcome_state list \<Rightarrow> string \<Rightarrow> int set" where
  "wanted e now sel m = \<Union> (missing_points e now ` {st \<in> set sel. \<not> os_forced_detached st \<and> fv_market_id (os_view st) = m})"

lemma missing_points_cong: "market_bars e = market_bars e' \<Longrightarrow> missing_points e = missing_points e'"
  by (auto simp: missing_points_def fun_eq_iff Let_def)

lemma note_missing_skip: "os_forced_detached st \<Longrightarrow> note_missing now st acc = acc"
  by (simp add: note_missing_def split: prod.splits)

lemma note_missing_note: "\<not> os_forced_detached st \<Longrightarrow> note_missing now st (e, missing) =
    (let m = fv_market_id (os_view st)
     in (ensure_market m e, aput m (points_of missing m \<union> missing_points e now st) missing))"
  by (simp add: note_missing_def points_of_def Let_def)

lemma note_missing_fold:
  assumes "market_bars e = market_bars e0" "distinct (map fst acc)" "\<forall>ps \<in> snd ` set acc. finite ps"
    and "fold (note_missing now) sel (e, acc) = (e', acc')"
  shows "market_bars e' = market_bars e0 \<and> oe_states e' = oe_states e \<and> oe_provider e' = oe_provider e \<and>
    distinct (map fst acc') \<and> (\<forall>ps \<in> snd ` set acc'. finite ps) \<and>
    (\<forall>m. points_of acc' m = points_of acc m \<union> wanted e0 now sel m)"
  using assms
proof (induction sel arbitrary: e acc)
  case Nil
  then show ?case by (simp add: wanted_def)
next
  case (Cons st sel)
  show ?case
  proof (cases "os_forced_detached st")
    case True
    then have "fold (note_missing now) sel (e, acc) = (e', acc')" using Cons.prems(4) note_missing_skip [OF True] by simp
    moreover have "wanted e0 now (st # sel) m = wanted e0 now sel m" for m using True by (auto simp: wanted_def)
    ultimately show ?thesis using Cons.IH [OF Cons.prems(1-3)] by simp
  next
    case False
    let ?m = "fv_market_id (os_view st)"
    let ?acc = "aput ?m (points_of acc ?m \<union> missing_points e now st) acc"
    have f: "fold (note_missing now) sel (ensure_market ?m e, ?acc) = (e', acc')"
      using Cons.prems(4) note_missing_note [OF False] by (simp add: Let_def)
    have fin: "finite (points_of acc ?m \<union> missing_points e now st)"
      using Cons.prems(3) by (force simp: points_of_def missing_points_def Let_def dest: map_of_SomeD split: option.splits)
    have "\<forall>ps \<in> snd ` set ?acc. finite ps"
      using fin Cons.prems(3) by (auto simp: aput_def split: if_splits)
    note IH = Cons.IH [OF _ distinct_aput [OF Cons.prems(2)] this f]
    have "points_of ?acc m \<union> wanted e0 now sel m = points_of acc m \<union> wanted e0 now (st # sel) m" for m
      using False missing_points_cong [OF Cons.prems(1)] by (auto simp: points_of_def map_of_aput wanted_def)
    with IH Cons.prems(1) show ?thesis by simp
  qed
qed

text \<open>The minutes a request asks for.\<close>

abbreviation request_points :: "string \<times> int \<times> int \<Rightarrow> (string \<times> int) list" where
  "request_points \<equiv> \<lambda>(m, s, t). map (Pair m) (minute_opens s t)"

lemma market_request_points:
  assumes "finite ps"
  shows "concat (map request_points (market_requests m ps)) = map (Pair m) (sorted_list_of_set ps)"
proof -
  have "concat (map request_points (map (\<lambda>b. (m, hd b, last b + ONE_MINUTE_MS)) bs)) = map (Pair m) (concat bs)"
    if "\<forall>b \<in> set bs. minute_run b" for bs
    using that by (induction bs) (auto simp: minute_run_opens)
  from this [OF group_points_runs] show ?thesis by (simp add: market_requests_def concat_group_points)
qed

lemma concat_map_concat: "concat (map f (concat xss)) = concat (map (\<lambda>xs. concat (map f xs)) xss)"
  by (induction xss) auto

lemma distinct_concat_keys:
  assumes "distinct (map fst al)"
  shows "distinct (concat (map (\<lambda>(m, ps). map (Pair m) (sorted_list_of_set ps)) al))"
  using assms by (induction al) (auto simp: distinct_map inj_on_def image_iff)

lemma points_of_iff:
  assumes "distinct (map fst al)"
  shows "p \<in> points_of al m \<longleftrightarrow> (\<exists>ps. (m, ps) \<in> set al \<and> p \<in> ps)"
proof (cases "map_of al m")
  case None
  then have "(m, ps) \<notin> set al" for ps by (force simp: map_of_eq_None_iff)
  with None show ?thesis by (simp add: points_of_def)
next
  case (Some qs)
  then have "(m, ps) \<in> set al \<longleftrightarrow> ps = qs" for ps
    by (metis map_of_is_SomeI [OF assms] map_of_SomeD option.inject)
  with Some show ?thesis by (simp add: points_of_def)
qed

lemma all_request_points:
  assumes "distinct (map fst al)" "\<forall>ps \<in> snd ` set al. finite ps"
  defines "reqs \<equiv> concat (map (\<lambda>(m, ps). market_requests m ps) (sort_key fst al))"
  shows "distinct (concat (map request_points reqs))"
    and "set (concat (map request_points reqs)) = {(m, p). p \<in> points_of al m}"
proof -
  let ?al = "sort_key fst al"
  have eq: "concat (map request_points reqs) = concat (map (\<lambda>(m, ps). map (Pair m) (sorted_list_of_set ps)) ?al)"
    unfolding reqs_def concat_map_concat map_map comp_def
    using assms(2) by (intro arg_cong [where f = concat] map_cong refl) (auto simp: market_request_points)
  have d: "distinct (map fst ?al)"
    using assms(1) by (metis distinct_map distinct_sort mset_map mset_sort mset_eq_imp_distinct_iff)
  show "distinct (concat (map request_points reqs))" unfolding eq by (rule distinct_concat_keys [OF d])
  have "set (concat (map request_points reqs)) = {(m, p). \<exists>ps. (m, ps) \<in> set al \<and> p \<in> ps}"
    unfolding eq using assms(2) by force
  also have "\<dots> = {(m, p). p \<in> points_of al m}" by (simp add: points_of_iff [OF assms(1)])
  finally show "set (concat (map request_points reqs)) = {(m, p). p \<in> points_of al m}" .
qed

lemma recovery_requests_Inr:
  assumes "recovery_requests now sids e = Inr (reqs, e')"
  obtains sel al where "selected_states e sids = Inr sel" "0 \<le> now"
    "reqs = concat (map (\<lambda>(m, ps). market_requests m ps) (sort_key fst al))"
    "distinct (map fst al)" "\<forall>ps \<in> snd ` set al. finite ps" "\<And>m. points_of al m = wanted e now sel m"
    "market_bars e' = market_bars e" "oe_states e' = oe_states e" "oe_provider e' = oe_provider e"
proof -
  from assms obtain sel where sel: "selected_states e sids = Inr sel" "0 \<le> now"
    and f: "(case fold (note_missing now) sel (e, []) of (e', missing) \<Rightarrow>
      Inr (concat (map (\<lambda>(m, ps). market_requests m ps) (sort_key fst missing)), e')) = (Inr (reqs, e') :: _ res)"
    by (auto simp: recovery_requests_def validate_now_def res_simps split: if_splits)
  obtain e1 al where fold: "fold (note_missing now) sel (e, []) = (e1, al)" by force
  from note_missing_fold [OF refl _ _ this] have n: "market_bars e1 = market_bars e" "oe_states e1 = oe_states e"
    "oe_provider e1 = oe_provider e" "distinct (map fst al)" "\<forall>ps \<in> snd ` set al. finite ps"
    "\<And>m. points_of al m = wanted e now sel m" by (simp_all add: points_of_def)
  from f fold have "reqs = concat (map (\<lambda>(m, ps). market_requests m ps) (sort_key fst al))" "e1 = e'" by simp_all
  with that sel n show ?thesis by blast
qed

lemma wanted_iff: "p \<in> wanted e now sel m \<longleftrightarrow>
  (\<exists>st \<in> set sel. \<not> os_forced_detached st \<and> fv_market_id (os_view st) = m \<and>
     p \<in> set (minute_opens (fv_outcome_start_ms (os_view st))
       (elapsed_end (fv_outcome_start_ms (os_view st)) (required_end st) now)) \<and>
     map_of (market_bars e m) p = None)"
  by (auto simp: wanted_def missing_points_def Let_def)

lemma minute_opens_aligned: "aligned s \<Longrightarrow> p \<in> set (minute_opens s t) \<Longrightarrow> aligned p"
  by (auto simp: minute_opens_def aligned_add)

lemma requests_maximal:
  assumes "distinct (map fst al)" "\<forall>ps \<in> snd ` set al. finite ps" "\<forall>m. \<forall>p \<in> points_of al m. aligned p"
    and "(m, s, t) \<in> set (concat (map (\<lambda>(m, ps). market_requests m ps) (sort_key fst al)))"
  shows "t \<notin> points_of al m"
proof -
  from assms(4) obtain ps where ps: "(m, ps) \<in> set al" and r: "(m, s, t) \<in> set (market_requests m ps)"
    by (auto simp: market_requests_def)
  have eq: "points_of al m = ps" using ps assms(1) by (simp add: points_of_def)
  have fin: "finite ps" using ps assms(2) by force
  from r obtain b where "b \<in> set (group_points 0 (sorted_list_of_set ps))" "t = last b + ONE_MINUTE_MS"
    by (auto simp: market_requests_def)
  moreover have "\<forall>b \<in> set (group_points 0 (sorted_list_of_set ps)). last b + ONE_MINUTE_MS \<notin> set (sorted_list_of_set ps)"
    using assms(3) eq fin by (intro group_points_gap) auto
  ultimately show ?thesis using eq fin by auto
qed

lemma request_nonempty:
  assumes "(m, s, t) \<in> set (concat (map (\<lambda>(m, ps). market_requests m ps) al))"
  shows "s < t"
proof -
  from assms obtain i ps b where b: "b \<in> set (group_points i ps)" "s = hd b" "t = last b + ONE_MINUTE_MS"
    by (auto simp: market_requests_def)
  with group_points_runs have "minute_run b" by blast
  moreover from this have "b \<noteq> []" by (simp add: minute_run_def)
  ultimately show ?thesis using b by (simp add: minute_run_last ONE_MINUTE_MS_def)
qed

text \<open>
  C27: the backfill requests ask for exactly the elapsed minutes that some
  selected, still attached plan requires and for which no bar is retained; no minute is requested twice,
  and no request can be extended: the minute after its end is not missing. Deriving them does not
  change the evidence.
\<close>

theorem recovery_requests_exact:
  assumes "recovery_requests now sids e = Inr (reqs, e')"
    and "selected_states e sids = Inr sel" "\<forall>st \<in> set sel. aligned (fv_outcome_start_ms (os_view st))"
  defines "missing m p \<equiv> map_of (market_bars e m) p = None \<and>
    (\<exists>st \<in> set sel. \<not> os_forced_detached st \<and> fv_market_id (os_view st) = m \<and>
     p \<in> set (minute_opens (fv_outcome_start_ms (os_view st))
       (elapsed_end (fv_outcome_start_ms (os_view st)) (required_end st) now)))"
  shows "distinct (concat (map (\<lambda>(m, s, t). map (Pair m) (minute_opens s t)) reqs)) \<and>
    set (concat (map (\<lambda>(m, s, t). map (Pair m) (minute_opens s t)) reqs)) = {(m, p). missing m p} \<and>
    (\<forall>(m, s, t) \<in> set reqs. s < t \<and> \<not> missing m t) \<and> market_bars e' = market_bars e"
proof -
  obtain sel' al where "selected_states e sids = Inr sel'"
    and r: "reqs = concat (map (\<lambda>(m, ps). market_requests m ps) (sort_key fst al))"
    and d: "distinct (map fst al)" "\<forall>ps \<in> snd ` set al. finite ps"
    and "\<And>m. points_of al m = wanted e now sel' m" and mb: "market_bars e' = market_bars e"
    by (rule recovery_requests_Inr [OF assms(1)]) blast
  then have p: "points_of al m = wanted e now sel m" for m using assms(2) by simp
  have miss: "p \<in> points_of al m \<longleftrightarrow> missing m p" for m p unfolding p wanted_iff assms(4) by auto
  have "aligned q" if "q \<in> wanted e now sel m" for m q
    using assms(3) that minute_opens_aligned [of _ q] unfolding wanted_iff by blast
  then have al: "\<forall>m. \<forall>p \<in> points_of al m. aligned p" by (simp add: p)
  have max: "\<forall>(m, s, t) \<in> set reqs. s < t \<and> \<not> missing m t"
    using request_nonempty [where al = "sort_key fst al"] requests_maximal [OF d al] by (auto simp: r miss simp del: set_concat)
  have pts: "distinct (concat (map request_points reqs))" "set (concat (map request_points reqs)) = {(m, p). missing m p}"
    using all_request_points [OF d] by (simp_all only: r miss)
  show ?thesis by (intro conjI pts max mb)
qed

section \<open>One recovery from a complete provider\<close>

definition retained :: "outcome_engine \<Rightarrow> string \<Rightarrow> int \<Rightarrow> bool" where
  "retained e m p \<longleftrightarrow> map_of (market_bars e m) p \<noteq> None"

text \<open>Later evidence of the same plans.\<close>

definition grown :: "outcome_engine \<Rightarrow> outcome_engine \<Rightarrow> bool" where
  "grown e e' \<longleftrightarrow> oe_states e' = oe_states e \<and> (\<forall>m p. retained e m p \<longrightarrow> retained e' m p)"

lemma grown_refl: "grown e e"
  by (simp add: grown_def)

lemma grown_trans: "grown e e' \<Longrightarrow> grown e' e'' \<Longrightarrow> grown e e''"
  by (simp add: grown_def)

lemma grown_retained: "grown e e' \<Longrightarrow> retained e m p \<Longrightarrow> retained e' m p"
  by (simp add: grown_def)

lemma grown_requires: "grown e e' \<Longrightarrow> requires_bar e' b = requires_bar e b"
  by (simp add: grown_def requires_bar_def)

lemma admit_grown: "grown e (admit b e)"
  by (auto simp: grown_def retained_def admit_bar_def Let_def market_bars_aput map_of_aput split: option.splits)

lemma admit_retained: "requires_bar e b \<Longrightarrow> retained (admit b e) (om_market_id b) (om_open_time_ms b)"
  by (auto simp: retained_def admit_bar_def Let_def market_bars_aput map_of_aput split: option.splits)

lemma rfold_collects:
  assumes "\<And>x s. x \<in> set xs \<Longrightarrow> grown e s \<Longrightarrow> \<exists>t. f x s = Inr t \<and> grown s t \<and> (\<forall>m p. K x m p \<longrightarrow> retained t m p)"
    and "grown e s"
  shows "\<exists>t. rfold f xs s = Inr t \<and> grown s t \<and> (\<forall>x \<in> set xs. \<forall>m p. K x m p \<longrightarrow> retained t m p)"
  using assms
proof (induction xs arbitrary: s)
  case Nil
  then show ?case by (simp add: grown_refl)
next
  case (Cons x xs)
  obtain u where u: "f x s = Inr u" "grown s u" "\<forall>m p. K x m p \<longrightarrow> retained u m p"
    using Cons.prems(1) [OF _ Cons.prems(2), of x] by auto
  have "grown e u" using Cons.prems(2) u(2) by (rule grown_trans)
  from Cons.IH [OF _ this] Cons.prems(1) obtain t where t: "rfold f xs u = Inr t" "grown u t"
      "\<forall>x \<in> set xs. \<forall>m p. K x m p \<longrightarrow> retained t m p" by auto
  have "grown s t" using u(2) t(2) by (rule grown_trans)
  moreover have "\<forall>m p. K x m p \<longrightarrow> retained t m p" using u(3) grown_retained [OF t(2)] by simp
  ultimately show ?case using u(1) t by simp
qed

lemma admit_recovered_collects:
  assumes "\<forall>b \<in> set bs. om_market_id b = m \<and> s \<le> om_open_time_ms b \<and> om_open_time_ms b < t \<and> requires_bar e b"
    and "grown e e1"
  shows "\<exists>e2. rfold (admit_recovered m s t) bs e1 = Inr e2 \<and> grown e1 e2 \<and>
    (\<forall>b \<in> set bs. \<forall>m' p. (m', p) = (m, om_open_time_ms b) \<longrightarrow> retained e2 m' p)"
proof (rule rfold_collects [OF _ assms(2)])
  fix b e3
  assume b: "b \<in> set bs" "grown e e3"
  then have "requires_bar e3 b" "om_market_id b = m" "s \<le> om_open_time_ms b \<and> om_open_time_ms b < t"
    using assms(1) grown_requires [OF b(2)] by simp_all
  then show "\<exists>e4. admit_recovered m s t b e3 = Inr e4 \<and> grown e3 e4 \<and>
      (\<forall>m' p. (m', p) = (m, om_open_time_ms b) \<longrightarrow> retained e4 m' p)"
    using admit_retained [of e3 b] by (simp add: admit_recovered_def admit_grown)
qed

text \<open>A provider that returns one bar per requested minute.\<close>

definition complete_provider :: "backfill \<Rightarrow> bool" where
  "complete_provider prov \<longleftrightarrow>
     (\<forall>m s t. map om_open_time_ms (prov m s t) = minute_opens s t \<and> (\<forall>b \<in> set (prov m s t). om_market_id b = m))"

lemma selected_states_member:
  "selected_states e sids = Inr sel \<Longrightarrow> st \<in> set sel \<Longrightarrow> st \<in> snd ` set (oe_states e)"
  by (force simp: selected_states_def lookup_state_def split: option.splits dest!: rmap_Inr_set map_of_SomeD)

lemma wanted_required:
  assumes "selected_states e sids = Inr sel" "p \<in> wanted e now sel m" "om_market_id b = m" "om_open_time_ms b = p"
  shows "requires_bar e b"
proof -
  from assms(2) obtain st where st: "st \<in> set sel" "fv_market_id (os_view st) = m"
    and p: "p \<in> set (minute_opens (fv_outcome_start_ms (os_view st))
       (elapsed_end (fv_outcome_start_ms (os_view st)) (required_end st) now))" by (auto simp: wanted_iff)
  have "fv_outcome_start_ms (os_view st) \<le> original_deadline_ms (os_view st)"
    by (simp add: original_deadline_ms_def ONE_MINUTE_MS_def)
  then have "elapsed_end (fv_outcome_start_ms (os_view st)) (required_end st) now \<le> required_end st"
    using required_end_ge [of st] by (intro elapsed_end_le) linarith
  with minute_opens_bounds [OF p] st assms(3,4) have "state_requires st (om_market_id b) (om_open_time_ms b)"
    by (simp add: state_requires_def)
  with selected_states_member [OF assms(1) st(1)] show ?thesis by (force simp: requires_bar_def list_ex_iff)
qed

lemma recovery_requests_returns:
  assumes "selected_states e sids = Inr sel" "0 \<le> now"
  shows "\<exists>reqs e'. recovery_requests now sids e = Inr (reqs, e')"
  using assms by (auto simp: recovery_requests_def validate_now_def rguard_def split: prod.splits)

lemma no_wanted_no_requests:
  assumes "recovery_requests now sids e = Inr (reqs, e')" "selected_states e sids = Inr sel" "\<And>m. wanted e now sel m = {}"
  shows "reqs = []"
proof -
  obtain sel' al where "selected_states e sids = Inr sel'"
    and r: "reqs = concat (map (\<lambda>(m, ps). market_requests m ps) (sort_key fst al))"
    and d: "distinct (map fst al)" "\<forall>ps \<in> snd ` set al. finite ps" and "\<And>m. points_of al m = wanted e now sel' m"
    by (rule recovery_requests_Inr [OF assms(1)]) blast
  then have "points_of al m = {}" for m using assms(2,3) by simp
  then have "ps = {}" if "(m, ps) \<in> set al" for m ps
    using that map_of_is_SomeI [OF d(1) that] by (metis points_of_def option.simps(5))
  then have "market_requests m ps = []" if "(m, ps) \<in> set al" for m ps using that by (fastforce simp: market_requests_def)
  then show ?thesis by (auto simp: r)
qed

lemma selected_states_cong: "oe_states e = oe_states e' \<Longrightarrow> selected_states e = selected_states e'"
proof -
  assume "oe_states e = oe_states e'"
  then have "lookup_state e = lookup_state e'" "oe_states e = oe_states e'" by (simp_all add: lookup_state_def fun_eq_iff)
  then have "selected_states e sids = selected_states e' sids" for sids by (cases sids) (simp_all add: selected_states_def)
  then show ?thesis by (rule ext)
qed

abbreviation request_minute :: "string \<times> int \<times> int \<Rightarrow> string \<Rightarrow> int \<Rightarrow> bool" where
  "request_minute x m q \<equiv> (case x of (m', s, t) \<Rightarrow> m = m' \<and> q \<in> set (minute_opens s t))"

lemma request_admitted:
  assumes "complete_provider prov" "selected_states e sids = Inr sel" "grown e e3"
    and "\<forall>q \<in> set (minute_opens s t). q \<in> wanted e now sel m"
  shows "\<exists>e4. rfold (admit_recovered m s t) (prov m s t) e3 = Inr e4 \<and> grown e3 e4 \<and>
    (\<forall>q \<in> set (minute_opens s t). retained e4 m q)"
proof -
  have prov: "om_open_time_ms ` set (prov m s t) = set (minute_opens s t)" "\<forall>b \<in> set (prov m s t). om_market_id b = m"
    using assms(1) by (simp_all add: complete_provider_def flip: set_map)
  have "\<forall>b \<in> set (prov m s t). om_market_id b = m \<and> s \<le> om_open_time_ms b \<and> om_open_time_ms b < t \<and> requires_bar e b"
  proof
    fix b assume b: "b \<in> set (prov m s t)"
    then have "om_open_time_ms b \<in> set (minute_opens s t)" using prov(1) by blast
    then show "om_market_id b = m \<and> s \<le> om_open_time_ms b \<and> om_open_time_ms b < t \<and> requires_bar e b"
      using b prov(2) minute_opens_bounds wanted_required [OF assms(2)] assms(4) by blast
  qed
  from admit_recovered_collects [OF this assms(3)] show ?thesis by (force simp flip: prov(1))
qed

lemma recover_admits:
  assumes "oe_provider e = Some prov" "complete_provider prov" "selected_states e sids = Inr sel" "0 \<le> now"
  shows "\<exists>reqs e2. recover now sids e = Inr (reqs, e2) \<and> grown e e2 \<and> (\<forall>m. \<forall>p \<in> wanted e now sel m. retained e2 m p)"
proof -
  obtain reqs e1 where r: "recovery_requests now sids e = Inr (reqs, e1)"
    using recovery_requests_returns [OF assms(3,4)] by blast
  obtain sel' al where "selected_states e sids = Inr sel'"
    and rq: "reqs = concat (map (\<lambda>(m, ps). market_requests m ps) (sort_key fst al))"
    and d: "distinct (map fst al)" "\<forall>ps \<in> snd ` set al. finite ps" and "\<And>m. points_of al m = wanted e now sel' m"
    and e1: "market_bars e1 = market_bars e" "oe_states e1 = oe_states e"
    by (rule recovery_requests_Inr [OF r]) blast
  then have p: "points_of al m = wanted e now sel m" for m using assms(3) by simp
  have pts: "(\<exists>x \<in> set reqs. request_minute x m q) \<longleftrightarrow> q \<in> wanted e now sel m" for m q
  proof -
    have "(\<exists>x \<in> set reqs. request_minute x m q) \<longleftrightarrow> (m, q) \<in> set (concat (map request_points reqs))"
      by (auto split: prod.splits) (metis image_eqI)
    also have "\<dots> \<longleftrightarrow> q \<in> wanted e now sel m" using all_request_points(2) [OF d] by (simp only: rq p) simp
    finally show ?thesis .
  qed
  have g: "grown e e1" using e1 by (simp add: grown_def retained_def)
  let ?f = "\<lambda>(m, s, t). rfold (admit_recovered m s t) (prov m s t)"
  have "\<exists>e2. rfold ?f reqs e1 = Inr e2 \<and> grown e1 e2 \<and> (\<forall>x \<in> set reqs. \<forall>m q. request_minute x m q \<longrightarrow> retained e2 m q)"
  proof (rule rfold_collects [OF _ g])
    fix x e3 assume x: "x \<in> set reqs" and g3: "grown e e3"
    obtain m s t where xe: "x = (m, s, t)" by (cases x)
    have "\<forall>q \<in> set (minute_opens s t). q \<in> wanted e now sel m" using x xe pts by force
    from request_admitted [OF assms(2,3) g3 this]
    show "\<exists>e4. ?f x e3 = Inr e4 \<and> grown e3 e4 \<and> (\<forall>m q. request_minute x m q \<longrightarrow> retained e4 m q)" by (auto simp: xe)
  qed
  then obtain e2 where e2: "rfold ?f reqs e1 = Inr e2" "grown e1 e2"
    "\<forall>x \<in> set reqs. \<forall>m q. request_minute x m q \<longrightarrow> retained e2 m q" by blast
  have "recover now sids e = Inr (reqs, e2)" using assms(1,4) r e2(1) by (simp add: recover_def validate_now_def rguard_def)
  moreover have "retained e2 m q" if "q \<in> wanted e now sel m" for m q
  proof -
    from that obtain x where "x \<in> set reqs" "request_minute x m q" unfolding pts [symmetric] by (rule bexE)
    with e2(3) show ?thesis by metis
  qed
  ultimately show ?thesis using grown_trans [OF g e2(2)] by (intro exI [of _ reqs] exI [of _ e2]) simp
qed

text \<open>
  C28: recovery makes progress. For attached plans and a non-negative clock, with a
  provider that returns one bar per requested minute, \<open>recover\<close> returns without error, loses no
  retained minute, and afterwards there is nothing left to request at that time.
\<close>

theorem recover_closes_gaps:
  assumes "oe_provider e = Some prov" "complete_provider prov" "selected_states e sids = Inr sel" "0 \<le> now"
  shows "\<exists>reqs e2 e3. recover now sids e = Inr (reqs, e2) \<and> recovery_requests now sids e2 = Inr ([], e3) \<and>
    (\<forall>m p. map_of (market_bars e m) p \<noteq> None \<longrightarrow> map_of (market_bars e2 m) p \<noteq> None)"
proof -
  obtain reqs e2 where r: "recover now sids e = Inr (reqs, e2)" and g: "grown e e2"
    and w: "\<forall>m. \<forall>p \<in> wanted e now sel m. retained e2 m p" using recover_admits [OF assms] by blast
  have s2: "selected_states e2 sids = Inr sel"
    using assms(3) g selected_states_cong [of e2 e] by (simp add: grown_def)
  have "retained e2 m p" if "p \<in> set (minute_opens (fv_outcome_start_ms (os_view st))
      (elapsed_end (fv_outcome_start_ms (os_view st)) (required_end st) now))"
    "st \<in> set sel" "\<not> os_forced_detached st" "fv_market_id (os_view st) = m" for m p st
  proof (cases "retained e m p")
    case True
    then show ?thesis by (rule grown_retained [OF g])
  next
    case False
    with that have "p \<in> wanted e now sel m" unfolding wanted_iff retained_def by (intro bexI [of _ st]) simp_all
    with w show ?thesis by blast
  qed
  then have "q \<notin> wanted e2 now sel m" for m q unfolding wanted_iff retained_def by blast
  then have "wanted e2 now sel m = {}" for m by blast
  with recovery_requests_returns [OF s2 assms(4)] no_wanted_no_requests [OF _ s2]
  have "\<exists>e3. recovery_requests now sids e2 = Inr ([], e3)" by blast
  then show ?thesis using r g unfolding grown_def retained_def by blast
qed

section \<open>Instances\<close>

definition sample_provider :: backfill where
  "sample_provider m s t = map (\<lambda>p. (sample_minute 0 ''h'')\<lparr> om_market_id := m, om_open_time_ms := p,
     om_close_time_ms := p + ONE_MINUTE_MS \<rparr>) (minute_opens s t)"

definition recovering :: outcome_engine where
  "recovering = snd (projr (attach (sample_view ''a'' 60000) 60000 False (new_engine (Some sample_provider) False)))"

definition recovering_gap :: outcome_engine where
  "recovering_gap = snd (admit_bar (sample_minute 2 ''x'') recovering)"

lemma sample_provider_complete: "complete_provider sample_provider"
  by (simp add: complete_provider_def sample_provider_def comp_def)

lemma recovering_gap_selected: "selected_states recovering_gap None = Inr [\<lparr> os_view = sample_view ''a'' 60000,
    os_transitions = [], os_forced_detached = False \<rparr>]"
  by code_simp

lemma recovering_gap_requests:
  "map_sum id fst (recovery_requests 240000 None recovering_gap) = Inr [(''BTC'', 60000, 120000), (''BTC'', 180000, 240000)]"
  by code_simp

theorem recovery_requests_exact_witness:
  "\<exists>e'. recovery_requests 240000 None recovering_gap = Inr ([(''BTC'', 60000, 120000), (''BTC'', 180000, 240000)], e') \<and>
     map_of (market_bars recovering_gap ''BTC'') 60000 = None \<and> market_bars e' = market_bars recovering_gap"
proof -
  obtain e' where e': "recovery_requests 240000 None recovering_gap = Inr ([(''BTC'', 60000, 120000), (''BTC'', 180000, 240000)], e')"
    using recovering_gap_requests by (cases "recovery_requests 240000 None recovering_gap") auto
  have al: "\<forall>st \<in> set [\<lparr> os_view = sample_view ''a'' 60000, os_transitions = [], os_forced_detached = False \<rparr>].
      aligned (fv_outcome_start_ms (os_view st))" by code_simp
  have m: "60000 \<in> set (minute_opens 60000 120000)" by code_simp
  let ?pts = "set (concat (map request_points [(''BTC'', 60000, 120000), (''BTC'', 180000, 240000)]))"
  note exact = recovery_requests_exact [OF e' recovering_gap_selected al]
  have "(''BTC'', 60000) \<in> ?pts" using m by simp
  then have "map_of (market_bars recovering_gap ''BTC'') 60000 = None"
    unfolding exact [THEN conjunct2, THEN conjunct1] by simp
  then show ?thesis using e' exact by blast
qed

theorem recover_closes_gaps_witness:
  "\<exists>reqs e2 e3. recover 240000 None recovering_gap = Inr (reqs, e2) \<and> recovery_requests 240000 None e2 = Inr ([], e3)"
proof -
  have "oe_provider recovering_gap = Some sample_provider"
    by (simp add: recovering_gap_def recovering_def attach_def admit_bar_def new_engine_def sample_view_def validate_now_def
        rguard_def synchronize_subscriptions_def ensure_market_def Let_def split: option.splits)
  from recover_closes_gaps [OF this sample_provider_complete recovering_gap_selected, of 240000] show ?thesis by auto
qed

end
