(* ===== verification/Planning.thy ===== *)
theory Planning
  imports Outcome_Models
begin

text \<open>
  Public-only plan arithmetic, \<^verbatim>\<open>src/src/trader_assist_v0/multi_asset_shadow/planning.py\<close>, and the
  two steps of \<^verbatim>\<open>integration.py\<close> around it: the resolution of the frozen structural target before
  planning and the view of the accepted plan that is attached to the outcome engine. The sides of this
  module have the values of those of the strategy kernel.
\<close>

section \<open>Contracts\<close>

definition HARD_MAX_SPREAD_BPS :: decimal where "HARD_MAX_SPREAD_BPS = 40"
definition HARD_MAX_PRIMARY_ONE_WAY_SLIPPAGE_BPS :: decimal where
  "HARD_MAX_PRIMARY_ONE_WAY_SLIPPAGE_BPS = 35"
definition PRIMARY_REFERENCE_NOTIONAL_USD :: decimal where "PRIMARY_REFERENCE_NOTIONAL_USD = 1000"
definition REFERENCE_SHADOW_EQUITY_USD :: decimal where "REFERENCE_SHADOW_EQUITY_USD = 200"
definition REFERENCE_MAX_NOTIONAL_USD :: decimal where "REFERENCE_MAX_NOTIONAL_USD = 5000"

datatype entry_quality = IDEAL | LATE_BUT_WITHIN_CHASE

datatype plan_rejection =
    BBO_INVALID_OR_STALE | LIQUIDITY_HARD_LIMIT | CHASE_LIMIT_EXCEEDED | TARGET_FEASIBILITY_FAILED

record public_bbo =
  bbo_best_bid :: decimal
  bbo_best_ask :: decimal
  bbo_age_seconds :: decimal
  bbo_observed_at_ms :: int
  bbo_market_id :: string
  bbo_coin :: string

definition spread_bps :: "public_bbo \<Rightarrow> decimal res" where
  "spread_bps b =
     (if bbo_best_bid b \<le> 0 \<or> bbo_best_ask b \<le> bbo_best_bid b then Inl (PlanningError ''invalid BBO'')
      else Inr (dmul (ddiv (dsub (bbo_best_ask b) (bbo_best_bid b))
                           (ddiv (dadd (bbo_best_ask b) (bbo_best_bid b)) 2)) 10000))"

record cost_model =
  cm_version :: string
  cm_fee_bps_per_side :: decimal
  cm_slippage_bps_per_side :: decimal
  cm_stress_slippage_bps_per_side :: decimal

definition make_cost_model :: "cost_model \<Rightarrow> cost_model res" where
  "make_cost_model c =
     (if cm_version c = [] \<or> cm_fee_bps_per_side c < 0 \<or> cm_slippage_bps_per_side c < 0 \<or>
         cm_stress_slippage_bps_per_side c < 0
      then Inl (PlanningError ''cost configuration is invalid'') else Inr c)"

record liquidity_assessment =
  la_market_id :: string
  la_coin :: string
  la_side :: side
  la_observed_at_ms :: int
  la_best_bid :: decimal
  la_best_ask :: decimal
  la_reference_notional_usd :: decimal
  la_depth_consumed :: "(decimal \<times> decimal) list"
  la_executable_price :: "decimal option"
  la_one_way_slippage_bps :: "decimal option"
  la_sufficient_depth :: bool
  la_provenance_hash :: string

definition fresh_for :: "liquidity_assessment \<Rightarrow> string \<Rightarrow> string \<Rightarrow> side \<Rightarrow> int \<Rightarrow> int \<Rightarrow> bool" where
  "fresh_for l market coin sd now max_age \<longleftrightarrow>
     la_market_id l = market \<and> la_coin l = coin \<and> la_side l = sd \<and>
     la_reference_notional_usd l = PRIMARY_REFERENCE_NOTIONAL_USD \<and> la_sufficient_depth l \<and>
     la_executable_price l \<noteq> None \<and> la_one_way_slippage_bps l \<noteq> None \<and>
     0 \<le> now - la_observed_at_ms l \<and> now - la_observed_at_ms l \<le> max_age"

record plan_inputs =
  pi_market_id :: string
  pi_side :: side
  pi_ideal_entry_low :: decimal
  pi_ideal_entry_high :: decimal
  pi_chase_limit :: decimal
  pi_structural_stop :: decimal
  pi_structural_target :: decimal
  pi_liquidity :: "liquidity_assessment option"
  pi_cost_model :: "cost_model option"
  pi_now_ms :: int
  pi_price_max_decimals :: int
  pi_price_max_significant_figures :: int
  pi_size_decimals :: int
  pi_max_leverage :: "decimal option"

record plan_draft =
  pd_side :: side
  pd_planned_entry :: decimal
  pd_stop :: decimal
  pd_tp1 :: decimal
  pd_tp2 :: "decimal option"
  pd_risk_distance :: decimal
  pd_net_r_to_target :: decimal
  pd_entry_quality :: entry_quality
  pd_reference_qty_1pct :: decimal
  pd_reference_qty_2pct :: decimal
  pd_reference_notional_1pct :: decimal
  pd_reference_notional_2pct :: decimal
  pd_reference_size_unavailable :: bool
  pd_reference_size_only :: string
  pd_not_account_authoritative :: string
  pd_cost_model_version :: string
  pd_submission_status :: string

section \<open>Price precision\<close>

text \<open>
  \<open>value.quantize(Decimal(1).scaleb(e), rounding=ROUND_DOWN)\<close>: the multiple of \<open>10 ^ e\<close> next to the
  value towards zero; the operation is invalid when its coefficient has more than 28 digits. The code
  takes the larger of two quanta; as powers of ten they are compared by their exponents.
\<close>

definition trunc_zero :: "rat \<Rightarrow> int" where
  "trunc_zero x = (if 0 \<le> x then \<lfloor>x\<rfloor> else \<lceil>x\<rceil>)"

definition quantize_down :: "decimal \<Rightarrow> int \<Rightarrow> decimal res" where
  "quantize_down v e =
     (let c = trunc_zero (v * 10 powi (- e))
      in if 10 ^ 28 \<le> \<bar>c\<bar> then Inl InvalidOperation else Inr (of_int c * 10 powi e))"

definition is_integral :: "decimal \<Rightarrow> bool" where
  "is_integral v \<longleftrightarrow> v = of_int \<lfloor>v\<rfloor>"

definition round_down :: "decimal \<Rightarrow> int \<Rightarrow> decimal res" where
  "round_down v decimals = quantize_down v (- decimals)"

definition round_provider_perp_price :: "decimal \<Rightarrow> int \<Rightarrow> int \<Rightarrow> decimal res" where
  "round_provider_perp_price v max_decimals significant_figures =
     (if v \<le> 0 \<or> max_decimals < 0 \<or> significant_figures \<le> 0
      then Inl (PlanningError ''price precision input is invalid'')
      else rbind (quantize_down v (- max_decimals)) (\<lambda>limited.
        if is_integral limited then Inr limited
        else quantize_down limited (max (- max_decimals) (adjusted limited - significant_figures + 1))))"

definition minimum_tick :: "decimal \<Rightarrow> int \<Rightarrow> int \<Rightarrow> decimal res" where
  "minimum_tick price max_decimals significant_figures =
     (if price \<le> 0 then Inl (PlanningError ''price precision input is invalid'')
      else if max_decimals < 0 \<or> significant_figures \<le> 0
      then Inl (PlanningError ''price precision input is invalid'')
      else if is_integral price then Inr 1
      else Inr (10 powi max (- max_decimals) (adjusted price - significant_figures + 1)))"

section \<open>The L2 gate\<close>

record l2_fill =
  fill_remaining :: rat
  fill_quote :: rat
  fill_base :: rat
  fill_consumed :: "(decimal \<times> decimal) list"

definition fill_level :: "decimal \<times> decimal \<Rightarrow> l2_fill \<Rightarrow> l2_fill" where
  "fill_level = (\<lambda>(price, size) f.
     let take_quote = min (price * size) (fill_remaining f)
     in if take_quote \<le> 0 then f
        else f\<lparr> fill_quote := fill_quote f + take_quote,
                fill_base := fill_base f + take_quote / price,
                fill_consumed := fill_consumed f @ [(price, rnd (take_quote / price))],
                fill_remaining := fill_remaining f - take_quote \<rparr>)"

text \<open>The loop over the levels, left once nothing remains.\<close>

fun fill_levels :: "(decimal \<times> decimal) list \<Rightarrow> l2_fill \<Rightarrow> l2_fill" where
  "fill_levels [] f = f"
| "fill_levels (l # ls) f =
     (let f' = fill_level l f
      in if fill_remaining f' = 0 then f' else fill_levels ls f')"

definition no_fill :: l2_fill where
  "no_fill = \<lparr> fill_remaining = PRIMARY_REFERENCE_NOTIONAL_USD, fill_quote = 0, fill_base = 0, fill_consumed = [] \<rparr>"

definition levels_outward :: "side \<Rightarrow> decimal \<Rightarrow> decimal \<Rightarrow> (decimal \<times> decimal) list \<Rightarrow> bool" where
  "levels_outward sd bid ask levels \<longleftrightarrow>
     (if sd = LONG
      then list_all (\<lambda>(p, _). ask \<le> p) levels \<and> list_all (\<lambda>(l, r). fst l \<le> fst r) (pairwise levels)
      else list_all (\<lambda>(p, _). p \<le> bid) levels \<and> list_all (\<lambda>(l, r). fst r \<le> fst l) (pairwise levels))"

definition assess_l2 ::
  "string \<Rightarrow> string \<Rightarrow> side \<Rightarrow> int \<Rightarrow> decimal \<Rightarrow> decimal \<Rightarrow> (decimal \<times> decimal) list \<Rightarrow> string \<Rightarrow>
   liquidity_assessment res" where
  "assess_l2 market coin sd observed bid ask levels provenance =
     rbind (rguard (bid \<le> 0 \<or> ask \<le> bid \<or> observed < 0) (PlanningError ''invalid BBO'')) (\<lambda>_.
     rbind (rguard (market = [] \<or> coin = [] \<or> provenance = []) (PlanningError ''L2 identity is invalid'')) (\<lambda>_.
     rbind (rguard (list_ex (\<lambda>(p, s). p \<le> 0 \<or> s \<le> 0) levels) (PlanningError ''L2 levels are invalid'')) (\<lambda>_.
     rbind (rguard (\<not> levels_outward sd bid ask levels)
       (PlanningError (if sd = LONG then ''L2 ask levels are not ordered outward''
                       else ''L2 bid levels are not ordered outward''))) (\<lambda>_.
     let f = fill_levels levels no_fill;
         base = \<lparr> la_market_id = market, la_coin = coin, la_side = sd, la_observed_at_ms = observed,
           la_best_bid = bid, la_best_ask = ask, la_reference_notional_usd = PRIMARY_REFERENCE_NOTIONAL_USD,
           la_depth_consumed = fill_consumed f, la_executable_price = None, la_one_way_slippage_bps = None,
           la_sufficient_depth = False, la_provenance_hash = provenance \<rparr>
     in if 0 < fill_remaining f \<or> fill_base f = 0 then Inr base
        else
          let vwap = fill_quote f / fill_base f;
              touch = (if sd = LONG then ask else bid);
              directional = (if sd = LONG then vwap - touch else touch - vwap)
          in if directional < 0 then Inl (PlanningError ''L2 VWAP direction is impossible'')
             else Inr (base\<lparr> la_executable_price := Some (rnd vwap),
               la_one_way_slippage_bps := Some (rnd (directional / touch * 10000)),
               la_sufficient_depth := True \<rparr>)))))"

section \<open>The plan\<close>

text \<open>Target multiples: \<open>tp1\<close> at one and \<open>tp2\<close> at no more than two risk distances.\<close>

definition plan_targets :: "plan_inputs \<Rightarrow> decimal \<Rightarrow> decimal \<times> decimal" where
  "plan_targets i entry =
     (if pi_side i = LONG
      then (dadd entry (dsub entry (pi_structural_stop i)),
            min (pi_structural_target i) (dadd entry (dmul 2 (dsub entry (pi_structural_stop i)))))
      else (dsub entry (dsub (pi_structural_stop i) entry),
            max (pi_structural_target i) (dsub entry (dmul 2 (dsub (pi_structural_stop i) entry)))))"

definition within_chase :: "plan_inputs \<Rightarrow> decimal \<Rightarrow> bool" where
  "within_chase i entry \<longleftrightarrow> (if pi_side i = LONG then entry \<le> pi_chase_limit i else pi_chase_limit i \<le> entry)"

definition stop_valid :: "plan_inputs \<Rightarrow> decimal \<Rightarrow> bool" where
  "stop_valid i entry \<longleftrightarrow> (if pi_side i = LONG then pi_structural_stop i < entry else entry < pi_structural_stop i)"

definition side_cost_bps :: "cost_model \<Rightarrow> decimal" where
  "side_cost_bps c = dadd (cm_fee_bps_per_side c) (cm_slippage_bps_per_side c)"

definition net_r :: "plan_inputs \<Rightarrow> cost_model \<Rightarrow> decimal \<Rightarrow> decimal \<Rightarrow> decimal" where
  "net_r i c entry risk =
     ddiv (dsub (dabs (dsub (pi_structural_target i) entry))
                (ddiv (dmul (dadd entry (pi_structural_target i)) (side_cost_bps c)) 10000)) risk"

definition reference_size :: "plan_inputs \<Rightarrow> cost_model \<Rightarrow> decimal \<Rightarrow> decimal \<Rightarrow> decimal \<Rightarrow> decimal res" where
  "reference_size i c entry risk budget =
     (let loss = dadd (dadd risk (ddiv (dmul entry (side_cost_bps c)) 10000))
                      (ddiv (dmul (pi_structural_stop i) (side_cost_bps c)) 10000);
          cap = (case pi_max_leverage i of None \<Rightarrow> REFERENCE_MAX_NOTIONAL_USD
                 | Some m \<Rightarrow> dmul REFERENCE_SHADOW_EQUITY_USD m)
      in rbind (rdiv budget loss) (\<lambda>by_risk.
         rbind (rdiv (min REFERENCE_MAX_NOTIONAL_USD cap) entry) (\<lambda>by_notional.
         round_down (min by_risk by_notional) (pi_size_decimals i))))"

text \<open>The draft once the gates have passed.\<close>

definition draft_plan :: "plan_inputs \<Rightarrow> cost_model \<Rightarrow> decimal \<Rightarrow> (plan_rejection + plan_draft) res" where
  "draft_plan i c entry =
     (let (tp1, tp2) = plan_targets i entry; risk = dabs (dsub entry (pi_structural_stop i)) in
      if \<not> within_chase i entry then Inr (Inl CHASE_LIMIT_EXCEEDED)
      else if \<not> stop_valid i entry \<or> risk \<le> 0 then Inl (PlanningError ''structural stop is invalid'')
      else if net_r i c entry risk < 1 then Inr (Inl TARGET_FEASIBILITY_FAILED)
      else
        rbind (reference_size i c entry risk (dmul REFERENCE_SHADOW_EQUITY_USD 0.01)) (\<lambda>one.
        rbind (reference_size i c entry risk (dmul REFERENCE_SHADOW_EQUITY_USD 0.02)) (\<lambda>two.
        Inr (Inr \<lparr> pd_side = pi_side i, pd_planned_entry = entry, pd_stop = pi_structural_stop i,
          pd_tp1 = tp1,
          pd_tp2 = (if ddiv (dabs (dsub (pi_structural_target i) entry)) risk < 1.25 then None else Some tp2),
          pd_risk_distance = risk, pd_net_r_to_target = net_r i c entry risk,
          pd_entry_quality = (if pi_ideal_entry_low i \<le> entry \<and> entry \<le> pi_ideal_entry_high i
            then IDEAL else LATE_BUT_WITHIN_CHASE),
          pd_reference_qty_1pct = one, pd_reference_qty_2pct = two,
          pd_reference_notional_1pct = dmul one entry, pd_reference_notional_2pct = dmul two entry,
          pd_reference_size_unavailable = (one = 0), pd_reference_size_only = ''YES'',
          pd_not_account_authoritative = ''YES'', pd_cost_model_version = cm_version c,
          pd_submission_status = ''NOT_SUBMITTED'' \<rparr>))))"

definition plan_entry :: "plan_inputs \<Rightarrow> public_bbo \<Rightarrow> decimal res" where
  "plan_entry i b =
     (let touch = (if pi_side i = LONG then bbo_best_ask b else bbo_best_bid b)
      in rbind (round_provider_perp_price touch (pi_price_max_decimals i) (pi_price_max_significant_figures i))
         (\<lambda>entry. Inr (if pi_side i = LONG \<and> entry < touch \<or> pi_side i = SHORT \<and> touch < entry
                       then touch else entry)))"

definition make_plan :: "plan_inputs \<Rightarrow> public_bbo \<Rightarrow> (plan_rejection + plan_draft) res" where
  "make_plan i b =
     (case pi_liquidity i of
        None \<Rightarrow> Inr (Inl LIQUIDITY_HARD_LIMIT)
      | Some l \<Rightarrow>
          if bbo_market_id b \<noteq> pi_market_id i \<or> bbo_coin b \<noteq> la_coin l then Inr (Inl BBO_INVALID_OR_STALE)
          else if \<not> (0 \<le> pi_now_ms i - bbo_observed_at_ms b \<and> pi_now_ms i - bbo_observed_at_ms b \<le> 10000)
          then Inr (Inl BBO_INVALID_OR_STALE)
          else (case spread_bps b of
             Inl _ \<Rightarrow> Inr (Inl BBO_INVALID_OR_STALE)
           | Inr spread \<Rightarrow>
               (case pi_cost_model i of
                  None \<Rightarrow> Inr (Inl LIQUIDITY_HARD_LIMIT)
                | Some c \<Rightarrow>
                    if \<not> fresh_for l (pi_market_id i) (bbo_coin b) (pi_side i) (pi_now_ms i) 10000
                    then Inr (Inl LIQUIDITY_HARD_LIMIT)
                    else if la_best_bid l \<noteq> bbo_best_bid b \<or> la_best_ask l \<noteq> bbo_best_ask b \<or>
                      la_observed_at_ms l \<noteq> bbo_observed_at_ms b
                    then Inr (Inl LIQUIDITY_HARD_LIMIT)
                    else if HARD_MAX_SPREAD_BPS < spread \<or>
                      (case la_one_way_slippage_bps l of None \<Rightarrow> True
                       | Some s \<Rightarrow> HARD_MAX_PRIMARY_ONE_WAY_SLIPPAGE_BPS < s)
                    then Inr (Inl LIQUIDITY_HARD_LIMIT)
                    else rbind (plan_entry i b) (draft_plan i c))))"

section \<open>Before and after the plan\<close>

text \<open>
  \<open>resolve_structural_target\<close> of the integration layer: the frozen target geometry of a confirmed
  decision, refused unless it lies beyond the chase limit on the side of the trade.
\<close>

definition target_of :: "strategy_decision \<Rightarrow> decimal res" where
  "target_of d =
     (case dec_target_reference d of
        None \<Rightarrow> Inl (TargetResolutionError ''formal decision has no target reference'')
      | Some r \<Rightarrow>
          (case target_price r of
             Some p \<Rightarrow> Inr p
           | None \<Rightarrow>
               if target_kind r = DIRECTIONAL_ZONE_SET_FROZEN then
                 (case frozen_directional_zones r of
                    [] \<Rightarrow> Inl (TargetResolutionError ''directional target lacks frozen zone evidence'')
                  | z # _ \<Rightarrow> Inr (if dec_side d = LONG then zone_low z else zone_high z))
               else if target_kind r = OPEN_SPACE_REFERENCE then
                 Inr (if dec_side d = LONG then dadd (zone_high (dec_zone_snapshot d)) (dec_a5_event d)
                      else dsub (zone_low (dec_zone_snapshot d)) (dec_a5_event d))
               else Inl (TargetResolutionError ''price-less target shape has no production resolver'')))"

definition resolve_structural_target :: "strategy_decision \<Rightarrow> decimal res" where
  "resolve_structural_target d =
     rbind (target_of d) (\<lambda>target.
     case (dec_chase_limit d, dec_structural_stop d) of
       (Some chase, Some stop) \<Rightarrow>
         if target \<le> 0 \<or> chase \<le> 0 \<or> stop \<le> 0
         then Inl (TargetResolutionError ''resolved target geometry is incomplete or invalid'')
         else if dec_side d = LONG then
           (if \<not> (stop < chase \<and> chase < target)
            then Inl (TargetResolutionError ''LONG target is not favorable beyond chase and stop'')
            else Inr target)
         else if \<not> (target < chase \<and> chase < stop)
         then Inl (TargetResolutionError ''SHORT target is not favorable beyond chase and stop'')
         else Inr target
     | _ \<Rightarrow> Inl (TargetResolutionError ''resolved target geometry is incomplete or invalid''))"

text \<open>The view \<open>process_formal_decision\<close> attaches after the evidence of a plan has been published.\<close>

definition formal_view :: "string \<Rightarrow> strategy_decision \<Rightarrow> int \<Rightarrow> plan_draft \<Rightarrow> formal_shadow_view" where
  "formal_view record_id d confirmed_ms p =
     \<lparr> fv_shadow_order_id = record_id, fv_market_id = dec_market_id d, fv_side = dec_side d,
       fv_setup_family = dec_setup_family d, fv_outcome_start_ms = confirmed_ms,
       fv_planned_entry = pd_planned_entry p, fv_stop = pd_stop p, fv_tp1 = pd_tp1 p,
       fv_atr = dec_a5_event d, fv_tp2 = pd_tp2 p,
       fv_zone_low = Some (zone_low (dec_zone_snapshot d)),
       fv_zone_high = Some (zone_high (dec_zone_snapshot d)),
       fv_state = FORMAL_SHADOW_PLAN, fv_active = True \<rparr>"

end
