(* ===== verification/Planning_Props.thy ===== *)
theory Planning_Props
  imports Planning
begin

text \<open>
  Properties of the plan arithmetic: rounding to legal prices, soundness of the L2 gate, what an
  accepted plan guarantees, and that every accepted plan can be attached to the outcome engine.
\<close>

section \<open>Legal prices\<close>

definition multiple_of_pow :: "int \<Rightarrow> rat \<Rightarrow> bool" where
  "multiple_of_pow e x \<longleftrightarrow> (\<exists>c. x = of_int c * 10 powi e)"

text \<open>
  The price rule of the provider: at most \<open>max_decimals\<close> decimals, and an integer or at most
  \<open>significant_figures\<close> significant digits.
\<close>

definition legal_price :: "int \<Rightarrow> int \<Rightarrow> rat \<Rightarrow> bool" where
  "legal_price max_decimals significant_figures x \<longleftrightarrow> multiple_of_pow (- max_decimals) x \<and>
     (multiple_of_pow 0 x \<or> representable (nat significant_figures) x)"

lemma powi10_not_nonpos [simp]: "\<not> (10::rat) powi e \<le> 0" "\<not> (10::rat) powi e < 0"
  using powi10_pos [of e] by linarith+

lemma multiple_of_pow_mono:
  assumes "multiple_of_pow e x" "e' \<le> e"
  shows "multiple_of_pow e' x"
proof -
  from assms(1) obtain c where "x = of_int c * 10 powi e" by (auto simp: multiple_of_pow_def)
  moreover have "(10::rat) powi e = of_int (10 ^ nat (e - e')) * 10 powi e'"
    unfolding pow10_powi using assms(2) by simp
  ultimately have "x = of_int (c * 10 ^ nat (e - e')) * 10 powi e'" by simp
  then show ?thesis unfolding multiple_of_pow_def by blast
qed

lemma is_integral_iff: "is_integral x \<longleftrightarrow> multiple_of_pow 0 x"
proof
  assume "multiple_of_pow 0 x"
  then show "is_integral x" by (auto simp: multiple_of_pow_def is_integral_def)
qed (auto simp: multiple_of_pow_def is_integral_def)

lemma quantize_down_bounds:
  assumes "quantize_down v e = Inr w" "0 \<le> v"
  shows "multiple_of_pow e w" "0 \<le> w" "w \<le> v" "v < w + 10 powi e"
proof -
  let ?y = "v * 10 powi (- e)"
  have y: "0 \<le> ?y" "v = ?y * 10 powi e" using assms(2) by (simp_all add: mult.assoc powi10_mult)
  have w: "w = of_int \<lfloor>?y\<rfloor> * 10 powi e"
    using assms(1) y(1) by (auto simp: quantize_down_def trunc_zero_def Let_def split: if_splits)
  then show "multiple_of_pow e w" by (auto simp: multiple_of_pow_def)
  show "0 \<le> w" unfolding w using y(1) by (simp add: zero_le_mult_iff)
  have "of_int \<lfloor>?y\<rfloor> * 10 powi e \<le> ?y * 10 powi e" by (intro mult_right_mono) simp_all
  then show "w \<le> v" using w y(2) by linarith
  have "?y * 10 powi e < (of_int \<lfloor>?y\<rfloor> + 1) * 10 powi e" by (intro mult_strict_right_mono) (linarith, simp)
  then have "?y * 10 powi e < of_int \<lfloor>?y\<rfloor> * 10 powi e + 10 powi e" by (simp only: distrib_right mult_1)
  then show "v < w + 10 powi e" using w y(2) by linarith
qed

lemma quantize_down_greatest:
  assumes "quantize_down v e = Inr w" "0 \<le> v" "multiple_of_pow e u" "u \<le> v"
  shows "u \<le> w"
proof -
  from assms(3) obtain c where c: "u = of_int c * 10 powi e" by (auto simp: multiple_of_pow_def)
  from quantize_down_bounds [OF assms(1,2)] obtain d where d: "w = of_int d * 10 powi e" and "v < w + 10 powi e"
    by (auto simp: multiple_of_pow_def)
  with assms(4) c have "of_int c * 10 powi e < (of_int d + 1) * (10::rat) powi e" by (simp add: algebra_simps)
  then have "of_int c < (of_int (d + 1) :: rat)" by simp
  then have "c \<le> d" by (simp only: of_int_less_iff zless_add1_eq) linarith
  then show ?thesis by (simp add: c d)
qed

lemma quantize_down_returns:
  assumes "0 \<le> v" "v * 10 powi (- e) < 10 ^ 28"
  shows "\<exists>w. quantize_down v e = Inr w"
proof -
  have "0 \<le> v * 10 powi (- e)" using assms(1) by simp
  moreover have "\<lfloor>v * 10 powi (- e)\<rfloor> < 10 ^ 28" using assms(2) by (simp add: floor_less_iff)
  ultimately show ?thesis by (auto simp: quantize_down_def trunc_zero_def Let_def)
qed

lemma representable_of_multiple:
  assumes "multiple_of_pow e x" "0 \<le> x" "x < 10 powi (e + int p)"
  shows "representable p x"
proof -
  from assms(1) obtain c where c: "x = of_int c * 10 powi e" by (auto simp: multiple_of_pow_def)
  have "of_int c * 10 powi e < of_int (10 ^ p) * (10::rat) powi e"
    using assms(3) unfolding c pow10_powi by (simp add: add.commute)
  then have "(of_int c :: rat) < of_int (10 ^ p)" by (simp only: mult_less_cancel_right_pos powi10_pos)
  moreover have "0 \<le> c" using assms(2) unfolding c by (simp add: zero_le_mult_iff)
  ultimately show ?thesis unfolding representable_def c by (metis abs_of_nonneg of_int_less_iff)
qed

lemma representable_multiple:
  assumes "representable p u" "10 powi a \<le> u"
  shows "multiple_of_pow (a - int p + 1) u"
proof -
  from assms(1) obtain c f where c: "u = of_int c * 10 powi f" "\<bar>c\<bar> < 10 ^ p" by (auto simp: representable_def)
  have "(of_int c :: rat) < of_int (10 ^ p)" using c(2) by (simp only: of_int_less_iff)
  then have "u < of_int (10 ^ p) * 10 powi f" unfolding c(1) by (simp only: mult_less_cancel_right_pos powi10_pos)
  then have "(10::rat) powi a < 10 powi (int p + f)" using assms(2) unfolding pow10_powi by linarith
  then have "a - int p + 1 \<le> f" by (simp add: powi10_less_iff)
  moreover have "multiple_of_pow f u" using c(1) by (auto simp: multiple_of_pow_def)
  ultimately show ?thesis by (rule multiple_of_pow_mono [rotated])
qed

lemma multiple_of_pow_powi: "e \<le> a \<Longrightarrow> multiple_of_pow e (10 powi a)"
proof (rule multiple_of_pow_mono)
  show "multiple_of_pow a (10 powi a)" unfolding multiple_of_pow_def by (rule exI [of _ 1]) simp
qed

lemma multiple_of_pow_max: "multiple_of_pow a x \<Longrightarrow> multiple_of_pow b x \<Longrightarrow> multiple_of_pow (max a b) x"
  by (simp add: max_def)

text \<open>The second quantisation picks the greatest price with the allowed digits below its input.\<close>

lemma significant_greatest:
  assumes w: "quantize_down x (max (- d) (adjusted x - sf + 1)) = Inr w"
    and x: "0 < x" "multiple_of_pow (- d) x" "x < 10 powi sf" and sf: "0 < sf" and d: "0 \<le> d"
    and u: "legal_price d sf u" "u \<le> x"
  shows "u \<le> w"
proof -
  let ?a = "adjusted x" and ?e = "max (- d) (adjusted x - sf + 1)"
  note greatest = quantize_down_greatest [OF w less_imp_le [OF x(1)]]
  have a: "10 powi ?a \<le> x" "x < 10 powi (?a + 1)" using adjusted_bounds [of x] x(1) by auto
  then have "(10::rat) powi ?a < 10 powi sf" using x(3) by linarith
  then have as: "?a < sf" by (simp add: powi10_less_iff)
  have "10 powi (- d) \<le> x"
  proof -
    from x(2) obtain c where c: "x = of_int c * 10 powi (- d)" by (auto simp: multiple_of_pow_def)
    with x(1) have "1 \<le> c" by (simp add: zero_less_mult_iff)
    then have "1 * 10 powi (- d) \<le> of_int c * (10::rat) powi (- d)" by (intro mult_right_mono) simp_all
    then show ?thesis using c by simp
  qed
  then have "(10::rat) powi (- d) < 10 powi (?a + 1)" using a by linarith
  then have "?e \<le> ?a" using sf by (simp add: powi10_less_iff)
  note lead = greatest [OF multiple_of_pow_powi [OF this] a(1)]
  consider "multiple_of_pow 0 u" | "u < 10 powi ?a" | "representable (nat sf) u" "10 powi ?a \<le> u"
    using u(1) unfolding legal_price_def by (metis not_less)
  then show ?thesis
  proof cases
    case 1
    have "?e \<le> 0" using as d by simp
    with 1 have "multiple_of_pow ?e u" by (rule multiple_of_pow_mono)
    then show ?thesis using u(2) by (rule greatest)
  next
    case 2
    then show ?thesis using lead by simp
  next
    case 3
    have "multiple_of_pow (?a - sf + 1) u" using representable_multiple [OF 3] sf by simp
    with u(1) have "multiple_of_pow ?e u" by (intro multiple_of_pow_max) (simp_all add: legal_price_def)
    then show ?thesis using u(2) by (rule greatest)
  qed
qed

lemma significant_legal:
  assumes "quantize_down x (max (- d) (adjusted x - sf + 1)) = Inr w" "0 < x" "0 < sf"
  shows "legal_price d sf w"
proof -
  let ?e2 = "adjusted x - sf + 1"
  note b = quantize_down_bounds [OF assms(1) less_imp_le [OF assms(2)]]
  have "w < 10 powi (?e2 + int (nat sf))"
    using adjusted_bounds [of x] assms(2,3) b(3) by (simp add: algebra_simps)
  moreover have "multiple_of_pow ?e2 w" "multiple_of_pow (- d) w" using b(1) by (auto elim: multiple_of_pow_mono)
  ultimately show ?thesis using representable_of_multiple [of ?e2 w "nat sf"] b(2) by (simp add: legal_price_def)
qed

text \<open>One quantum above the second quantisation is above everything the first one cut off.\<close>

lemma quantize_twice_close:
  assumes "quantize_down v f = Inr x" "0 \<le> v" "quantize_down x e = Inr w" "f \<le> e"
  shows "v < w + 10 powi e"
proof -
  note xb = quantize_down_bounds [OF assms(1,2)]
  note wb = quantize_down_bounds [OF assms(3) xb(2)]
  have "multiple_of_pow f w" using wb(1) assms(4) by (rule multiple_of_pow_mono)
  moreover have "multiple_of_pow f (10 powi e)" using assms(4) by (rule multiple_of_pow_powi)
  ultimately obtain c d m where c: "x = of_int c * 10 powi f" "w = of_int d * 10 powi f" "10 powi e = of_int m * (10::rat) powi f"
    using xb(1) by (auto simp: multiple_of_pow_def)
  have "of_int c * 10 powi f < of_int (d + m) * (10::rat) powi f" using wb(4) by (simp add: c distrib_right)
  then have "(of_int c :: rat) < of_int (d + m)" by (simp only: mult_less_cancel_right_pos powi10_pos)
  then have "(of_int (c + 1) :: rat) \<le> of_int (d + m)" by (simp only: of_int_less_iff of_int_le_iff zless_imp_add1_zle)
  then have "of_int (c + 1) * 10 powi f \<le> of_int (d + m) * (10::rat) powi f" by (intro mult_right_mono) simp_all
  then have "x + 10 powi f \<le> w + 10 powi e" by (simp add: c distrib_right)
  with xb(4) show ?thesis by linarith
qed

text \<open>
  C32: for a positive price whose decimal-limited coefficient fits the
  context, rounding returns a price that obeys the provider rule, does not exceed the input and is less
  than one quantum below it: the larger of the last decimal place and the last significant figure of the
  input, whose leading digit has the exponent \<open>a\<close>. Below \<open>10\<close> to the number of significant figures it is
  the greatest such price.
\<close>

theorem round_provider_perp_price_legal:
  assumes "0 < v" "0 \<le> d" "0 < sf" "v * 10 powi d < 10 ^ 28"
  shows "\<exists>w a. round_provider_perp_price v d sf = Inr w \<and> 0 \<le> w \<and> w \<le> v \<and> legal_price d sf w \<and>
    10 powi a \<le> v \<and> v < 10 powi (a + 1) \<and> v < w + 10 powi max (- d) (a - sf + 1) \<and>
    (v < 10 powi sf \<longrightarrow> (\<forall>u. legal_price d sf u \<and> u \<le> v \<longrightarrow> u \<le> w))"
proof -
  obtain x where x: "quantize_down v (- d) = Inr x" using quantize_down_returns [of v "- d"] assms by auto
  note xb = quantize_down_bounds [OF x less_imp_le [OF assms(1)]]
  have a: "10 powi adjusted v \<le> v" "v < 10 powi (adjusted v + 1)" using adjusted_bounds [of v] assms(1) by auto
  have below: "u \<le> x" if "legal_price d sf u" "u \<le> v" for u
    using quantize_down_greatest [OF x _ _ that(2)] that(1) assms(1) by (simp add: legal_price_def)
  show ?thesis
  proof (cases "is_integral x")
    case True
    then have "round_provider_perp_price v d sf = Inr x" using assms x by (simp add: round_provider_perp_price_def)
    moreover have "legal_price d sf x" using xb(1) True by (simp add: legal_price_def is_integral_iff)
    moreover have "(10::rat) powi (- d) \<le> 10 powi max (- d) (adjusted v - sf + 1)" by (simp add: powi10_le_iff)
    then have "v < x + 10 powi max (- d) (adjusted v - sf + 1)" using xb(4) by linarith
    ultimately show ?thesis using xb below a by blast
  next
    case False
    let ?e = "max (- d) (adjusted x - sf + 1)"
    have x0: "0 < x" using False xb(2) by (cases "x = 0") (simp_all add: is_integral_def)
    have "x * 10 powi (- ?e) \<le> v * 10 powi d"
      using xb(2,3) assms(1) by (intro mult_mono) (simp_all add: powi10_le_iff)
    then obtain w where w: "quantize_down x ?e = Inr w"
      using quantize_down_returns [of x ?e] assms(4) xb(2) by auto
    note wb = quantize_down_bounds [OF w xb(2)]
    have "round_provider_perp_price v d sf = Inr w" using assms x w False by (simp add: round_provider_perp_price_def)
    moreover have "u \<le> w" if "v < 10 powi sf" "legal_price d sf u" "u \<le> v" for u
      using significant_greatest [OF w x0 xb(1) _ assms(3,2) that(2) below [OF that(2,3)]] xb(3) that(1) by linarith
    moreover have "v < w + 10 powi ?e" by (rule quantize_twice_close [OF x _ w]) (use assms(1) in simp_all)
    moreover have "adjusted x \<le> adjusted v" using xb(3) x0 by (intro adjusted_mono) simp_all
    then have "(10::rat) powi ?e \<le> 10 powi max (- d) (adjusted v - sf + 1)" by (auto simp: powi10_le_iff)
    ultimately show ?thesis
      using significant_legal [OF w x0 assms(3)] wb(2,3) xb(3) a by (intro exI [of _ w] exI [of _ "adjusted v"]) auto
  qed
qed

lemma legal_price_of_nat: "0 \<le> d \<Longrightarrow> legal_price d sf (of_nat n)"
proof -
  assume d: "0 \<le> d"
  have "multiple_of_pow 0 (of_nat n)" unfolding multiple_of_pow_def by (rule exI [of _ "int n"]) simp
  then show ?thesis using multiple_of_pow_mono [of 0 "of_nat n" "- d"] d by (simp add: legal_price_def)
qed

theorem round_provider_perp_price_legal_witness:
  "\<exists>w a. round_provider_perp_price 123456.78 2 5 = Inr w \<and> w \<le> 123456.78 \<and>
     10 powi a \<le> (123456.78 :: rat) \<and> 123456.78 < w + 10 powi max (- 2) (a - 5 + 1)"
proof -
  have "(123456.78 :: rat) * 10 powi 2 < 10 ^ 28" by (simp add: power_int_def)
  then show ?thesis using round_provider_perp_price_legal [of "123456.78" 2 5] by auto
qed

text \<open>A non-integral price with more integer digits than significant figures is rounded past the legal integers.\<close>

lemma round_skips_legal_integer:
  "round_provider_perp_price 123456.7 1 5 = Inr 123450 \<and> legal_price 1 5 123456"
proof
  have a: "adjusted (1234567 / 10) = 5" by (rule adjusted_unique) (simp_all add: power_int_def)
  have "\<lfloor>1234567 / 10 :: rat\<rfloor> = 123456" "\<lfloor>1234567 / 100 :: rat\<rfloor> = 12345" by (simp_all add: floor_unique)
  then show "round_provider_perp_price 123456.7 1 5 = Inr 123450"
    by (simp add: round_provider_perp_price_def quantize_down_def trunc_zero_def is_integral_def power_int_def a)
  show "legal_price 1 5 123456" using legal_price_of_nat [of 1 5 123456] by simp
qed

end
