(* ===== verification/Planning_Gates.thy ===== *)
theory Planning_Gates
  imports Planning_Props
begin

text \<open>
  The L2 gate computes an exact volume-weighted price that lies between the touch and the worst level,
  an accepted plan satisfies every gate of the code, and every accepted plan of a decision with a
  resolved target is a valid view for the outcome engine.
\<close>

section \<open>Consuming levels\<close>

definition depth :: "(decimal \<times> decimal) list \<Rightarrow> rat" where
  "depth levels = sum_list (map (\<lambda>(p, s). p * s) levels)"

text \<open>The quote and base amounts taken so far, with prices between two bounds.\<close>

definition fill_ok :: "rat \<Rightarrow> rat \<Rightarrow> l2_fill \<Rightarrow> bool" where
  "fill_ok lo hi f \<longleftrightarrow> 0 \<le> fill_remaining f \<and> fill_quote f + fill_remaining f = 1000 \<and> 0 \<le> fill_base f \<and>
     lo * fill_base f \<le> fill_quote f \<and> fill_quote f \<le> hi * fill_base f"

lemma fill_level_ok:
  assumes "fill_ok lo hi f" "0 < p" "0 < s" "lo \<le> p" "p \<le> hi"
  shows "fill_ok lo hi (fill_level (p, s) f)" "fill_remaining (fill_level (p, s) f) = max 0 (fill_remaining f - p * s)"
proof -
  define t where "t = min (p * s) (fill_remaining f)"
  have ps: "0 < p * s" using assms(2,3) by simp
  have t: "0 \<le> t" "t \<le> fill_remaining f" using ps assms(1) by (auto simp: t_def fill_ok_def)
  have q: "lo * (t / p) \<le> t" "t \<le> hi * (t / p)" "0 \<le> t / p"
    using t(1) assms(2,4,5) by (simp_all add: field_simps mult_right_mono)
  show "fill_remaining (fill_level (p, s) f) = max 0 (fill_remaining f - p * s)"
    using ps assms(1) by (auto simp: fill_level_def Let_def fill_ok_def min_def max_def)
  show "fill_ok lo hi (fill_level (p, s) f)"
  proof (cases "t \<le> 0")
    case True
    then show ?thesis using assms(1) by (simp add: fill_level_def Let_def flip: t_def)
  next
    case False
    then have "fill_level (p, s) f = f\<lparr> fill_quote := fill_quote f + t, fill_base := fill_base f + t / p,
        fill_consumed := fill_consumed f @ [(p, rnd (t / p))], fill_remaining := fill_remaining f - t \<rparr>"
      by (simp add: fill_level_def Let_def flip: t_def)
    then show ?thesis using assms(1) t q by (simp add: fill_ok_def distrib_left)
  qed
qed

lemma depth_nonneg: "\<forall>(p, s) \<in> set ls. 0 < p \<and> 0 < s \<Longrightarrow> 0 \<le> depth ls"
  by (induction ls) (auto simp: depth_def)

lemma fill_levels_ok:
  assumes "fill_ok lo hi f" "\<forall>(p, s) \<in> set ls. 0 < p \<and> 0 < s \<and> lo \<le> p \<and> p \<le> hi"
  shows "fill_ok lo hi (fill_levels ls f) \<and> fill_remaining (fill_levels ls f) = max 0 (fill_remaining f - depth ls)"
  using assms
proof (induction ls arbitrary: f)
  case Nil
  then show ?case by (simp add: depth_def fill_ok_def)
next
  case (Cons l ls)
  obtain p s where l: "l = (p, s)" by (cases l)
  let ?f = "fill_level l f"
  have ps: "0 < p" "0 < s" "lo \<le> p" "p \<le> hi" using Cons.prems(2) by (auto simp: l)
  note step = fill_level_ok [OF Cons.prems(1) ps, folded l]
  have d: "depth (l # ls) = p * s + depth ls" by (simp add: depth_def l)
  have nn: "0 \<le> depth ls" using depth_nonneg Cons.prems(2) by fastforce
  show ?case
  proof (cases "fill_remaining ?f = 0")
    case True
    then show ?thesis using step d nn by simp
  next
    case False
    have "fill_ok lo hi (fill_levels ls ?f) \<and> fill_remaining (fill_levels ls ?f) = max 0 (fill_remaining ?f - depth ls)"
      using Cons.IH [OF step(1)] Cons.prems(2) by simp
    then show ?thesis using False step(2) d nn by (auto simp: max_def split: if_splits)
  qed
qed

lemma pairwise_sorted: "list_all (\<lambda>(l, r). f l \<le> f r) (pairwise xs) \<Longrightarrow> sorted (map f xs)"
  by (induction xs rule: pairwise.induct) (auto intro: order_trans)

lemma sorted_last_bound: "sorted (map f xs) \<Longrightarrow> x \<in> set xs \<Longrightarrow> f x \<le> f (last xs)"
  by (induction xs) (auto split: if_splits)

lemma levels_between:
  assumes "levels_outward sd bid ask levels" "(p, s) \<in> set levels"
  shows "if sd = LONG then ask \<le> p \<and> p \<le> fst (last levels) else fst (last levels) \<le> p \<and> p \<le> bid"
proof (cases "sd = LONG")
  case True
  then have "sorted (map fst levels)" using assms(1) by (auto simp: levels_outward_def intro!: pairwise_sorted)
  then show ?thesis using sorted_last_bound [of fst levels "(p, s)"] assms True
    by (auto simp: levels_outward_def list_all_iff)
next
  case False
  then have "sorted (map (\<lambda>l. - fst l) levels)"
    using assms(1) by (auto simp: levels_outward_def intro!: pairwise_sorted)
  then show ?thesis using sorted_last_bound [of "\<lambda>l. - fst l" levels "(p, s)"] assms False
    by (auto simp: levels_outward_def list_all_iff)
qed

lemma vwap_between:
  assumes "fill_ok lo hi f" "fill_remaining f = 0" "0 < lo"
  shows "0 < fill_base f" "lo \<le> fill_quote f / fill_base f" "fill_quote f / fill_base f \<le> hi"
proof -
  have q: "fill_quote f = 1000" using assms(1,2) by (simp add: fill_ok_def)
  then have "fill_base f \<noteq> 0" using assms(1) by (auto simp: fill_ok_def)
  then show b: "0 < fill_base f" using assms(1) by (simp add: fill_ok_def)
  show "lo \<le> fill_quote f / fill_base f" "fill_quote f / fill_base f \<le> hi"
    using assms(1) b by (simp_all add: fill_ok_def field_simps)
qed

lemma no_fill_ok: "fill_ok lo hi no_fill"
  by (simp add: fill_ok_def no_fill_def PRIMARY_REFERENCE_NOTIONAL_USD_def)

text \<open>
  What the walk takes: the quantities \<open>qs\<close> from the first levels, each within the size of its level and
  all but the last the whole size.
\<close>

definition takes :: "(decimal \<times> decimal) list \<Rightarrow> rat list \<Rightarrow> bool" where
  "takes levels qs \<longleftrightarrow> length qs \<le> length levels \<and>
     (\<forall>j < length qs. 0 < qs ! j \<and> qs ! j \<le> snd (levels ! j) \<and> (Suc j < length qs \<longrightarrow> qs ! j = snd (levels ! j)))"

definition quote_of :: "(decimal \<times> decimal) list \<Rightarrow> rat list \<Rightarrow> rat" where
  "quote_of levels qs = sum_list (map2 (\<lambda>(p, _) q. p * q) levels qs)"

lemma takes_Cons:
  assumes "takes ls qs" "0 < q" "q \<le> s" "qs \<noteq> [] \<Longrightarrow> q = s"
  shows "takes ((p, s) # ls) (q # qs)"
  unfolding takes_def
proof (intro conjI allI impI)
  fix j assume j: "j < length (q # qs)"
  show "0 < (q # qs) ! j" "(q # qs) ! j \<le> snd (((p, s) # ls) ! j)" using assms j by (cases j; simp add: takes_def)+
  show "(q # qs) ! j = snd (((p, s) # ls) ! j)" if "Suc j < length (q # qs)"
    using assms j that by (cases j) (auto simp: takes_def)
qed (use assms(1) in \<open>simp add: takes_def\<close>)

lemma fill_levels_takes:
  assumes "\<forall>(p, s) \<in> set ls. 0 < p \<and> 0 < s" "0 < fill_remaining f"
  shows "\<exists>qs. takes ls qs \<and> fill_consumed (fill_levels ls f) = fill_consumed f @ map2 (\<lambda>(p, _) q. (p, rnd q)) ls qs \<and>
    fill_quote (fill_levels ls f) = fill_quote f + quote_of ls qs \<and> fill_base (fill_levels ls f) = fill_base f + sum_list qs \<and>
    fill_remaining (fill_levels ls f) = fill_remaining f - quote_of ls qs \<and> 0 \<le> fill_remaining (fill_levels ls f) \<and>
    (fill_remaining (fill_levels ls f) = 0 \<or> qs = map snd ls)"
  using assms
proof (induction ls arbitrary: f)
  case Nil
  then show ?case by (intro exI [of _ "[]"]) (simp add: takes_def quote_of_def)
next
  case (Cons l ls)
  obtain p s where l: "l = (p, s)" by (cases l)
  have ps: "0 < p" "0 < s" using Cons.prems(1) by (auto simp: l)
  define t where "t = min (p * s) (fill_remaining f)"
  have t: "0 < t" "t / p \<le> s" "p * (t / p) = t" "0 < t / p"
    using ps Cons.prems(2) by (auto simp: t_def field_simps min_def)
  have fl: "fill_level l f = f\<lparr> fill_quote := fill_quote f + t, fill_base := fill_base f + t / p,
      fill_consumed := fill_consumed f @ [(p, rnd (t / p))], fill_remaining := fill_remaining f - t \<rparr>"
    using t(1) by (simp add: fill_level_def Let_def l flip: t_def)
  have q: "quote_of (l # ls) (t / p # qs) = t + quote_of ls qs" for qs using t(3) by (simp add: quote_of_def l)
  show ?case
  proof (cases "fill_remaining f - t = 0")
    case True
    have "takes (l # ls) [t / p]" using takes_Cons [of ls "[]" "t / p" s p] t by (simp add: takes_def l)
    moreover have lev: "fill_levels (l # ls) f = fill_level l f" using True by (simp add: fl)
    ultimately show ?thesis using True q [of "[]"] unfolding lev by (intro exI [of _ "[t / p]"]) (simp add: fl, simp add: l quote_of_def)
  next
    case False
    then have ts: "t = p * s" "0 < fill_remaining (fill_level l f)" by (auto simp: t_def fl min_def split: if_splits)
    obtain qs where qs: "takes ls qs"
      "fill_consumed (fill_levels ls (fill_level l f)) = fill_consumed (fill_level l f) @ map2 (\<lambda>(p, _) q. (p, rnd q)) ls qs"
      "fill_quote (fill_levels ls (fill_level l f)) = fill_quote (fill_level l f) + quote_of ls qs"
      "fill_base (fill_levels ls (fill_level l f)) = fill_base (fill_level l f) + sum_list qs"
      "fill_remaining (fill_levels ls (fill_level l f)) = fill_remaining (fill_level l f) - quote_of ls qs"
      "0 \<le> fill_remaining (fill_levels ls (fill_level l f))"
      "fill_remaining (fill_levels ls (fill_level l f)) = 0 \<or> qs = map snd ls"
      using Cons.IH [OF _ ts(2)] Cons.prems(1) by auto
    have sp: "t / p = s" using ts(1) ps by simp
    have "takes (l # ls) (s # qs)" using takes_Cons [OF qs(1) ps(2), of s p] by (simp add: l)
    moreover have lev: "fill_levels (l # ls) f = fill_levels ls (fill_level l f)" using False by (simp add: fl)
    ultimately show ?thesis using qs q [of qs] unfolding lev
      by (intro exI [of _ "s # qs"]) (auto simp: l fl [unfolded l] sp)
  qed
qed

text \<open>
  C31: on a valid book the L2 gate returns, so its last check never raises. It takes
  quantities \<open>qs\<close> from the levels in order, whole levels up to the last, worth exactly the reference
  notional of 1000, or the whole book when that holds less; the report lists them. It reports sufficient
  depth exactly when the levels hold the notional; then the executable price is the average price of what
  was taken, between the touch and the worst level, and the slippage its distance from the touch in basis
  points, never negative. Otherwise there is no price. Quantities and prices are exact before the final
  rounding.
\<close>

theorem assess_l2_sound:
  assumes "0 < bid" "bid < ask" "0 \<le> observed" "market \<noteq> []" "coin \<noteq> []" "provenance \<noteq> []"
    and "\<forall>(p, s) \<in> set levels. 0 < p \<and> 0 < s" "levels_outward sd bid ask levels"
  defines "touch \<equiv> (if sd = LONG then ask else bid)"
  shows "\<exists>l qs. assess_l2 market coin sd observed bid ask levels provenance = Inr l \<and>
    takes levels qs \<and> la_depth_consumed l = map2 (\<lambda>(p, _) q. (p, rnd q)) levels qs \<and>
    quote_of levels qs = min 1000 (depth levels) \<and> la_sufficient_depth l = (1000 \<le> depth levels) \<and>
    (if la_sufficient_depth l
     then la_executable_price l = Some (rnd (1000 / sum_list qs)) \<and>
       la_one_way_slippage_bps l = Some (rnd (\<bar>1000 / sum_list qs - touch\<bar> / touch * 10000)) \<and>
       (if sd = LONG then ask \<le> 1000 / sum_list qs \<and> 1000 / sum_list qs \<le> fst (last levels)
        else fst (last levels) \<le> 1000 / sum_list qs \<and> 1000 / sum_list qs \<le> bid)
     else qs = map snd levels \<and> la_executable_price l = None \<and> la_one_way_slippage_bps l = None)"
proof -
  let ?f = "fill_levels levels no_fill" and ?w = "fst (last levels)"
  let ?lo = "if sd = LONG then ask else ?w" and ?hi = "if sd = LONG then ?w else bid"
  have lv: "\<forall>(p, s) \<in> set levels. 0 < p \<and> 0 < s \<and> ?lo \<le> p \<and> p \<le> ?hi"
    using assms(7) levels_between [OF assms(8)] by auto
  note f = fill_levels_ok [OF no_fill_ok lv]
  have guards: "\<not> list_ex (\<lambda>(p, s). p \<le> 0 \<or> s \<le> 0) levels" using assms(7) by (auto simp: list_ex_iff)
  have nf: "fill_remaining no_fill = 1000" "fill_quote no_fill = 0" "fill_base no_fill = 0" "fill_consumed no_fill = []"
    by (simp_all add: no_fill_def PRIMARY_REFERENCE_NOTIONAL_USD_def)
  have rem: "fill_remaining ?f = max 0 (1000 - depth levels)" using f nf by simp
  obtain qs where qs: "takes levels qs" "fill_consumed ?f = map2 (\<lambda>(p, _) q. (p, rnd q)) levels qs" "fill_quote ?f = quote_of levels qs"
    "fill_base ?f = sum_list qs" "fill_remaining ?f = 1000 - quote_of levels qs" "fill_remaining ?f = 0 \<or> qs = map snd levels"
    using fill_levels_takes [OF assms(7), of no_fill] nf by auto
  have quote: "quote_of levels qs = min 1000 (depth levels)" using rem qs(5) by (auto simp: max_def min_def split: if_splits)
  show ?thesis
  proof (cases "1000 \<le> depth levels")
    case False
    then show ?thesis using rem guards assms(1-8) qs quote by (auto simp: assess_l2_def Let_def)
  next
    case True
    then have r0: "fill_remaining ?f = 0" and q: "fill_quote ?f = 1000" using rem qs(3) quote by simp_all
    have "levels \<noteq> []" using True by (auto simp: depth_def)
    then have w: "0 < ?w" using assms(7) last_in_set [of levels] by (cases "last levels") auto
    have lo: "0 < ?lo" using w assms(1,2) by simp
    note v = vwap_between [OF f [THEN conjunct1] r0 lo, unfolded q qs(4)]
    define vw where "vw = fill_quote ?f / fill_base ?f"
    define D where "D = (if sd = LONG then vw - touch else touch - vw)"
    have vq: "vw = 1000 / sum_list qs" by (simp add: vw_def q qs(4))
    have D: "D = \<bar>vw - touch\<bar>" using v(2,3) by (auto simp: D_def touch_def vq split: if_splits)
    have "\<exists>l. assess_l2 market coin sd observed bid ask levels provenance = Inr l \<and> la_depth_consumed l = fill_consumed ?f \<and>
        la_sufficient_depth l \<and> la_executable_price l = Some (rnd vw) \<and> la_one_way_slippage_bps l = Some (rnd (D / touch * 10000))"
    proof -
      have "0 \<le> D" "fill_base ?f \<noteq> 0" using D v(1) qs(4) by simp_all
      then show ?thesis unfolding assess_l2_def Let_def touch_def [symmetric] vw_def [symmetric] D_def [symmetric]
        using r0 guards assms(1-8) by simp
    qed
    then obtain l where l: "assess_l2 market coin sd observed bid ask levels provenance = Inr l" "la_depth_consumed l = fill_consumed ?f"
      "la_sufficient_depth l" "la_executable_price l = Some (rnd vw)" "la_one_way_slippage_bps l = Some (rnd (D / touch * 10000))"
      by blast
    have "if sd = LONG then ask \<le> 1000 / sum_list qs \<and> 1000 / sum_list qs \<le> ?w else ?w \<le> 1000 / sum_list qs \<and> 1000 / sum_list qs \<le> bid"
      using v(2,3) by (auto split: if_splits)
    with l True qs(1,2) quote show ?thesis unfolding D vq by (intro exI [of _ l] exI [of _ qs]) simp
  qed
qed

theorem assess_l2_sound_witness:
  "\<exists>l qs. assess_l2 ''M'' ''C'' LONG 0 99 100 [(100, 5), (101, 9)] ''h'' = Inr l \<and> la_sufficient_depth l \<and>
     quote_of [(100, 5), (101, 9)] qs = 1000 \<and> takes [(100, 5), (101, 9)] qs \<and>
     la_executable_price l = Some (rnd (1000 / sum_list qs)) \<and> 100 \<le> 1000 / sum_list qs"
proof -
  have d: "depth [(100, 5), (101, 9)] = 1409" by code_simp
  have o: "levels_outward LONG 99 100 [(100, 5), (101, 9)]" by code_simp
  have "\<forall>(p, s) \<in> set [(100, 5), (101, 9)]. 0 < (p :: rat) \<and> 0 < (s :: rat)" by simp
  from assess_l2_sound [of 99 100 0 "''M''" "''C''" "''h''", OF _ _ _ _ _ _ this o] d
  show ?thesis by auto
qed

section \<open>Accepted plans\<close>

text \<open>The conditions under which a draft is returned, read off the branches of the code.\<close>

lemma make_plan_accepts:
  assumes "make_plan i b = Inr (Inr p)"
  obtains l c spread slip entry where
    "pi_liquidity i = Some l" "pi_cost_model i = Some c" "spread_bps b = Inr spread" "spread \<le> 40"
    "la_one_way_slippage_bps l = Some slip" "slip \<le> 35"
    "fresh_for l (pi_market_id i) (bbo_coin b) (pi_side i) (pi_now_ms i) 10000"
    "la_best_bid l = bbo_best_bid b" "la_best_ask l = bbo_best_ask b" "la_observed_at_ms l = bbo_observed_at_ms b"
    "bbo_market_id b = pi_market_id i" "plan_entry i b = Inr entry" "draft_plan i c entry = Inr (Inr p)"
proof -
  from assms obtain l where l: "pi_liquidity i = Some l" by (cases "pi_liquidity i") (auto simp: make_plan_def)
  from assms l obtain spread where s: "spread_bps b = Inr spread"
    by (cases "spread_bps b") (auto simp: make_plan_def split: if_splits)
  from assms l s obtain c where c: "pi_cost_model i = Some c"
    by (cases "pi_cost_model i") (auto simp: make_plan_def split: if_splits)
  from assms l s c obtain slip where sl: "la_one_way_slippage_bps l = Some slip"
    by (cases "la_one_way_slippage_bps l") (auto simp: make_plan_def split: if_splits)
  from assms l s c sl obtain entry where "plan_entry i b = Inr entry" "draft_plan i c entry = Inr (Inr p)"
    by (auto simp: make_plan_def res_simps split: if_splits)
  moreover from assms l s c sl have "spread \<le> 40" "slip \<le> 35"
    "fresh_for l (pi_market_id i) (bbo_coin b) (pi_side i) (pi_now_ms i) 10000"
    "la_best_bid l = bbo_best_bid b" "la_best_ask l = bbo_best_ask b" "la_observed_at_ms l = bbo_observed_at_ms b"
    "bbo_market_id b = pi_market_id i"
    by (simp_all add: make_plan_def HARD_MAX_SPREAD_BPS_def HARD_MAX_PRIMARY_ONE_WAY_SLIPPAGE_BPS_def split: if_splits)
  ultimately show thesis using that l s c sl by blast
qed

lemma draft_plan_accepts:
  assumes "draft_plan i c entry = Inr (Inr p)"
  defines "risk \<equiv> dabs (dsub entry (pi_structural_stop i))"
  shows "within_chase i entry" "stop_valid i entry" "0 < risk" "1 \<le> net_r i c entry risk"
    "pd_side p = pi_side i" "pd_planned_entry p = entry" "pd_stop p = pi_structural_stop i"
    "pd_tp1 p = fst (plan_targets i entry)" "pd_tp2 p \<in> {None, Some (snd (plan_targets i entry))}"
    "pd_risk_distance p = risk" "pd_net_r_to_target p = net_r i c entry risk" "pd_submission_status p = ''NOT_SUBMITTED''"
    "reference_size i c entry risk (dmul REFERENCE_SHADOW_EQUITY_USD 0.01) = Inr (pd_reference_qty_1pct p)"
    "reference_size i c entry risk (dmul REFERENCE_SHADOW_EQUITY_USD 0.02) = Inr (pd_reference_qty_2pct p)"
  using assms(1) unfolding draft_plan_def Let_def split_beta risk_def
  by (auto simp: res_simps split: if_splits)

lemma spread_bps_valid: "spread_bps b = Inr s \<Longrightarrow> 0 < bbo_best_bid b \<and> bbo_best_bid b < bbo_best_ask b"
  by (auto simp: spread_bps_def split: if_splits)

lemma round_provider_bounds:
  assumes "round_provider_perp_price v d sf = Inr w"
  shows "0 \<le> w" "w \<le> v" "multiple_of_pow (- d) w" "0 \<le> d"
proof -
  from assms have v: "0 < v" "0 \<le> d" by (auto simp: round_provider_perp_price_def split: if_splits)
  from assms obtain x where x: "quantize_down v (- d) = Inr x"
    and w: "w = x \<or> quantize_down x (max (- d) (adjusted x - sf + 1)) = Inr w"
    by (auto simp: round_provider_perp_price_def res_simps split: if_splits)
  note b = quantize_down_bounds [OF x less_imp_le [OF v(1)]]
  from w have "0 \<le> w \<and> w \<le> v \<and> multiple_of_pow (- d) w"
  proof
    assume "quantize_down x (max (- d) (adjusted x - sf + 1)) = Inr w"
    from quantize_down_bounds [OF this b(2)] b(3) show ?thesis by (auto elim: multiple_of_pow_mono)
  qed (use b in auto)
  then show "0 \<le> w" "w \<le> v" "multiple_of_pow (- d) w" "0 \<le> d" using v by auto
qed

lemma plan_entry_bounds:
  assumes "plan_entry i b = Inr entry"
  shows "if pi_side i = LONG then entry = bbo_best_ask b
    else 0 \<le> entry \<and> entry \<le> bbo_best_bid b \<and> multiple_of_pow (- pi_price_max_decimals i) entry"
proof -
  let ?t = "if pi_side i = LONG then bbo_best_ask b else bbo_best_bid b"
  from assms obtain w where w: "round_provider_perp_price ?t (pi_price_max_decimals i) (pi_price_max_significant_figures i) = Inr w"
    and e: "entry = (if pi_side i = LONG \<and> w < ?t \<or> pi_side i = SHORT \<and> ?t < w then ?t else w)"
    by (auto simp: plan_entry_def Let_def res_simps)
  from round_provider_bounds [OF w] e show ?thesis by (auto split: if_splits)
qed





section \<open>Prices on a grid\<close>

text \<open>Decimals with at most \<open>k\<close> places and 26 digits: their sums and differences are exact.\<close>

definition price_on_grid :: "nat \<Rightarrow> decimal \<Rightarrow> bool" where
  "price_on_grid k x \<longleftrightarrow> (\<exists>c. x = of_int c / 10 ^ k \<and> \<bar>c\<bar> < 10 ^ 26)"

lemma grid_exact:
  assumes "price_on_grid k x" "price_on_grid k y"
  shows "dsub x y = x - y" "dadd x (x - y) = x + (x - y)" "dsub x (y - x) = x - (y - x)"
    "dadd x (2 * (x - y)) = x + 2 * (x - y)" "dsub x (2 * (y - x)) = x - 2 * (y - x)" "dmul 2 (x - y) = 2 * (x - y)"
proof -
  from assms obtain c d where c: "x = of_int c / 10 ^ k" "\<bar>c\<bar> < 10 ^ 26" and d: "y = of_int d / 10 ^ k" "\<bar>d\<bar> < 10 ^ 26"
    by (auto simp: price_on_grid_def)
  have e: "rnd (of_int n / 10 ^ k) = of_int n / 10 ^ k" if "\<bar>n\<bar> < 10 * 10 ^ 26" for n
    using that by (intro rnd_exact [of _ n k]) auto
  have "x - y = of_int (c - d) / 10 ^ k" "x + (x - y) = of_int (2 * c - d) / 10 ^ k" "x - (y - x) = of_int (2 * c - d) / 10 ^ k"
    "x + 2 * (x - y) = of_int (3 * c - 2 * d) / 10 ^ k" "x - 2 * (y - x) = of_int (3 * c - 2 * d) / 10 ^ k"
    "2 * (x - y) = of_int (2 * c - 2 * d) / 10 ^ k"
    by (simp_all add: c(1) d(1) field_simps)
  moreover have "\<bar>c - d\<bar> < 10 * 10 ^ 26" "\<bar>2 * c - d\<bar> < 10 * 10 ^ 26" "\<bar>3 * c - 2 * d\<bar> < 10 * 10 ^ 26"
    "\<bar>2 * c - 2 * d\<bar> < 10 * 10 ^ 26" using c(2) d(2) by linarith+
  ultimately show "dsub x y = x - y" "dadd x (x - y) = x + (x - y)" "dsub x (y - x) = x - (y - x)"
    "dadd x (2 * (x - y)) = x + 2 * (x - y)" "dsub x (2 * (y - x)) = x - 2 * (y - x)" "dmul 2 (x - y) = 2 * (x - y)"
    by (simp_all only: dec_ops e)
qed

lemma grid_dabs: "price_on_grid k x \<Longrightarrow> price_on_grid k y \<Longrightarrow> dabs (dsub x y) = \<bar>x - y\<bar>"
  using grid_exact(1) [of k x y] dabs_dsub [of x y] by metis

lemma grid_ratio_below_one:
  assumes "price_on_grid k a" "price_on_grid k b" "price_on_grid k c" "price_on_grid k d" "a - b < c - d" "0 < c - d"
  shows "rnd ((a - b) / (c - d)) < 1"
proof -
  from assms(1-4) obtain i j m n where g: "a = of_int i / 10 ^ k" "b = of_int j / 10 ^ k" "c = of_int m / 10 ^ k" "d = of_int n / 10 ^ k"
    and mn: "\<bar>m\<bar> < 10 ^ 26" "\<bar>n\<bar> < 10 ^ 26" by (auto simp: price_on_grid_def)
  have ab: "a - b = of_int (i - j) / 10 ^ k" and cd: "c - d = of_int (m - n) / 10 ^ k" by (simp_all add: g diff_divide_distrib)
  have pos: "0 < m - n" using assms(6) unfolding cd by (simp add: zero_less_divide_iff)
  have "i - j < m - n" using assms(5) unfolding ab cd by (simp add: divide_less_cancel)
  then have "(of_int (i - j) :: rat) \<le> of_int (m - n - 1)" by (simp only: of_int_le_iff)
  then have "(of_int (i - j) :: rat) \<le> of_int (m - n) - 1" by simp
  then have "(a - b) / (c - d) \<le> (of_int (m - n) - 1) / of_int (m - n)"
    unfolding ab cd using pos by (simp add: divide_right_mono)
  also have "\<dots> = 1 - 1 / of_int (m - n)" using pos by (simp add: diff_divide_distrib)
  also have "\<dots> \<le> 1 - 1 / 10 ^ 27"
  proof -
    have "m - n \<le> 10 ^ 27" using mn by simp
    then have "(of_int (m - n) :: rat) \<le> of_int (10 ^ 27)" by (simp only: of_int_le_iff)
    then have "1 / (10 ^ 27 :: rat) \<le> 1 / of_int (m - n)" using pos by (intro divide_left_mono) (simp_all add: mult_pos_pos)
    then show ?thesis by simp
  qed
  also have "1 - 1 / 10 ^ 27 = (of_int (10 ^ 27 - 1) :: rat) / 10 ^ 27" by simp
  finally have "(a - b) / (c - d) \<le> of_int (10 ^ 27 - 1) / 10 ^ 27" .
  moreover have "rnd (of_int (10 ^ 27 - 1) / 10 ^ 27) = of_int (10 ^ 27 - 1) / 10 ^ 27" by (rule rnd_exact [OF refl]) simp
  ultimately have "rnd ((a - b) / (c - d)) \<le> of_int (10 ^ 27 - 1) / 10 ^ 27" by (rule dc.rnd_le_fix)
  also have "\<dots> < 1" by simp
  finally show ?thesis .
qed

lemma on_grid_below:
  assumes "multiple_of_pow (- d) w" "0 \<le> w" "w \<le> v" "price_on_grid k v" "0 \<le> d" "nat d \<le> k"
  shows "price_on_grid k w"
proof -
  have "multiple_of_pow (- int k) w" using assms(1,5,6) by (auto elim!: multiple_of_pow_mono)
  then obtain c where "w = of_int c * 10 powi (- int k)" by (auto simp: multiple_of_pow_def)
  then have c: "w = of_int c / 10 ^ k" by (simp add: power_int_minus divide_inverse)
  from assms(4) obtain n where n: "v = of_int n / 10 ^ k" "\<bar>n\<bar> < 10 ^ 26" by (auto simp: price_on_grid_def)
  have p: "0 < (10 ^ k :: rat)" by simp
  have "0 \<le> c" using assms(2) p unfolding c by (simp add: zero_le_divide_iff not_le)
  moreover have "c \<le> n" using assms(3) p unfolding c n(1) by (simp add: divide_le_cancel not_less)
  ultimately have "\<bar>c\<bar> < 10 ^ 26" using n(2) by linarith
  with c show ?thesis unfolding price_on_grid_def by blast
qed

section \<open>From decision to outcome view\<close>

lemma resolve_target_geometry:
  assumes "resolve_structural_target d = Inr target" "dec_chase_limit d = Some chase" "dec_structural_stop d = Some stop"
  shows "0 < target" "0 < chase" "0 < stop"
    "if dec_side d = LONG then stop < chase \<and> chase < target else target < chase \<and> chase < stop"
  using assms by (auto simp: resolve_structural_target_def res_simps split: if_splits)

text \<open>A net reward of at least one keeps the target at least one risk distance away.\<close>

lemma net_r_reaches_target:
  assumes "1 \<le> net_r i c entry risk" "price_on_grid k entry" "price_on_grid k (pi_structural_stop i)" "price_on_grid k (pi_structural_target i)"
    and "0 \<le> entry" "0 \<le> pi_structural_target i" "0 \<le> side_cost_bps c" "risk = \<bar>entry - pi_structural_stop i\<bar>" "0 < risk"
  shows "risk \<le> \<bar>pi_structural_target i - entry\<bar>"
proof (rule ccontr)
  let ?A = "\<bar>pi_structural_target i - entry\<bar>" and ?s = "pi_structural_stop i" and ?t = "pi_structural_target i"
  assume "\<not> risk \<le> ?A"
  then have lt: "?A < risk" by simp
  define cost where "cost = ddiv (dmul (dadd entry ?t) (side_cost_bps c)) 10000"
  have "0 \<le> dadd entry ?t" using assms(5,6) by (simp add: dadd_def dc.rnd_nonneg)
  then have "0 \<le> cost" unfolding cost_def by (intro ddiv_nonneg dmul_nonneg assms(7)) simp_all
  have A: "dabs (dsub ?t entry) = ?A" by (rule grid_dabs [OF assms(4,2)])
  then have "rnd ?A = ?A" by (metis dabs_dsub rnd_of_ops(5))
  then have "dsub ?A cost \<le> ?A" using \<open>0 \<le> cost\<close> unfolding dsub_def by (intro dc.rnd_le_fix) simp_all
  then have "net_r i c entry risk \<le> rnd (?A / risk)"
    unfolding net_r_def A cost_def [symmetric] ddiv_def [of _ risk] using assms(9)
    by (intro dc.rnd_mono divide_right_mono) simp_all
  moreover have "rnd (?A / risk) < 1"
  proof -
    obtain a b where ab: "?A = a - b" "price_on_grid k a" "price_on_grid k b"
      using assms(2,4) by (cases "entry \<le> ?t") (auto simp: abs_if)
    obtain x y where xy: "risk = x - y" "price_on_grid k x" "price_on_grid k y"
      using assms(2,3,8) by (cases "?s \<le> entry") (auto simp: abs_if)
    show ?thesis using grid_ratio_below_one [OF ab(2,3) xy(2,3)] lt assms(9) by (simp add: ab(1) xy(1))
  qed
  ultimately show False using assms(1) by linarith
qed

lemma plan_targets_grid:
  assumes "price_on_grid k entry" "price_on_grid k (pi_structural_stop i)"
  shows "plan_targets i entry = (if pi_side i = LONG
    then (entry + (entry - pi_structural_stop i), min (pi_structural_target i) (entry + 2 * (entry - pi_structural_stop i)))
    else (entry - (pi_structural_stop i - entry), max (pi_structural_target i) (entry - 2 * (pi_structural_stop i - entry))))"
  using grid_exact [OF assms] grid_exact [OF assms(2,1)] by (simp add: plan_targets_def)

lemma accepted_sides:
  assumes d: "draft_plan i c entry = Inr (Inr p)"
    and g: "price_on_grid k entry" "price_on_grid k (pi_structural_stop i)" "price_on_grid k (pi_structural_target i)"
    and pos: "0 < entry" "0 < pi_structural_target i" "0 < pi_structural_stop i" "0 \<le> side_cost_bps c"
    and beyond: "if pi_side i = LONG then pi_chase_limit i < pi_structural_target i else pi_structural_target i < pi_chase_limit i"
  shows "0 < pd_tp1 p \<and> (case pd_tp2 p of None \<Rightarrow> True | Some t \<Rightarrow> 0 < t) \<and>
    (if pi_side i = LONG
     then pd_stop p < entry \<and> entry < pd_tp1 p \<and> (case pd_tp2 p of None \<Rightarrow> True | Some t \<Rightarrow> pd_tp1 p \<le> t)
     else pd_tp1 p < entry \<and> entry < pd_stop p \<and> (case pd_tp2 p of None \<Rightarrow> True | Some t \<Rightarrow> t \<le> pd_tp1 p))"
proof -
  note dp = draft_plan_accepts [OF d]
  have risk: "dabs (dsub entry (pi_structural_stop i)) = \<bar>entry - pi_structural_stop i\<bar>"
    by (rule grid_dabs [OF g(1,2)])
  have r: "\<bar>entry - pi_structural_stop i\<bar> \<le> \<bar>pi_structural_target i - entry\<bar>"
    using net_r_reaches_target [OF dp(4) g] pos dp(3) unfolding risk by simp
  have tp2: "pd_tp2 p = None \<or> pd_tp2 p = Some (snd (plan_targets i entry))" using dp(9) by auto
  show ?thesis
  proof (cases "pi_side i = LONG")
    case True
    have "pi_structural_stop i < entry" "entry < pi_structural_target i"
      using dp(1,2) beyond True by (simp_all add: stop_valid_def within_chase_def)
    then show ?thesis using True r tp2 pos(1) by (auto simp: dp(7,8) plan_targets_grid [OF g(1,2)])
  next
    case False
    have "entry < pi_structural_stop i" "pi_structural_target i < entry"
      using dp(1,2) beyond False by (simp_all add: stop_valid_def within_chase_def)
    then show ?thesis using False r tp2 pos(2) by (auto simp: dp(7,8) plan_targets_grid [OF g(1,2)])
  qed
qed

text \<open>The remaining conditions of the view, which do not depend on the plan.\<close>

definition view_context :: "string \<Rightarrow> strategy_decision \<Rightarrow> int \<Rightarrow> bool" where
  "view_context record_id d confirmed_ms \<longleftrightarrow>
     returns (exact_identifier record_id ''shadow_order_id'') \<and>
     returns (exact_identifier (dec_market_id d) ''market_id'') \<and>
     0 \<le> confirmed_ms \<and> confirmed_ms mod ONE_MINUTE_MS = 0 \<and> 0 < dec_a5_event d \<and>
     0 < zone_low (dec_zone_snapshot d) \<and> zone_low (dec_zone_snapshot d) < zone_high (dec_zone_snapshot d)"

lemma make_view_returns:
  assumes "view_context record_id d confirmed_ms" "0 < pd_planned_entry p" "0 < pd_stop p" "0 < pd_tp1 p"
    "case pd_tp2 p of None \<Rightarrow> True | Some t \<Rightarrow> 0 < t" "sides_valid (formal_view record_id d confirmed_ms p)"
  shows "make_view (formal_view record_id d confirmed_ms p) = Inr (formal_view record_id d confirmed_ms p)"
proof -
  let ?v = "formal_view record_id d confirmed_ms p"
  have ids: "exact_identifier record_id ''shadow_order_id'' = Inr ()" "exact_identifier (dec_market_id d) ''market_id'' = Inr ()"
    using assms(1) by (auto simp: view_context_def returns_iff)
  have pos: "positive_finite x n = Inr ()" if "0 < x" for x n using that by (simp add: positive_finite_def)
  have tp2: "(case pd_tp2 p of None \<Rightarrow> Inr () | Some t \<Rightarrow> positive_finite t ''tp2'') = Inr ()"
    using assms(5) pos by (cases "pd_tp2 p") simp_all
  have z: "0 < zone_low (dec_zone_snapshot d)" "0 < zone_high (dec_zone_snapshot d)" "\<not> zone_high (dec_zone_snapshot d) \<le> zone_low (dec_zone_snapshot d)"
    using assms(1) by (auto simp: view_context_def)
  have c: "0 \<le> confirmed_ms" "confirmed_ms mod ONE_MINUTE_MS = 0" "0 < dec_a5_event d" using assms(1) by (auto simp: view_context_def)
  have f: "fv_shadow_order_id ?v = record_id" "fv_market_id ?v = dec_market_id d" "fv_outcome_start_ms ?v = confirmed_ms"
    "fv_planned_entry ?v = pd_planned_entry p" "fv_stop ?v = pd_stop p" "fv_tp1 ?v = pd_tp1 p" "fv_atr ?v = dec_a5_event d"
    "fv_tp2 ?v = pd_tp2 p" "fv_zone_low ?v = Some (zone_low (dec_zone_snapshot d))"
    "fv_zone_high ?v = Some (zone_high (dec_zone_snapshot d))" by (simp_all add: formal_view_def)
  show ?thesis unfolding make_view_def f using ids pos tp2 z c assms(2-4,6) by (simp add: rguard_def)
qed

text \<open>
  C30: planning, target resolution and the outcome contract fit together. If the
  target of a confirmed decision resolves, the cost model is valid and prices have a bounded number of
  digits, every accepted plan gives a view that the outcome engine's constructor accepts: stop, entry
  and targets are positive and ordered for the side. So the view built after the evidence of the plan
  has been published does not raise.
\<close>

theorem accepted_plan_attaches:
  assumes "make_plan i b = Inr (Inr p)" "resolve_structural_target d = Inr (pi_structural_target i)"
    and "dec_chase_limit d = Some (pi_chase_limit i)" "dec_structural_stop d = Some (pi_structural_stop i)" "dec_side d = pi_side i"
    and "pi_cost_model i = Some c" "make_cost_model c = Inr c"
    and "price_on_grid k (bbo_best_bid b)" "price_on_grid k (bbo_best_ask b)" "price_on_grid k (pi_structural_stop i)" "price_on_grid k (pi_structural_target i)"
    and "nat (pi_price_max_decimals i) \<le> k" "view_context record_id d confirmed_ms"
  shows "make_view (formal_view record_id d confirmed_ms p) = Inr (formal_view record_id d confirmed_ms p)"
proof -
  from assms(1,6) obtain spread entry where s: "spread_bps b = Inr spread"
    and e: "plan_entry i b = Inr entry" and dp: "draft_plan i c entry = Inr (Inr p)"
    by (auto elim!: make_plan_accepts)
  note geo = resolve_target_geometry [OF assms(2-4), unfolded assms(5)]
  note dr = draft_plan_accepts [OF dp]
  have dec: "0 \<le> pi_price_max_decimals i"
    using e round_provider_bounds(4) by (auto simp: plan_entry_def Let_def res_simps)
  have g: "price_on_grid k entry"
    using plan_entry_bounds [OF e] assms(8,9) on_grid_below [OF _ _ _ assms(8) dec assms(12)] by (auto split: if_splits)
  have pos: "0 < entry"
    using plan_entry_bounds [OF e] spread_bps_valid [OF s] dr(1) geo(2) by (auto simp: within_chase_def split: if_splits)
  have "0 \<le> side_cost_bps c"
    using assms(7) by (auto simp: make_cost_model_def side_cost_bps_def dadd_def intro!: dc.rnd_nonneg split: if_splits)
  from accepted_sides [OF dp g assms(10,11) pos geo(1,3) this] geo(4)
  have a: "0 < pd_tp1 p" "case pd_tp2 p of None \<Rightarrow> True | Some t \<Rightarrow> 0 < t" "sides_valid (formal_view record_id d confirmed_ms p)"
    by (auto simp: sides_valid_def formal_view_def assms(5) dr(6) split: if_splits option.splits)
  show ?thesis by (rule make_view_returns) (use assms(13) a pos geo(3) in \<open>simp_all add: dr(6,7)\<close>)
qed

section \<open>Instances\<close>

definition sample_bbo :: public_bbo where
  "sample_bbo = \<lparr> bbo_best_bid = 9995, bbo_best_ask = 10005, bbo_age_seconds = 0, bbo_observed_at_ms = 0,
     bbo_market_id = ''M'', bbo_coin = ''C'' \<rparr>"

definition sample_liquidity :: liquidity_assessment where
  "sample_liquidity = \<lparr> la_market_id = ''M'', la_coin = ''C'', la_side = LONG, la_observed_at_ms = 0, la_best_bid = 9995,
     la_best_ask = 10005, la_reference_notional_usd = 1000, la_depth_consumed = [(10005, 1)],
     la_executable_price = Some 10005, la_one_way_slippage_bps = Some 0, la_sufficient_depth = True,
     la_provenance_hash = ''h'' \<rparr>"

definition sample_costs :: cost_model where
  "sample_costs = \<lparr> cm_version = ''v'', cm_fee_bps_per_side = 0, cm_slippage_bps_per_side = 0,
     cm_stress_slippage_bps_per_side = 0 \<rparr>"

definition sample_inputs :: plan_inputs where
  "sample_inputs = \<lparr> pi_market_id = ''M'', pi_side = LONG, pi_ideal_entry_low = 9990, pi_ideal_entry_high = 10010,
     pi_chase_limit = 10050, pi_structural_stop = 9805, pi_structural_target = 11005,
     pi_liquidity = Some sample_liquidity, pi_cost_model = Some sample_costs, pi_now_ms = 0, pi_price_max_decimals = 1,
     pi_price_max_significant_figures = 5, pi_size_decimals = 5, pi_max_leverage = None \<rparr>"

lemma sample_simps:
  "pi_market_id sample_inputs = ''M''" "pi_side sample_inputs = LONG" "pi_chase_limit sample_inputs = 10050"
  "pi_structural_stop sample_inputs = 9805" "pi_structural_target sample_inputs = 11005"
  "pi_liquidity sample_inputs = Some sample_liquidity" "pi_cost_model sample_inputs = Some sample_costs"
  "pi_now_ms sample_inputs = 0" "pi_price_max_decimals sample_inputs = 1" "pi_price_max_significant_figures sample_inputs = 5"
  "pi_size_decimals sample_inputs = 5" "pi_max_leverage sample_inputs = None"
  "bbo_market_id sample_bbo = ''M''" "bbo_coin sample_bbo = ''C''" "bbo_observed_at_ms sample_bbo = 0"
  "bbo_best_bid sample_bbo = 9995" "bbo_best_ask sample_bbo = 10005"
  "la_coin sample_liquidity = ''C''" "la_best_bid sample_liquidity = 9995" "la_best_ask sample_liquidity = 10005"
  "la_observed_at_ms sample_liquidity = 0" "la_one_way_slippage_bps sample_liquidity = Some 0"
  by (simp_all add: sample_inputs_def sample_bbo_def sample_liquidity_def)

lemma sample_entry: "plan_entry sample_inputs sample_bbo = Inr 10005"
  by (simp add: plan_entry_def sample_simps round_provider_perp_price_def quantize_down_def
      trunc_zero_def is_integral_def power_int_def)

lemma sample_gates: "make_plan sample_inputs sample_bbo = draft_plan sample_inputs sample_costs 10005"
proof -
  have "fresh_for sample_liquidity ''M'' ''C'' LONG 0 10000" "spread_bps sample_bbo = Inr 10" by code_simp+
  then show ?thesis
    by (simp add: make_plan_def sample_simps sample_entry HARD_MAX_SPREAD_BPS_def HARD_MAX_PRIMARY_ONE_WAY_SLIPPAGE_BPS_def)
qed

lemma sample_size:
  "reference_size sample_inputs sample_costs 10005 200 2 = Inr 0.01"
  "reference_size sample_inputs sample_costs 10005 200 4 = Inr 0.02"
proof -
  have ops: "side_cost_bps sample_costs = 0" "dmul 10005 0 = 0" "dmul 9805 0 = 0" "ddiv 0 10000 = 0"
    "dadd 200 0 = 200" "ddiv 2 200 = 1 / 100" "ddiv 4 200 = 1 / 50" by code_simp+
  have "rnd (1 / 50) = 1 / 50" by code_simp
  then have cap: "1 / 50 \<le> ddiv 5000 10005" unfolding ddiv_def by (intro dc.rnd_ge_fix) simp_all
  then have caps: "min (1 / 100) (ddiv 5000 10005) = 1 / 100" "min (1 / 50) (ddiv 5000 10005) = 1 / 50" by simp_all
  show "reference_size sample_inputs sample_costs 10005 200 2 = Inr 0.01"
    "reference_size sample_inputs sample_costs 10005 200 4 = Inr 0.02"
    by (simp_all add: reference_size_def rdiv_def ops caps sample_simps REFERENCE_MAX_NOTIONAL_USD_def
        round_down_def quantize_down_def trunc_zero_def power_int_def power_one_over)
qed

lemma sample_draft: "\<exists>p. make_plan sample_inputs sample_bbo = Inr (Inr p)"
proof -
  have ops: "dsub 10005 9805 = 200" "dabs 200 = 200" "dmul REFERENCE_SHADOW_EQUITY_USD (1 / 100) = 2"
    "dmul REFERENCE_SHADOW_EQUITY_USD (1 / 50) = 4" by code_simp+
  have "net_r sample_inputs sample_costs 10005 200 = 5" by code_simp
  then show ?thesis unfolding sample_gates draft_plan_def
    by (simp add: sample_simps ops sample_size within_chase_def stop_valid_def split_beta)
qed


definition sample_decision :: strategy_decision where
  "sample_decision = \<lparr> dec_market_id = ''M'', dec_setup_family = SWEEP_RECLAIM, dec_setup_mode = None,
     dec_retest_type = None, dec_side = LONG, decision = DK_FORMAL_SETUP_CONFIRMED, reason = ''r'',
     dec_market_event_id = ''e'', dec_zone_id = ''z'',
     dec_zone_snapshot = \<lparr> zone_id = ''z'', zone_market_id = ''M'', zone_kind = ZLOW, zone_center = 9950,
       zone_low = 9900, zone_high = 10000, half_width = 50, quality = ZQ2, reaction_count = 2,
       latest_reaction_bar_index = 1, member_reaction_ids = [], active_for_new_event = True, suppressed = False \<rparr>,
     dec_a5_event = 100, dec_m20_event = 1, dec_htf_relation = NEUTRAL, dec_breakout_linkage = None,
     dec_ideal_entry_low = Some 9990, dec_ideal_entry_high = Some 10010, dec_chase_limit = Some 10050,
     dec_structural_stop = Some 9805, dec_target_reference = Some \<lparr> target_kind = TARGET_ZONE,
       target_price = Some 11005, target_zone_id = None, frozen_directional_zones = [] \<rparr>,
     dec_transition = ''t'', dec_scanner_linkage = None, dec_strategy_version = ''s'', dec_parameter_version = ''p'',
     dec_scanner_version = ''c'', dec_schema_version = ''m'' \<rparr>"

theorem accepted_plan_attaches_witness:
  "\<exists>p. make_plan sample_inputs sample_bbo = Inr (Inr p) \<and>
     make_view (formal_view ''o'' sample_decision 300000 p) = Inr (formal_view ''o'' sample_decision 300000 p)"
proof -
  obtain p where p: "make_plan sample_inputs sample_bbo = Inr (Inr p)" using sample_draft by blast
  have r: "resolve_structural_target sample_decision = Inr (pi_structural_target sample_inputs)" by code_simp
  have d: "dec_chase_limit sample_decision = Some (pi_chase_limit sample_inputs)"
    "dec_structural_stop sample_decision = Some (pi_structural_stop sample_inputs)" "dec_side sample_decision = pi_side sample_inputs"
    by (simp_all add: sample_decision_def sample_simps)
  have c: "make_cost_model sample_costs = Inr sample_costs" by code_simp
  have g: "price_on_grid 1 x" if "x = of_int n" "\<bar>n\<bar> < 10 ^ 20" for x n
    unfolding price_on_grid_def by (rule exI [of _ "n * 10"]) (use that in simp)
  have grids: "price_on_grid 1 (bbo_best_bid sample_bbo)" "price_on_grid 1 (bbo_best_ask sample_bbo)"
    "price_on_grid 1 (pi_structural_stop sample_inputs)" "price_on_grid 1 (pi_structural_target sample_inputs)"
    using g [of 9995 9995] g [of 10005 10005] g [of 9805 9805] g [of 11005 11005] by (simp_all add: sample_simps)
  have v: "view_context ''o'' sample_decision 300000" by code_simp
  from accepted_plan_attaches [OF p r d sample_simps(7) c grids _ v] p show ?thesis by (auto simp: sample_simps)
qed

end
