(* ===== verification/Delivery.thy ===== *)
theory Delivery
  imports Outcome_Models Clock
begin

text \<open>
  Delivery of notifications: the envelope, claim and transition contracts of
  \<^verbatim>\<open>notification_engine/models.py\<close>, the webhook adapter, retry policy and dispatcher of
  \<^verbatim>\<open>notification_engine/delivery.py\<close>, the publisher of \<^verbatim>\<open>notification_engine/outbox.py\<close> and the
  durable outbox of \<^verbatim>\<open>integration.py\<close> (class \<open>EvidenceOutbox\<close>), all under
  \<^verbatim>\<open>src/src/trader_assist_v0/multi_asset_shadow\<close>.

  The table of the outbox is a list of rows; instants are stored by value and compared by
  their text, as SQLite compares the TEXT columns. A transaction that raises leaves the table as it was.
  The HTTP client is a parameter with a state of its own.
\<close>

section \<open>Contracts\<close>

datatype notification_kind = FORMAL_SIGNAL | WATCH | WATCH_NEW_MARKET | RESEARCH_FAILED_BREAKOUT

datatype delivery_state = DS_PENDING | DS_DELIVERED | DS_PERMANENT_FAILURE

definition non_empty :: "string \<Rightarrow> string \<Rightarrow> unit res" where
  "non_empty v field =
     rguard (list_all is_space v) (NotificationContractError (field @ '' must be non-empty''))"

record message_envelope =
  me_schema_version :: string
  me_kind :: notification_kind
  me_idempotency_key :: string
  me_content :: string
  me_created_at :: instant

definition make_envelope :: "message_envelope \<Rightarrow> message_envelope res" where
  "make_envelope e =
     rbind (non_empty (me_schema_version e) ''schema_version'') (\<lambda>_.
     rbind (non_empty (me_idempotency_key e) ''idempotency_key'') (\<lambda>_.
     rbind (non_empty (me_content e) ''content'') (\<lambda>_. Inr e)))"

record enqueue_receipt =
  er_envelope :: message_envelope
  er_coalesced :: bool

record claimed_message =
  cl_envelope :: message_envelope
  cl_attempt_count :: int
  cl_claim_token :: string

definition make_claimed :: "claimed_message \<Rightarrow> claimed_message res" where
  "make_claimed c =
     (if cl_attempt_count c < 1
      then Inl (NotificationContractError ''claimed attempt_count must be positive'')
      else rbind (non_empty (cl_claim_token c) ''claim_token'') (\<lambda>_. Inr c))"

record delivery_transition =
  dt_state :: delivery_state
  dt_reason :: string
  dt_completed_at :: instant
  dt_response_status :: "int option"
  dt_next_attempt_at :: "instant option"

definition make_delivery_transition :: "delivery_transition \<Rightarrow> delivery_transition res" where
  "make_delivery_transition t =
     rbind (non_empty (dt_reason t) ''reason'') (\<lambda>_.
     if dt_state t = DS_PENDING then
       (if dt_next_attempt_at t = None
        then Inl (NotificationContractError ''pending transition requires next_attempt_at'') else Inr t)
     else if dt_next_attempt_at t \<noteq> None
     then Inl (NotificationContractError ''terminal transition cannot carry next_attempt_at'')
     else Inr t)"

section \<open>Texts\<close>

definition timestamp :: "instant \<Rightarrow> string" where
  "timestamp t = iso_text t @ ''Z''"

text \<open>\<open>json.dumps\<close> of a string; with \<open>ensure_ascii\<close> everything outside the printable ASCII range is escaped.\<close>

definition hex4 :: "nat \<Rightarrow> string" where
  "hex4 n = map (\<lambda>k. ''0123456789abcdef'' ! (n div 16 ^ k mod 16)) [3, 2, 1, 0]"

definition json_char :: "bool \<Rightarrow> char \<Rightarrow> string" where
  "json_char ascii c =
     (let n = of_char c :: nat in
      if n = 34 then [CHR 92, CHR 34] else if n = 92 then [CHR 92, CHR 92]
      else if n = 10 then [CHR 92, CHR ''n''] else if n = 13 then [CHR 92, CHR ''r'']
      else if n = 9 then [CHR 92, CHR ''t''] else if n = 12 then [CHR 92, CHR ''f'']
      else if n = 8 then [CHR 92, CHR ''b'']
      else if n < 32 \<or> ascii \<and> 126 < n then CHR 92 # CHR ''u'' # hex4 n
      else [c])"

definition json_string :: "bool \<Rightarrow> string \<Rightarrow> string" where
  "json_string ascii s = CHR 34 # concat (map (json_char ascii) s) @ [CHR 34]"

section \<open>The webhook adapter\<close>

record webhook_config =
  wc_url :: string
  wc_timeout_seconds :: rat
  wc_header_name :: "string option"
  wc_header_value :: "string option"

text \<open>\<open>casefold\<close> on ASCII letters; the name it is compared with is ASCII.\<close>

definition ascii_lower :: "char \<Rightarrow> char" where
  "ascii_lower c = (let n = of_char c :: nat in if 65 \<le> n \<and> n \<le> 90 then char_of (n + 32) else c)"

definition make_webhook_config :: "webhook_config \<Rightarrow> webhook_config res" where
  "make_webhook_config c =
     rbind (rguard (take 8 (wc_url c) \<noteq> ''https://'') (ValueError ''webhook URL must be externally supplied HTTPS'')) (\<lambda>_.
     rbind (rguard (\<not> (1 \<le> wc_timeout_seconds c \<and> wc_timeout_seconds c \<le> 60))
       (ValueError ''webhook timeout must be between 1 and 60 seconds'')) (\<lambda>_.
     rbind (rguard ((wc_header_name c = None) \<noteq> (wc_header_value c = None))
       (ValueError ''webhook authorization header must be supplied as a pair'')) (\<lambda>_.
     rbind (rguard (case wc_header_name c of None \<Rightarrow> False | Some n \<Rightarrow> map ascii_lower n = ''idempotency-key'')
       (ValueError ''Idempotency-Key is reserved for internal Evidence authority'')) (\<lambda>_. Inr c))))"

text \<open>
  What a call of the client ends with: a response, the \<open>WebhookDeliveryError\<close> the dispatcher handles, or
  any other exception.
\<close>

datatype post_result = Responded int | Transport_failed | Client_raised py_error

type_synonym 'w client = "string \<Rightarrow> string \<Rightarrow> (string \<times> string) list \<Rightarrow> rat \<Rightarrow> 'w \<Rightarrow> post_result \<times> 'w"

definition deliver :: "'w client \<Rightarrow> webhook_config \<Rightarrow> message_envelope \<Rightarrow> 'w \<Rightarrow> post_result \<times> 'w" where
  "deliver post c e w =
     (let payload = ''{'' @ json_string True ''content'' @ '':'' @ json_string True (me_content e) @ ''}'';
          headers = [(''Content-Type'', ''application/json'')];
          headers' = (case wc_header_name c of None \<Rightarrow> headers
            | Some n \<Rightarrow> aput n (case wc_header_value c of None \<Rightarrow> [] | Some v \<Rightarrow> v) headers)
      in post (wc_url c) payload headers' (wc_timeout_seconds c) w)"

section \<open>Retries\<close>

record retry_policy =
  rp_max_attempts :: int
  rp_base_delay_seconds :: int
  rp_max_delay_seconds :: int

definition make_retry_policy :: "retry_policy \<Rightarrow> retry_policy res" where
  "make_retry_policy p =
     (if rp_max_attempts p < 1 \<or> rp_base_delay_seconds p < 1 \<or> rp_max_delay_seconds p < 1
      then Inl (ValueError ''retry policy values must be positive'')
      else if rp_max_delay_seconds p < rp_base_delay_seconds p
      then Inl (ValueError ''retry base delay cannot exceed maximum delay'')
      else Inr p)"

definition next_attempt_at :: "retry_policy \<Rightarrow> instant \<Rightarrow> int \<Rightarrow> instant res" where
  "next_attempt_at p now attempt_count =
     (if attempt_count < 1 then Inl (ValueError ''retry timing requires UTC and positive attempt count'')
      else Inr (now + 1000000 *
        min (rp_base_delay_seconds p * 2 ^ nat (attempt_count - 1)) (rp_max_delay_seconds p)))"

definition retry_or_fail :: "retry_policy \<Rightarrow> claimed_message \<Rightarrow> instant \<Rightarrow> string \<Rightarrow> delivery_transition res" where
  "retry_or_fail p item now why =
     (if rp_max_attempts p \<le> cl_attempt_count item
      then make_delivery_transition \<lparr> dt_state = DS_PERMANENT_FAILURE, dt_reason = ''retry-exhausted'',
        dt_completed_at = now, dt_response_status = None, dt_next_attempt_at = None \<rparr>
      else rbind (next_attempt_at p now (cl_attempt_count item)) (\<lambda>t.
        make_delivery_transition \<lparr> dt_state = DS_PENDING, dt_reason = why, dt_completed_at = now,
          dt_response_status = None, dt_next_attempt_at = Some t \<rparr>))"

definition classify_response :: "retry_policy \<Rightarrow> claimed_message \<Rightarrow> instant \<Rightarrow> post_result \<Rightarrow> delivery_transition res" where
  "classify_response p item now r =
     (case r of
        Client_raised e \<Rightarrow> Inl e
      | Transport_failed \<Rightarrow> retry_or_fail p item now ''transport-error''
      | Responded status \<Rightarrow>
          if 200 \<le> status \<and> status < 300
          then make_delivery_transition \<lparr> dt_state = DS_DELIVERED, dt_reason = ''2xx'', dt_completed_at = now,
            dt_response_status = Some status, dt_next_attempt_at = None \<rparr>
          else if status \<in> {408, 429} \<or> 500 \<le> status \<and> status < 600
          then retry_or_fail p item now ''retryable-status''
          else make_delivery_transition \<lparr> dt_state = DS_PERMANENT_FAILURE, dt_reason = ''permanent-status'',
            dt_completed_at = now, dt_response_status = Some status, dt_next_attempt_at = None \<rparr>)"

section \<open>The outbox\<close>

record outbox_row =
  ob_envelope :: message_envelope
  ob_state :: delivery_state
  ob_attempt_count :: int
  ob_next_attempt_at :: instant
  ob_claim_token :: "string option"
  ob_claim_expires_at :: "instant option"
  ob_completed_at :: "instant option"
  ob_response_status :: "int option"
  ob_last_reason :: "string option"

abbreviation ob_key :: "outbox_row \<Rightarrow> string" where
  "ob_key r \<equiv> me_idempotency_key (ob_envelope r)"

text \<open>\<open>INSERT OR IGNORE\<close>.\<close>

definition insert_outbox :: "message_envelope \<Rightarrow> outbox_row list \<Rightarrow> bool \<times> outbox_row list" where
  "insert_outbox e rows =
     (if list_ex (\<lambda>r. ob_key r = me_idempotency_key e) rows then (False, rows)
      else (True, rows @ [\<lparr> ob_envelope = e, ob_state = DS_PENDING, ob_attempt_count = 0,
        ob_next_attempt_at = me_created_at e, ob_claim_token = None, ob_claim_expires_at = None,
        ob_completed_at = None, ob_response_status = None, ob_last_reason = None \<rparr>]))"

definition enqueue :: "message_envelope \<Rightarrow> outbox_row list \<Rightarrow> (enqueue_receipt \<times> outbox_row list) res" where
  "enqueue e rows =
     (if me_kind e = FORMAL_SIGNAL
      then Inl (NotificationContractError ''FORMAL_SIGNAL must be published by EvidenceStore.publish_formal_bundle'')
      else let (inserted, rows') = insert_outbox e rows in
        case find (\<lambda>r. ob_key r = me_idempotency_key e) rows' of
          None \<Rightarrow> Inl (RecordError ''notification outbox insert was not retained'')
        | Some r \<Rightarrow>
            if ob_envelope r \<noteq> e
            then Inl (RecordError ''notification idempotency identity conflicts with retained content'')
            else Inr (\<lparr> er_envelope = e, er_coalesced = (\<not> inserted) \<rparr>, rows'))"

definition publish :: "message_envelope \<Rightarrow> outbox_row list \<Rightarrow> (enqueue_receipt \<times> outbox_row list) res" where
  "publish e rows =
     (if me_kind e = FORMAL_SIGNAL
      then Inl (NotificationContractError ''FORMAL_SIGNAL must be published by EvidenceStore.publish_formal_bundle'')
      else enqueue e rows)"

text \<open>
  The outbox part of \<open>publish_formal_bundle\<close>, the one way a FORMAL_SIGNAL enters the outbox: its own insert,
  after the check of the kind that precedes the transaction. The records of the bundle the same transaction writes are not modelled
  here; one that raises rolls the insert back.
\<close>

definition publish_formal :: "message_envelope \<Rightarrow> outbox_row list \<Rightarrow> (bool \<times> outbox_row list) res" where
  "publish_formal e rows =
     (if me_kind e \<noteq> FORMAL_SIGNAL then Inl (RecordError ''formal publication requires a FORMAL_SIGNAL envelope'')
      else let (inserted, rows') = insert_outbox e rows in
        case find (\<lambda>r. ob_key r = me_idempotency_key e) rows' of
          None \<Rightarrow> Inl (RecordError ''notification idempotency identity conflicts with retained content'')
        | Some r \<Rightarrow>
            if ob_envelope r \<noteq> e
            then Inl (RecordError ''notification idempotency identity conflicts with retained content'')
            else Inr (\<not> inserted, rows'))"

definition claim_free :: "instant \<Rightarrow> outbox_row \<Rightarrow> bool" where
  "claim_free now r \<longleftrightarrow> ob_claim_token r = None \<or>
     (case ob_claim_expires_at r of None \<Rightarrow> False | Some e \<Rightarrow> timestamp e \<le> timestamp now)"

definition due_rows :: "instant \<Rightarrow> int \<Rightarrow> outbox_row list \<Rightarrow> outbox_row list" where
  "due_rows now limit rows =
     take (nat limit) (sort_key (\<lambda>r. (timestamp (ob_next_attempt_at r), timestamp (me_created_at (ob_envelope r)), ob_key r))
       (filter (\<lambda>r. ob_state r = DS_PENDING \<and> timestamp (ob_next_attempt_at r) \<le> timestamp now \<and> claim_free now r) rows))"

definition claim_text :: "instant \<Rightarrow> int \<Rightarrow> string \<Rightarrow> string" where
  "claim_text now attempt_count key =
     ''{'' @ json_string False ''attempt_count'' @ '':'' @ int_str attempt_count @ '','' @
       json_string False ''claimed_at'' @ '':'' @ json_string False (timestamp now) @ '','' @
       json_string False ''idempotency_key'' @ '':'' @ json_string False key @ ''}''"

definition claim_token_of :: "hashing \<Rightarrow> instant \<Rightarrow> outbox_row \<Rightarrow> string" where
  "claim_token_of H now r = hexdigest H (claim_text now (ob_attempt_count r + 1) (ob_key r))"

definition claim_row ::
  "hashing \<Rightarrow> instant \<Rightarrow> instant \<Rightarrow> outbox_row \<Rightarrow> claimed_message list \<times> outbox_row list \<Rightarrow>
   (claimed_message list \<times> outbox_row list) res" where
  "claim_row H now expires r = (\<lambda>(claimed, rows).
     let token = claim_token_of H now r;
         hit = (\<lambda>q. ob_key q = ob_key r \<and> ob_state q = DS_PENDING \<and>
           ob_attempt_count q = ob_attempt_count r \<and> claim_free now q)
     in if length (filter hit rows) \<noteq> 1
        then Inl (RecordError ''notification outbox claim lost atomic ownership'')
        else if list_ex (\<lambda>q. ob_key q \<noteq> ob_key r \<and> ob_claim_token q = Some token) rows then Inl IntegrityError
        else rbind (make_claimed \<lparr> cl_envelope = ob_envelope r, cl_attempt_count = ob_attempt_count r + 1,
               cl_claim_token = token \<rparr>) (\<lambda>c.
          Inr (claimed @ [c], map (\<lambda>q. if hit q then q\<lparr> ob_attempt_count := ob_attempt_count r + 1,
            ob_claim_token := Some token, ob_claim_expires_at := Some expires \<rparr> else q) rows)))"

definition claim_due ::
  "hashing \<Rightarrow> instant \<Rightarrow> int \<Rightarrow> int \<Rightarrow> outbox_row list \<Rightarrow> (claimed_message list \<times> outbox_row list) res" where
  "claim_due H now limit lease rows =
     (if limit < 1 \<or> lease < 1
      then Inl (NotificationContractError ''outbox claim bounds must be positive integers'')
      else rfold (claim_row H now (now + 1000000 * lease)) (due_rows now limit rows) ([], rows))"

definition complete :: "string \<Rightarrow> delivery_transition \<Rightarrow> outbox_row list \<Rightarrow> outbox_row list" where
  "complete token t rows =
     (case find (\<lambda>r. ob_claim_token r = Some token) rows of
        None \<Rightarrow> rows
      | Some r \<Rightarrow>
          map (\<lambda>q. if ob_key q = ob_key r \<and> ob_claim_token q = Some token
            then q\<lparr> ob_state := dt_state t,
              ob_next_attempt_at := (case dt_next_attempt_at t of None \<Rightarrow> dt_completed_at t | Some n \<Rightarrow> n),
              ob_claim_token := None, ob_claim_expires_at := None, ob_completed_at := Some (dt_completed_at t),
              ob_response_status := dt_response_status t, ob_last_reason := Some (dt_reason t) \<rparr>
            else q) rows)"

definition outbox_state :: "string \<Rightarrow> outbox_row list \<Rightarrow> delivery_state option" where
  "outbox_state key rows = map_option ob_state (find (\<lambda>r. ob_key r = key) rows)"

section \<open>The dispatcher\<close>

text \<open>
  The dispatcher is given its outbox: the claim and complete operations are arguments, on any store. The
  world is the store, the state of the client and, for the statements, the keys posted so far. An
  exception that leaves \<open>dispatch_due\<close> does not undo what was claimed, posted and completed before it, so
  the world is returned beside the result.
\<close>

record ('s, 'w) outbox_world =
  ow_store :: 's
  ow_client :: 'w
  ow_posts :: "string list"

definition attempt ::
  "'w client \<Rightarrow> webhook_config \<Rightarrow> retry_policy \<Rightarrow> instant \<Rightarrow> claimed_message \<Rightarrow> ('s, 'w) outbox_world \<Rightarrow>
   delivery_transition res \<times> ('s, 'w) outbox_world" where
  "attempt post c p now item w =
     (let (r, client) = deliver post c (cl_envelope item) (ow_client w)
      in (classify_response p item now r,
          w\<lparr> ow_client := client, ow_posts := ow_posts w @ [me_idempotency_key (cl_envelope item)] \<rparr>))"

fun dispatch_items ::
  "(string \<Rightarrow> delivery_transition \<Rightarrow> 's \<Rightarrow> 's) \<Rightarrow> 'w client \<Rightarrow> webhook_config \<Rightarrow> retry_policy \<Rightarrow> instant \<Rightarrow>
   claimed_message list \<Rightarrow> (string \<times> delivery_transition) list \<Rightarrow> ('s, 'w) outbox_world \<Rightarrow>
   (string \<times> delivery_transition) list res \<times> ('s, 'w) outbox_world" where
  "dispatch_items complete_op post c p now [] results w = (Inr results, w)"
| "dispatch_items complete_op post c p now (item # items) results w =
     (case attempt post c p now item w of
        (Inl e, w') \<Rightarrow> (Inl e, w')
      | (Inr t, w') \<Rightarrow>
          dispatch_items complete_op post c p now items (results @ [(me_idempotency_key (cl_envelope item), t)])
            (w'\<lparr> ow_store := complete_op (cl_claim_token item) t (ow_store w') \<rparr>))"

definition dispatch_due ::
  "(instant \<Rightarrow> int \<Rightarrow> int \<Rightarrow> 's \<Rightarrow> (claimed_message list \<times> 's) res) \<Rightarrow>
   (string \<Rightarrow> delivery_transition \<Rightarrow> 's \<Rightarrow> 's) \<Rightarrow> 'w client \<Rightarrow> webhook_config \<Rightarrow> retry_policy \<Rightarrow> int \<Rightarrow> instant \<Rightarrow> int \<Rightarrow>
   ('s, 'w) outbox_world \<Rightarrow> (string \<times> delivery_transition) list res \<times> ('s, 'w) outbox_world" where
  "dispatch_due claim_op complete_op post c p lease now limit w =
     (if limit < 1 then (Inl (ValueError ''dispatch requires UTC and positive limit''), w)
      else case claim_op now limit lease (ow_store w) of
        Inl e \<Rightarrow> (Inl e, w)
      | Inr (claimed, store) \<Rightarrow> dispatch_items complete_op post c p now claimed [] (w\<lparr> ow_store := store \<rparr>))"

end
