(* ===== verification/Delivery_Props.thy ===== *)
theory Delivery_Props
  imports Delivery
begin

text \<open>
  Bounded delivery. The contract of the outbox port is a locale; the dispatcher's bound on the number of
  posts is proved once from it, for any interleaving of publications, dispatches and crashes, and the
  SQLite outbox of the code is an interpretation.
\<close>

section \<open>Classification\<close>

lemma classify_response_cases:
  assumes "1 \<le> cl_attempt_count item"
  shows "(\<exists>e. r = Client_raised e \<and> classify_response p item now r = Inl e) \<or>
    (\<exists>t. classify_response p item now r = Inr t \<and>
      (dt_state t = DS_PENDING \<longrightarrow> cl_attempt_count item < rp_max_attempts p))"
proof -
  have ne: "non_empty ''retry-exhausted'' f = Inr ()" "non_empty ''transport-error'' f = Inr ()"
    "non_empty ''retryable-status'' f = Inr ()" "non_empty ''2xx'' f = Inr ()" "non_empty ''permanent-status'' f = Inr ()" for f
    by (simp_all add: non_empty_def is_space_def rguard_def)
  show ?thesis using assms
    by (cases r) (auto simp: classify_response_def retry_or_fail_def next_attempt_at_def make_delivery_transition_def ne)
qed

section \<open>Workers\<close>

abbreviation ckey :: "claimed_message \<Rightarrow> string" where
  "ckey i \<equiv> me_idempotency_key (cl_envelope i)"

text \<open>
  Any number of workers share an outbox. A claim is held with the instant of its dispatch and, once it
  has been posted, the transition to record. The steps of the workers interleave in any order. A worker
  may die at any point, or its post may raise an exception that leaves the dispatcher: its claim is
  dropped. The third component lists the messages of the claims that took over a message another claim
  still owned, as happens when a lease has run out; the last one lists all claims made so far.
\<close>

type_synonym held_claim = "instant \<times> claimed_message \<times> delivery_transition option"

type_synonym ('s, 'w) fleet =
  "('s, 'w) outbox_world \<times> held_claim list \<times> string list \<times> (instant \<times> claimed_message) list"

inductive worker_step ::
  "(message_envelope \<Rightarrow> 's \<Rightarrow> (enqueue_receipt \<times> 's) res) \<Rightarrow> (message_envelope \<Rightarrow> 's \<Rightarrow> (bool \<times> 's) res) \<Rightarrow>
   ('s \<Rightarrow> string \<Rightarrow> bool) \<Rightarrow>
   (instant \<Rightarrow> int \<Rightarrow> int \<Rightarrow> 's \<Rightarrow> (claimed_message list \<times> 's) res) \<Rightarrow> (string \<Rightarrow> delivery_transition \<Rightarrow> 's \<Rightarrow> 's) \<Rightarrow>
   'w client \<Rightarrow> webhook_config \<Rightarrow> retry_policy \<Rightarrow> int \<Rightarrow> ('s, 'w) fleet \<Rightarrow> ('s, 'w) fleet \<Rightarrow> bool"
  for enqueue_op formal_op owned claim_op complete_op post c p lease where
  Enqueue: "enqueue_op e (ow_store w) = Inr (r, s) \<Longrightarrow>
     worker_step enqueue_op formal_op owned claim_op complete_op post c p lease (w, held, taken, issued)
       (w\<lparr> ow_store := s \<rparr>, held, taken, issued)"
| Formal: "formal_op e (ow_store w) = Inr (r, s) \<Longrightarrow>
     worker_step enqueue_op formal_op owned claim_op complete_op post c p lease (w, held, taken, issued)
       (w\<lparr> ow_store := s \<rparr>, held, taken, issued)"
| Claim: "claim_op now limit lease (ow_store w) = Inr (items, s) \<Longrightarrow>
     worker_step enqueue_op formal_op owned claim_op complete_op post c p lease (w, held, taken, issued)
       (w\<lparr> ow_store := s \<rparr>, map (\<lambda>i. (now, i, None)) items @ held, filter (owned (ow_store w)) (map ckey items) @ taken,
        map (\<lambda>i. (now, i)) items @ issued)"
| Post: "(now, i, None) \<in> set held \<Longrightarrow> attempt post c p now i w = (Inr t, w') \<Longrightarrow>
     worker_step enqueue_op formal_op owned claim_op complete_op post c p lease (w, held, taken, issued)
       (w', (now, i, Some t) # remove1 (now, i, None) held, taken, issued)"
| Raise: "(now, i, None) \<in> set held \<Longrightarrow> attempt post c p now i w = (Inl e, w') \<Longrightarrow>
     worker_step enqueue_op formal_op owned claim_op complete_op post c p lease (w, held, taken, issued)
       (w', remove1 (now, i, None) held, taken, issued)"
| Complete: "(now, i, Some t) \<in> set held \<Longrightarrow>
     worker_step enqueue_op formal_op owned claim_op complete_op post c p lease (w, held, taken, issued)
       (w\<lparr> ow_store := complete_op (cl_claim_token i) t (ow_store w) \<rparr>, remove1 (now, i, Some t) held, taken, issued)"
| Die: "h \<in> set held \<Longrightarrow>
     worker_step enqueue_op formal_op owned claim_op complete_op post c p lease (w, held, taken, issued)
       (w, remove1 h held, taken, issued)"

text \<open>
  A dispatch is a run of these steps: a claim, then for each message its post and its completion; when a
  post raises, the claims not yet posted are dropped.
\<close>

lemma abandon_run:
  "(worker_step enqueue_op formal_op owned claim_op complete_op post c p lease)\<^sup>*\<^sup>*
    (w, map (\<lambda>i. (now, i, None)) items @ held, taken, issued) (w, held, taken, issued)"
proof (induction items)
  case (Cons i items)
  let ?rest = "map (\<lambda>i. (now, i, None)) items @ held"
  have "worker_step enqueue_op formal_op owned claim_op complete_op post c p lease
      (w, (now, i, None) # ?rest, taken, issued) (w, ?rest, taken, issued)"
    using worker_step.Die [of "(now, i, None)" "(now, i, None) # ?rest"] by simp
  then show ?case using Cons by (simp add: converse_rtranclp_into_rtranclp)
qed simp

lemma dispatch_items_run:
  assumes "dispatch_items complete_op post c p now items results w = (r, w')"
  shows "(worker_step enqueue_op formal_op owned claim_op complete_op post c p lease)\<^sup>*\<^sup>*
    (w, map (\<lambda>i. (now, i, None)) items @ held, taken, issued) (w', held, taken, issued)"
  using assms
proof (induction items arbitrary: results w)
  case (Cons i items)
  let ?step = "worker_step enqueue_op formal_op owned claim_op complete_op post c p lease"
  let ?rest = "map (\<lambda>i. (now, i, None)) items @ held"
  obtain q u where a: "attempt post c p now i w = (q, u)" by force
  show ?case
  proof (cases q)
    case (Inl e)
    have "?step (w, (now, i, None) # ?rest, taken, issued) (u, ?rest, taken, issued)"
      using worker_step.Raise [of now i "(now, i, None) # ?rest" post c p w e u] a Inl by simp
    then show ?thesis using Cons.prems a Inl abandon_run [of _ _ _ _ _ _ _ _ _ u]
      by (simp add: converse_rtranclp_into_rtranclp)
  next
    case (Inr t)
    let ?v = "u\<lparr> ow_store := complete_op (cl_claim_token i) t (ow_store u) \<rparr>"
    have "?step (w, (now, i, None) # ?rest, taken, issued) (u, (now, i, Some t) # ?rest, taken, issued)"
      using worker_step.Post [of now i "(now, i, None) # ?rest" post c p w t u] a Inr by simp
    moreover have "?step (u, (now, i, Some t) # ?rest, taken, issued) (?v, ?rest, taken, issued)"
      using worker_step.Complete [of now i t "(now, i, Some t) # ?rest"] by simp
    moreover have "dispatch_items complete_op post c p now items (results @ [(ckey i, t)]) ?v = (r, w')"
      using Cons.prems a Inr by simp
    ultimately show ?thesis using Cons.IH by (simp add: converse_rtranclp_into_rtranclp)
  qed
qed simp

lemma dispatch_run:
  assumes "claim_op now limit lease (ow_store w) = Inr (items, s)" "1 \<le> limit"
    "dispatch_due claim_op complete_op post c p lease now limit w = (r, w')"
  shows "(worker_step enqueue_op formal_op owned claim_op complete_op post c p lease)\<^sup>*\<^sup>* (w, held, taken, issued)
    (w', held, filter (owned (ow_store w)) (map ckey items) @ taken, map (\<lambda>i. (now, i)) items @ issued)"
proof -
  have f: "dispatch_items complete_op post c p now items [] (w\<lparr> ow_store := s \<rparr>) = (r, w')"
    using assms by (simp add: dispatch_due_def)
  from worker_step.Claim [of claim_op now limit lease w items s enqueue_op formal_op owned complete_op post c p held taken issued, OF assms(1)]
    dispatch_items_run [OF f, of enqueue_op formal_op owned claim_op lease held]
  show ?thesis by (blast intro: converse_rtranclp_into_rtranclp)
qed

lemma attempt_effect:
  "\<exists>client. snd (attempt post c p now i w) = w\<lparr> ow_client := client, ow_posts := ow_posts w @ [ckey i] \<rparr>"
  by (cases "deliver post c (cl_envelope i) (ow_client w)") (auto simp: attempt_def)

lemma deliver_posts: "deliver post c e x = (r, x') \<Longrightarrow> \<exists>u b h n. post u b h n x = (r, x')"
  unfolding deliver_def Let_def by blast

lemma attempt_result:
  assumes "1 \<le> cl_attempt_count i"
  shows "attempt post c p now i w = (Inr t, w') \<Longrightarrow> dt_state t = DS_PENDING \<Longrightarrow> cl_attempt_count i < rp_max_attempts p"
    and "attempt post c p now i w = (Inl e, w') \<Longrightarrow> \<exists>u b h n x x'. post u b h n x = (Client_raised e, x')"
proof -
  obtain r x' where d: "deliver post c (cl_envelope i) (ow_client w) = (r, x')" by force
  note r = classify_response_cases [OF assms, of r p now]
  show "cl_attempt_count i < rp_max_attempts p" if "attempt post c p now i w = (Inr t, w')" "dt_state t = DS_PENDING"
    using that d r by (auto simp: attempt_def)
  show "\<exists>u b h n x x'. post u b h n x = (Client_raised e, x')" if "attempt post c p now i w = (Inl e, w')"
  proof -
    have "r = Client_raised e" using that d r by (auto simp: attempt_def)
    then show ?thesis using deliver_posts [OF d] by blast
  qed
qed

text \<open>A dispatch that returns has posted every claimed message, once; one that raises passes on an exception of the client.\<close>

lemma dispatch_items_result:
  assumes "\<And>i. i \<in> set items \<Longrightarrow> 1 \<le> cl_attempt_count i"
    and "dispatch_items complete_op post c p now items results w = (r, w')"
  shows "(\<forall>rs. r = Inr rs \<longrightarrow> map fst rs = map fst results @ map ckey items \<and> ow_posts w' = ow_posts w @ map ckey items) \<and>
    (\<forall>e. r = Inl e \<longrightarrow> (\<exists>u b h n x x'. post u b h n x = (Client_raised e, x')))"
  using assms
proof (induction items arbitrary: results w)
  case (Cons i items)
  have a1: "1 \<le> cl_attempt_count i" using Cons.prems(1) by simp
  obtain q u where a: "attempt post c p now i w = (q, u)" by force
  then have u: "ow_posts u = ow_posts w @ [ckey i]" using attempt_effect [of post c p now i w] by auto
  show ?case
  proof (cases q)
    case (Inl e)
    have "r = Inl e" using Cons.prems(2) a Inl by simp
    moreover have "\<exists>u b h n x x'. post u b h n x = (Client_raised e, x')"
      using attempt_result(2) [OF a1] a Inl by simp
    ultimately show ?thesis by simp
  next
    case (Inr t)
    then have "dispatch_items complete_op post c p now items (results @ [(ckey i, t)])
        (u\<lparr> ow_store := complete_op (cl_claim_token i) t (ow_store u) \<rparr>) = (r, w')"
      using Cons.prems(2) a by simp
    from Cons.IH [OF _ this] Cons.prems(1) u show ?thesis by simp
  qed
qed auto

lemma issued_grows:
  assumes "worker_step enqueue_op formal_op owned claim_op complete_op post c p lease (w, held, taken, issued) (w', held', taken', issued')"
  shows "set issued \<subseteq> set issued'"
  using assms by cases auto

section \<open>The contract of the port\<close>

text \<open>
  \<open>state_of\<close> gives the delivery state and attempt count under a key, \<open>owner\<close> the key a claim token
  owns. Both ways of publishing a message add it under a new key or leave the store as it is. A claim
  increments the attempts of pending messages and makes its tokens own them, taking over from earlier
  tokens; a token is made from the instant, the attempt and the key. Completing an owned message sets
  its state and releases the token; a stale token has no effect.
\<close>

locale outbox_port =
  fixes valid :: "'s \<Rightarrow> bool"
    and state_of :: "'s \<Rightarrow> string \<Rightarrow> (delivery_state \<times> int) option"
    and owner :: "'s \<Rightarrow> string \<Rightarrow> string option"
    and owned :: "'s \<Rightarrow> string \<Rightarrow> bool"
    and token_of :: "instant \<Rightarrow> int \<Rightarrow> string \<Rightarrow> string"
    and enqueue_op :: "message_envelope \<Rightarrow> 's \<Rightarrow> (enqueue_receipt \<times> 's) res"
    and formal_op :: "message_envelope \<Rightarrow> 's \<Rightarrow> (bool \<times> 's) res"
    and claim_op :: "instant \<Rightarrow> int \<Rightarrow> int \<Rightarrow> 's \<Rightarrow> (claimed_message list \<times> 's) res"
    and complete_op :: "string \<Rightarrow> delivery_transition \<Rightarrow> 's \<Rightarrow> 's"
  assumes owned_law: "valid s \<Longrightarrow> owned s k \<longleftrightarrow> (\<exists>tok. owner s tok = Some k)"
    and enqueue_law: "valid s \<Longrightarrow> enqueue_op e s = Inr (r, s') \<Longrightarrow> valid s' \<and> owner s' = owner s \<and>
      (state_of s' = state_of s \<or> state_of s (me_idempotency_key e) = None \<and>
        state_of s' = (state_of s)(me_idempotency_key e \<mapsto> (DS_PENDING, 0)))"
    and formal_law: "valid s \<Longrightarrow> formal_op e s = Inr (b, s') \<Longrightarrow> valid s' \<and> owner s' = owner s \<and>
      (state_of s' = state_of s \<or> state_of s (me_idempotency_key e) = None \<and>
        state_of s' = (state_of s)(me_idempotency_key e \<mapsto> (DS_PENDING, 0)))"
    and claim_law: "valid s \<Longrightarrow> claim_op now limit lease s = Inr (items, s') \<Longrightarrow> valid s' \<and> distinct (map ckey items) \<and>
      (\<forall>i \<in> set items. 1 \<le> cl_attempt_count i \<and> state_of s (ckey i) = Some (DS_PENDING, cl_attempt_count i - 1) \<and>
        state_of s' (ckey i) = Some (DS_PENDING, cl_attempt_count i) \<and>
        (\<forall>tok. owner s' tok = Some (ckey i) \<longleftrightarrow> tok = cl_claim_token i)) \<and>
      (\<forall>k. k \<notin> ckey ` set items \<longrightarrow> state_of s' k = state_of s k \<and> (\<forall>tok. owner s' tok = Some k \<longleftrightarrow> owner s tok = Some k))"
    and token_law: "valid s \<Longrightarrow> claim_op now limit lease s = Inr (items, s') \<Longrightarrow> i \<in> set items \<Longrightarrow>
      cl_claim_token i = token_of now (cl_attempt_count i) (ckey i)"
    and complete_law: "valid s \<Longrightarrow> owner s tok = Some k \<Longrightarrow> state_of s k = Some (st, a) \<Longrightarrow>
      valid (complete_op tok t s) \<and> state_of (complete_op tok t s) = (state_of s)(k \<mapsto> (dt_state t, a)) \<and>
      (\<forall>tok' k'. owner (complete_op tok t s) tok' = Some k' \<longleftrightarrow> owner s tok' = Some k' \<and> k' \<noteq> k)"
    and stale_law: "owner s tok = None \<Longrightarrow> complete_op tok t s = s"
begin

definition has_owner :: "'s \<Rightarrow> string \<Rightarrow> bool" where
  "has_owner s k \<longleftrightarrow> (\<exists>tok. owner s tok = Some k)"

definition unposted :: "string \<Rightarrow> held_claim list \<Rightarrow> nat" where
  "unposted k held = length (filter (\<lambda>(_, i, t). t = None \<and> ckey i = k) held)"

definition row_ok :: "int \<Rightarrow> ('s, 'w) outbox_world \<Rightarrow> held_claim list \<Rightarrow> string list \<Rightarrow> string \<Rightarrow> delivery_state \<times> int \<Rightarrow> bool" where
  "row_ok limit w held taken k = (\<lambda>(st, a).
     int (count_list (ow_posts w) k + unposted k held) \<le> a \<and> a \<le> limit + int (count_list taken k) \<and>
     (st = DS_PENDING \<longrightarrow> \<not> has_owner (ow_store w) k \<longrightarrow> a < limit))"

definition held_ok :: "int \<Rightarrow> ('s, 'w) outbox_world \<Rightarrow> (instant \<times> claimed_message) list \<Rightarrow> held_claim \<Rightarrow> bool" where
  "held_ok limit w issued = (\<lambda>(now, i, t). ckey i \<in> dom (state_of (ow_store w)) \<and> 1 \<le> cl_attempt_count i \<and>
     (now, i) \<in> set issued \<and> (\<forall>t'. t = Some t' \<longrightarrow> dt_state t' = DS_PENDING \<longrightarrow> cl_attempt_count i < limit))"

definition owner_ok :: "(instant \<times> claimed_message) list \<Rightarrow> 's \<Rightarrow> bool" where
  "owner_ok issued s \<longleftrightarrow> (\<forall>tok k. owner s tok = Some k \<longrightarrow> (\<exists>(n, i) \<in> set issued. cl_claim_token i = tok \<and> ckey i = k \<and>
     state_of s k = Some (DS_PENDING, cl_attempt_count i)))"

definition issued_ok :: "(instant \<times> claimed_message) list \<Rightarrow> bool" where
  "issued_ok issued \<longleftrightarrow> (\<forall>(n, i) \<in> set issued. cl_claim_token i = token_of n (cl_attempt_count i) (ckey i))"

text \<open>No two claims of different attempts or messages share a token.\<close>

definition distinct_tokens :: "(instant \<times> claimed_message) list \<Rightarrow> bool" where
  "distinct_tokens issued \<longleftrightarrow> (\<forall>(n, i) \<in> set issued. \<forall>(m, j) \<in> set issued.
     token_of n (cl_attempt_count i) (ckey i) = token_of m (cl_attempt_count j) (ckey j) \<longrightarrow>
     cl_attempt_count i = cl_attempt_count j \<and> ckey i = ckey j)"

definition bounded :: "int \<Rightarrow> ('s, 'w) fleet \<Rightarrow> bool" where
  "bounded limit = (\<lambda>(w, held, taken, issued). valid (ow_store w) \<and> owner_ok issued (ow_store w) \<and> issued_ok issued \<and>
     set (ow_posts w) \<subseteq> dom (state_of (ow_store w)) \<and> (\<forall>h \<in> set held. held_ok limit w issued h) \<and>
     (\<forall>k x. state_of (ow_store w) k = Some x \<longrightarrow> row_ok limit w held taken k x))"

lemma distinct_tokens_mono: "distinct_tokens issued \<Longrightarrow> set old \<subseteq> set issued \<Longrightarrow> distinct_tokens old"
  unfolding distinct_tokens_def by blast

lemma same_token:
  assumes "issued_ok issued" "distinct_tokens issued" "(n, i) \<in> set issued" "(m, j) \<in> set issued"
    "cl_claim_token i = cl_claim_token j"
  shows "cl_attempt_count i = cl_attempt_count j \<and> ckey i = ckey j"
proof -
  have "cl_claim_token i = token_of n (cl_attempt_count i) (ckey i)" "cl_claim_token j = token_of m (cl_attempt_count j) (ckey j)"
    using assms(1,3,4) unfolding issued_ok_def by blast+
  then show ?thesis using assms(2-5) unfolding distinct_tokens_def by fastforce
qed

lemma unposted_Cons: "unposted k ((now, i, t) # held) = (if t = None \<and> ckey i = k then 1 else 0) + unposted k held"
  by (simp add: unposted_def)

lemma unposted_remove1_le: "unposted k (remove1 h held) \<le> unposted k held"
  by (induction held) (auto simp: unposted_def split: prod.splits)

lemma unposted_remove1:
  "(now, i, None) \<in> set held \<Longrightarrow> unposted k held = (if ckey i = k then 1 else 0) + unposted k (remove1 (now, i, None) held)"
  by (induction held) (auto simp: unposted_def)

lemma unposted_absent: "(\<And>h. h \<in> set held \<Longrightarrow> held_ok limit w issued h) \<Longrightarrow> state_of (ow_store w) k = None \<Longrightarrow> unposted k held = 0"
  by (force simp: unposted_def held_ok_def filter_empty_conv)

lemma unposted_claim:
  "distinct (map ckey items) \<Longrightarrow>
   unposted k (map (\<lambda>i. (now, i, None)) items @ held) = (if k \<in> ckey ` set items then 1 else 0) + unposted k held"
  by (induction items) (auto simp: unposted_def)

lemma bounded_insert:
  assumes "bounded limit (w, held, taken, issued)" "0 < limit"
    and l: "valid s \<and> owner s = owner (ow_store w) \<and> (state_of s = state_of (ow_store w) \<or>
      state_of (ow_store w) key = None \<and> state_of s = (state_of (ow_store w))(key \<mapsto> (DS_PENDING, 0)))"
  shows "bounded limit (w\<lparr> ow_store := s \<rparr>, held, taken, issued)"
proof -
  from assms(1) have v: "valid (ow_store w)" and p: "set (ow_posts w) \<subseteq> dom (state_of (ow_store w))"
    and ok: "owner_ok issued (ow_store w)"
    and h: "\<And>h. h \<in> set held \<Longrightarrow> held_ok limit w issued h" by (auto simp: bounded_def)
  show ?thesis
  proof (cases "state_of s = state_of (ow_store w)")
    case True
    with assms(1) l show ?thesis by (simp add: bounded_def owner_ok_def held_ok_def row_ok_def has_owner_def)
  next
    case False
    with l have n: "state_of (ow_store w) key = None" and s: "state_of s = (state_of (ow_store w))(key \<mapsto> (DS_PENDING, 0))" by auto
    have "key \<notin> set (ow_posts w)" using p n by auto
    then have "count_list (ow_posts w) key = 0" by (simp add: count_list_0_iff)
    moreover have "unposted key held = 0" using unposted_absent [OF h n] by simp
    moreover have "owner_ok issued s" unfolding owner_ok_def
    proof (intro allI impI)
      fix tok k assume "owner s tok = Some k"
      then obtain m i where "(m, i) \<in> set issued" "cl_claim_token i = tok" "ckey i = k"
        "state_of (ow_store w) k = Some (DS_PENDING, cl_attempt_count i)"
        using ok l unfolding owner_ok_def by fastforce
      then show "\<exists>(m, i) \<in> set issued. cl_claim_token i = tok \<and> ckey i = k \<and> state_of s k = Some (DS_PENDING, cl_attempt_count i)"
        using n s by (cases "k = key") auto
    qed
    moreover have "held_ok limit (w\<lparr> ow_store := s \<rparr>) issued x" if "x \<in> set held" for x using h [OF that] by (auto simp: held_ok_def s)
    ultimately show ?thesis using assms(1,2) l p by (auto simp: bounded_def row_ok_def has_owner_def s)
  qed
qed

lemma bounded_claim:
  assumes b: "bounded limit (w, held, taken, issued)"
    and cl: "claim_op now n lease (ow_store w) = Inr (items, s)"
  shows "bounded limit (w\<lparr> ow_store := s \<rparr>, map (\<lambda>i. (now, i, None)) items @ held,
    filter (owned (ow_store w)) (map ckey items) @ taken, map (\<lambda>i. (now, i)) items @ issued)"
proof -
  let ?s = "ow_store w" and ?taken = "filter (has_owner (ow_store w)) (map ckey items) @ taken"
  let ?held = "map (\<lambda>i. (now, i, None)) items @ held" and ?issued = "map (\<lambda>i. (now, i)) items @ issued"
  from b have v: "valid ?s" and ok: "owner_ok issued ?s" and p: "set (ow_posts w) \<subseteq> dom (state_of ?s)" and io: "issued_ok issued"
    and h: "\<And>h. h \<in> set held \<Longrightarrow> held_ok limit w issued h"
    and r: "\<And>k x. state_of ?s k = Some x \<Longrightarrow> row_ok limit w held taken k x" by (auto simp: bounded_def)
  have o: "owned ?s = has_owner ?s" using owned_law [OF v] by (simp add: fun_eq_iff has_owner_def)
  note l = claim_law [OF v cl]
  have d: "distinct (map ckey items)" using l by blast
  have li: "1 \<le> cl_attempt_count i" "state_of ?s (ckey i) = Some (DS_PENDING, cl_attempt_count i - 1)"
    "state_of s (ckey i) = Some (DS_PENDING, cl_attempt_count i)" "\<And>tok. owner s tok = Some (ckey i) \<longleftrightarrow> tok = cl_claim_token i"
    if "i \<in> set items" for i using l that by blast+
  have lk: "state_of s k = state_of ?s k" "\<And>tok. owner s tok = Some k \<longleftrightarrow> owner ?s tok = Some k" if "k \<notin> ckey ` set items" for k
    using l that by blast+
  have dom: "dom (state_of ?s) \<subseteq> dom (state_of s)"
  proof
    fix k assume "k \<in> dom (state_of ?s)"
    then show "k \<in> dom (state_of s)" using li(3) lk(1) by (cases "k \<in> ckey ` set items") auto
  qed
  have "owner_ok ?issued s" unfolding owner_ok_def
  proof (intro allI impI)
    fix tok k assume o: "owner s tok = Some k"
    show "\<exists>(m, i) \<in> set ?issued. cl_claim_token i = tok \<and> ckey i = k \<and> state_of s k = Some (DS_PENDING, cl_attempt_count i)"
    proof (cases "k \<in> ckey ` set items")
      case True
      then obtain i where i: "i \<in> set items" "k = ckey i" by auto
      with o li(4) [OF i(1)] have "tok = cl_claim_token i" by simp
      with i li(3) [OF i(1)] show ?thesis by auto
    next
      case False
      with o ok lk [OF False] show ?thesis unfolding owner_ok_def by fastforce
    qed
  qed
  moreover have "issued_ok ?issued" using io token_law [OF v cl] by (auto simp: issued_ok_def)
  moreover have "held_ok limit (w\<lparr> ow_store := s \<rparr>) ?issued x" if "x \<in> set ?held" for x
    using that h dom li(1,3) by (fastforce simp: held_ok_def)
  moreover have "row_ok limit (w\<lparr> ow_store := s \<rparr>) ?held ?taken k x" if x: "state_of s k = Some x" for k x
  proof (cases "k \<in> ckey ` set items")
    case True
    then obtain i where i: "i \<in> set items" "k = ckey i" by auto
    have x': "x = (DS_PENDING, cl_attempt_count i)" using x li(3) [OF i(1)] i(2) by simp
    have "has_owner s k" using li(4) [OF i(1)] i(2) by (auto simp: has_owner_def)
    moreover have "1 \<le> count_list (filter (has_owner ?s) (map ckey items)) k" if "has_owner ?s k"
    proof -
      have "k \<in> set (filter (has_owner ?s) (map ckey items))" using that i by auto
      then have "count_list (filter (has_owner ?s) (map ckey items)) k \<noteq> 0" by (simp add: count_list_0_iff)
      then show ?thesis by linarith
    qed
    ultimately show ?thesis using r [OF li(2) [OF i(1)]] True x' i(2)
      unfolding row_ok_def by (cases "has_owner ?s k") (auto simp: unposted_claim [OF d] count_list_append)
  next
    case False
    then have "count_list (filter (has_owner ?s) (map ckey items)) k = 0" by (auto simp: count_list_0_iff)
    then show ?thesis using r [of k x] x lk [OF False] False
      unfolding row_ok_def by (auto simp: has_owner_def unposted_claim [OF d] count_list_append)
  qed
  ultimately show ?thesis using l p dom unfolding bounded_def o by auto
qed

lemma bounded_sent:
  assumes "bounded limit (w, held, taken, issued)" "(now, i, None) \<in> set held" "attempt post c p now i w = (q, w')"
  shows "bounded limit (w', remove1 (now, i, None) held, taken, issued)"
proof -
  obtain client where w': "w' = w\<lparr> ow_client := client, ow_posts := ow_posts w @ [ckey i] \<rparr>"
    using attempt_effect [of post c p now i w] assms(3) by auto
  have "held_ok limit w' issued x" if "x \<in> set held" for x using assms(1) that by (auto simp: bounded_def held_ok_def w')
  moreover have "row_ok limit w' (remove1 (now, i, None) held) taken k x" if "row_ok limit w held taken k x" for k x
    using that unposted_remove1 [OF assms(2), of k] by (auto simp: row_ok_def w' count_list_append)
  moreover have "ckey i \<in> dom (state_of (ow_store w))" using assms(1,2) by (auto simp: bounded_def held_ok_def)
  moreover have "ow_store w' = ow_store w" "set (ow_posts w') = insert (ckey i) (set (ow_posts w))" by (simp_all add: w')
  ultimately show ?thesis using assms(1) unfolding bounded_def by (auto dest: notin_set_remove1 set_remove1_subset [THEN subsetD])
qed

lemma bounded_post:
  assumes "bounded limit (w, held, taken, issued)" "(now, i, None) \<in> set held" "attempt post c p now i w = (Inr t, w')"
    "rp_max_attempts p = limit"
  shows "bounded limit (w', (now, i, Some t) # remove1 (now, i, None) held, taken, issued)"
proof -
  note b = bounded_sent [OF assms(1-3)]
  have h: "held_ok limit w issued (now, i, None)" using assms(1,2) by (auto simp: bounded_def)
  then have a: "1 \<le> cl_attempt_count i" by (simp add: held_ok_def)
  have "ow_store w' = ow_store w" using attempt_effect [of post c p now i w] assms(3) by auto
  then have "held_ok limit w' issued (now, i, Some t)"
    using h attempt_result(1) [OF a assms(3)] assms(4) by (simp add: held_ok_def)
  moreover have "row_ok limit w' ((now, i, Some t) # held') taken k x" if "row_ok limit w' held' taken k x" for k x held'
    using that by (simp add: row_ok_def unposted_Cons)
  ultimately show ?thesis using b by (auto simp: bounded_def)
qed

lemma bounded_complete:
  assumes "bounded limit (w, held, taken, issued)" "(now, i, Some t) \<in> set held" "distinct_tokens issued"
  shows "bounded limit (w\<lparr> ow_store := complete_op (cl_claim_token i) t (ow_store w) \<rparr>, held, taken, issued)"
proof (cases "owner (ow_store w) (cl_claim_token i)")
  case None
  then show ?thesis using assms(1) stale_law [OF None] by simp
next
  case (Some k)
  let ?s = "ow_store w" and ?tok = "cl_claim_token i"
  from assms have v: "valid ?s" and ok: "owner_ok issued ?s" and hi: "held_ok limit w issued (now, i, Some t)"
    and p: "set (ow_posts w) \<subseteq> dom (state_of ?s)" and h: "\<And>h. h \<in> set held \<Longrightarrow> held_ok limit w issued h" and io: "issued_ok issued"
    and r: "\<And>k x. state_of ?s k = Some x \<Longrightarrow> row_ok limit w held taken k x" by (auto simp: bounded_def)
  obtain m j where j: "(m, j) \<in> set issued" "cl_claim_token j = ?tok" "ckey j = k"
    "state_of ?s k = Some (DS_PENDING, cl_attempt_count j)"
    using ok Some unfolding owner_ok_def by blast
  have i: "(now, i) \<in> set issued" using hi by (simp add: held_ok_def)
  have e: "cl_attempt_count j = cl_attempt_count i" "ckey j = ckey i"
    using same_token [OF io assms(3) j(1) i j(2)] by blast+
  then have st: "state_of ?s k = Some (DS_PENDING, cl_attempt_count i)" using j(4) by simp
  define s where "s = complete_op ?tok t ?s"
  have s: "valid s" "state_of s = (state_of ?s)(k \<mapsto> (dt_state t, cl_attempt_count i))"
    "\<And>tok' k'. owner s tok' = Some k' \<longleftrightarrow> owner ?s tok' = Some k' \<and> k' \<noteq> k"
    using complete_law [OF v Some st, of t] unfolding s_def by blast+
  have "owner_ok issued s" using ok unfolding owner_ok_def s(2,3) by auto
  moreover have "held_ok limit (w\<lparr> ow_store := s \<rparr>) issued x" if "x \<in> set held" for x using h [OF that] by (auto simp: held_ok_def s(2))
  moreover have "row_ok limit (w\<lparr> ow_store := s \<rparr>) held taken k' x" if "state_of s k' = Some x" for k' x
  proof (cases "k' = k")
    case True
    then show ?thesis using that r [OF st] hi by (auto simp: s(2) row_ok_def held_ok_def)
  next
    case False
    then show ?thesis using that r [of k' x] by (auto simp: s(2,3) row_ok_def has_owner_def)
  qed
  ultimately show ?thesis using s(1) p io unfolding bounded_def s_def [symmetric] by (auto simp: s(2))
qed

lemma bounded_drop:
  assumes "bounded limit (w, held, taken, issued)"
  shows "bounded limit (w, remove1 h held, taken, issued)"
proof -
  have "row_ok limit w (remove1 h held) taken k x" if "row_ok limit w held taken k x" for k x
    using that unposted_remove1_le [of k h held] by (auto simp: row_ok_def)
  then show ?thesis using assms by (auto simp: bounded_def dest: set_remove1_subset [THEN subsetD])
qed

lemma bounded_step:
  assumes "worker_step enqueue_op formal_op owned claim_op complete_op post c p lease x (w, held, taken, issued)"
    "bounded (rp_max_attempts p) x" "0 < rp_max_attempts p" "distinct_tokens issued"
  shows "bounded (rp_max_attempts p) (w, held, taken, issued)"
  using assms(1)
proof cases
  case (Enqueue e w0 r s)
  with assms(2) have b: "bounded (rp_max_attempts p) (w0, held, taken, issued)" by simp
  then have "valid (ow_store w0)" by (simp add: bounded_def)
  then show ?thesis using bounded_insert [OF b assms(3) enqueue_law] Enqueue by simp
next
  case (Formal e w0 r s)
  with assms(2) have b: "bounded (rp_max_attempts p) (w0, held, taken, issued)" by simp
  then have "valid (ow_store w0)" by (simp add: bounded_def)
  then show ?thesis using bounded_insert [OF b assms(3) formal_law] Formal by simp
next
  case Claim
  with assms bounded_claim show ?thesis by blast
next
  case Post
  with assms bounded_post show ?thesis by blast
next
  case Raise
  with assms bounded_sent show ?thesis by blast
next
  case (Complete now i t held0 w0)
  with assms bounded_drop [OF bounded_complete [of _ w0 held0 taken issued now i t]] show ?thesis by blast
next
  case Die
  with assms bounded_drop show ?thesis by blast
qed

lemma bounded_run:
  assumes "(worker_step enqueue_op formal_op owned claim_op complete_op post c p lease)\<^sup>*\<^sup>* x (w, held, taken, issued)"
    "bounded (rp_max_attempts p) x" "0 < rp_max_attempts p" "distinct_tokens issued"
  shows "bounded (rp_max_attempts p) (w, held, taken, issued)"
  using assms(1,4)
proof (induction "(w, held, taken, issued)" arbitrary: w held taken issued rule: rtranclp_induct)
  case base
  with assms(2) show ?case by simp
next
  case (step y)
  obtain w0 held0 taken0 issued0 where y: "y = (w0, held0, taken0, issued0)" by (cases y) auto
  have "distinct_tokens issued0" using distinct_tokens_mono issued_grows step.hyps(2) step.prems unfolding y by blast
  then have "bounded (rp_max_attempts p) y" using step.hyps(3) [OF y] by (simp add: y)
  with bounded_step [OF step.hyps(2) _ assms(3) step.prems] show ?case .
qed

lemma dispatch_total:
  assumes "valid (ow_store w)" "claim_op now n lease (ow_store w) = Inr (items, s)" "1 \<le> n"
    and "dispatch_due claim_op complete_op post c p lease now n w = (r, w')"
  shows "(\<forall>rs. r = Inr rs \<longrightarrow> map fst rs = map ckey items \<and> ow_posts w' = ow_posts w @ map ckey items) \<and>
    (\<forall>e. r = Inl e \<longrightarrow> (\<exists>u b h t x x'. post u b h t x = (Client_raised e, x')))"
proof -
  have a: "\<And>i. i \<in> set items \<Longrightarrow> 1 \<le> cl_attempt_count i" using claim_law [OF assms(1,2)] by blast
  have "dispatch_items complete_op post c p now items [] (w\<lparr> ow_store := s \<rparr>) = (r, w')"
    using assms(2-4) by (simp add: dispatch_due_def)
  from dispatch_items_result [OF a this] show ?thesis by simp
qed

end

end
