(* ===== verification/Texts.thy ===== *)
theory Texts
  imports Delivery
begin

text \<open>
  Readers for the texts the program writes: integers, decimals, the payload a one-minute bar is hashed
  over and JSON strings. Each reader recovers what was written, so the texts, and the digests taken over
  them, determine the values.
\<close>

section \<open>Integers\<close>

definition digit_val :: "char \<Rightarrow> int" where
  "digit_val c = int (of_char c) - 48"

definition read_nat :: "string \<Rightarrow> int" where
  "read_nat s = foldl (\<lambda>a c. 10 * a + digit_val c) 0 s"

definition read_int :: "string \<Rightarrow> int" where
  "read_int s = (case s of [] \<Rightarrow> 0 | c # cs \<Rightarrow> if c = CHR ''-'' then - read_nat cs else read_nat s)"

definition is_digit :: "char \<Rightarrow> bool" where
  "is_digit c \<longleftrightarrow> c \<in> set ''0123456789''"

lemma not_digits [simp]: "\<not> is_digit CHR ''-''" "\<not> is_digit CHR ''.''" "\<not> is_digit CHR ''|''" "\<not> is_digit CHR '',''"
  by (simp_all add: is_digit_def)

lemma below_ten: "0 \<le> i \<Longrightarrow> i < (10::int) \<Longrightarrow> i = 0 \<or> i = 1 \<or> i = 2 \<or> i = 3 \<or> i = 4 \<or> i = 5 \<or> i = 6 \<or> i = 7 \<or> i = 8 \<or> i = 9"
  by presburger

lemma digit_char:
  assumes "0 \<le> i" "i < 10"
  shows "is_digit (''0123456789'' ! nat i)" "digit_val (''0123456789'' ! nat i) = i"
  using below_ten [OF assms] by (elim disjE; simp add: digit_val_def is_digit_def)+

lemma int_digits_digits: "0 \<le> i \<Longrightarrow> list_all is_digit (int_digits i)"
proof (induction i rule: int_digits.induct)
  case (1 i)
  show ?case
  proof (cases "i < 10")
    case True
    with 1 digit_char(1) [of i] show ?thesis by (simp add: int_digits.simps [of i])
  next
    case False
    with 1 digit_char(1) [of "i mod 10"] show ?thesis by (simp add: int_digits.simps [of i])
  qed
qed

lemma read_int_digits: "0 \<le> i \<Longrightarrow> read_nat (int_digits i) = i"
proof (induction i rule: int_digits.induct)
  case (1 i)
  show ?case
  proof (cases "i < 10")
    case True
    with 1 digit_char(2) [of i] show ?thesis by (simp add: int_digits.simps [of i] read_nat_def)
  next
    case False
    with 1 digit_char(2) [of "i mod 10"] show ?thesis by (simp add: int_digits.simps [of i] read_nat_def)
  qed
qed

lemma int_digits_nonempty: "int_digits i \<noteq> []"
  by (subst int_digits.simps) simp

lemma read_int_str: "read_int (int_str i) = i"
proof (cases "i < 0")
  case True
  then show ?thesis by (simp add: int_str_def read_int_def read_int_digits)
next
  case False
  obtain c cs where c: "int_digits i = c # cs" using int_digits_nonempty by (cases "int_digits i") auto
  with False int_digits_digits [of i] have "c \<noteq> CHR ''-''" by auto
  with False c read_int_digits [of i] show ?thesis by (simp add: int_str_def read_int_def)
qed

lemma int_str_no: "\<not> is_digit c \<Longrightarrow> c \<noteq> CHR ''-'' \<Longrightarrow> c \<notin> set (int_str i)"
  using int_digits_digits [of i] int_digits_digits [of "- i"] by (cases "i < 0") (auto simp: int_str_def list_all_iff)

section \<open>Decimals\<close>

text \<open>A finite decimal: a whole number of units of some power of ten.\<close>

definition finite_decimal :: "decimal \<Rightarrow> bool" where
  "finite_decimal v \<longleftrightarrow> (\<exists>k. v * 10 ^ k \<in> \<int>)"

fun read_frac :: "string \<Rightarrow> rat" where
  "read_frac [] = 0"
| "read_frac (c # cs) = (of_int (digit_val c) + read_frac cs) / 10"

definition read_unsigned :: "string \<Rightarrow> rat" where
  "read_unsigned s = of_int (read_nat (takeWhile (\<lambda>c. c \<noteq> CHR ''.'') s)) +
     read_frac (drop 1 (dropWhile (\<lambda>c. c \<noteq> CHR ''.'') s))"

definition read_decimal :: "string \<Rightarrow> rat" where
  "read_decimal s = (case s of [] \<Rightarrow> 0 | c # cs \<Rightarrow> if c = CHR ''-'' then - read_unsigned cs else read_unsigned s)"

lemma divides_power_ten:
  assumes "(d::int) dvd 10 ^ k" "1 < d"
  shows "2 \<le> gcd d 10"
proof (rule ccontr)
  assume "\<not> 2 \<le> gcd d 10"
  moreover have "0 < gcd d 10" by simp
  ultimately have "coprime d 10" unfolding coprime_iff_gcd_eq_1 by linarith
  then have "coprime d (10 ^ k)" by simp
  with assms show False using coprime_common_divisor [of d "10 ^ k" d] by auto
qed

lemma next_digit:
  assumes x: "0 \<le> x" "x < (1::rat)"
  shows "0 \<le> \<lfloor>10 * x\<rfloor>" "\<lfloor>10 * x\<rfloor> < 10" "0 \<le> 10 * x - of_int \<lfloor>10 * x\<rfloor>" "10 * x - of_int \<lfloor>10 * x\<rfloor> < 1"
  using x by (simp_all add: floor_less_iff) linarith+

lemma single_digit: "0 \<le> i \<Longrightarrow> i < 10 \<Longrightarrow> int_str i = [''0123456789'' ! nat i]"
  by (simp add: int_str_def int_digits.simps [of i])

text \<open>
  The digits written end because every step cancels a common factor of the denominator and ten: at
  least a factor of two.
\<close>

lemma read_frac_digits:
  assumes "x = of_int m / of_int d" "0 < d" "d dvd 10 ^ k" "d < 2 ^ n" "0 \<le> x" "x < 1"
  shows "read_frac (frac_digits n x) = x"
  using assms
proof (induction n arbitrary: x m d)
  case 0
  then show ?case by simp
next
  case (Suc n)
  show ?case
  proof (cases "x = 0")
    case False
    let ?z = "\<lfloor>10 * x\<rfloor>"
    note z = next_digit [OF Suc.prems(5,6)]
    have "d \<noteq> 1" using Suc.prems(1,5,6) False by auto
    then have g: "2 \<le> gcd d 10" using divides_power_ten Suc.prems(2,3) by simp
    define g where "g = gcd d 10"
    obtain e where e: "d = g * e" unfolding g_def by (metis dvdE gcd_dvd1)
    obtain t where t: "10 = g * t" unfolding g_def by (metis dvdE gcd_dvd2)
    have g0: "0 < g" using g by (simp add: g_def)
    have e0: "0 < e" using Suc.prems(2) g0 unfolding e by (simp add: zero_less_mult_iff)
    have "10 * x = of_int (t * m) / of_int e"
    proof -
      have "(10::rat) = of_int g * of_int t" using t by (metis of_int_mult of_int_numeral)
      then have "10 * x = (of_int g * of_int t) * (of_int m / (of_int g * of_int e))" using Suc.prems(1) e by simp
      then show ?thesis using e0 g0 by simp
    qed
    then have y: "10 * x - of_int ?z = of_int (t * m - ?z * e) / of_int e" using e0 by (simp add: field_simps)
    have "e dvd 10 ^ k" using Suc.prems(3) e by (metis dvd_mult_right)
    moreover have "2 * e \<le> d" unfolding e using g e0 by (simp add: g_def)
    then have "e < 2 ^ n" using Suc.prems(4) by simp
    ultimately have "read_frac (frac_digits n (10 * x - of_int ?z)) = 10 * x - of_int ?z"
      using Suc.IH [OF y e0] z(3,4) by blast
    then show ?thesis using False digit_char(2) [OF z(1,2)] by (simp add: single_digit [OF z(1,2)])
  qed simp
qed

lemma finite_decimal_denominator:
  assumes "finite_decimal x"
  shows "\<exists>k. snd (quotient_of x) dvd 10 ^ k"
proof -
  from assms obtain k i where k: "x * 10 ^ k = of_int i" by (auto simp: finite_decimal_def Ints_def)
  obtain m d where q: "quotient_of x = (m, d)" by force
  have d: "0 < d" "coprime m d" "x = of_int m / of_int d"
    using q quotient_of_denom_pos quotient_of_coprime quotient_of_div by blast+
  then have "x * of_int d = of_int m" by simp
  then have "(of_int (m * 10 ^ k) :: rat) = (x * 10 ^ k) * of_int d" by simp
  then have "(of_int (m * 10 ^ k) :: rat) = of_int (i * d)" unfolding k by simp
  then have "m * 10 ^ k = i * d" by (simp only: of_int_eq_iff)
  then have "d dvd m * 10 ^ k" by simp
  then have "d dvd 10 ^ k" using d(2) by (simp add: coprime_commute coprime_dvd_mult_right_iff)
  then show ?thesis using q by auto
qed

lemma finite_decimal_frac: "finite_decimal v \<Longrightarrow> finite_decimal (\<bar>v\<bar> - of_int i)"
proof -
  assume "finite_decimal v"
  then obtain k where "v * 10 ^ k \<in> \<int>" by (auto simp: finite_decimal_def)
  then have "\<bar>v\<bar> * 10 ^ k \<in> \<int>" by (metis Ints_abs abs_mult abs_numeral power_abs)
  then have "(\<bar>v\<bar> - of_int i) * 10 ^ k \<in> \<int>" by (simp add: left_diff_distrib Ints_diff Ints_mult Ints_power)
  then show ?thesis by (auto simp: finite_decimal_def)
qed

lemma frac_digits_digits: "0 \<le> x \<Longrightarrow> x < 1 \<Longrightarrow> list_all is_digit (frac_digits n x)"
proof (induction n arbitrary: x)
  case (Suc n)
  note z = next_digit [OF Suc.prems]
  show ?case using Suc.IH [OF z(3,4)] digit_char(1) [OF z(1,2)] by (simp add: single_digit [OF z(1,2)])
qed simp

text \<open>The text of the absolute value, without the sign.\<close>

lemma read_unsigned_text:
  assumes "finite_decimal v" and a: "a = \<bar>v\<bar>" and f: "f = a - of_int \<lfloor>a\<rfloor>"
  shows "read_unsigned (int_str \<lfloor>a\<rfloor> @ (if f = 0 then [] else ''.'' @ frac_digits (floorlog 2 (nat (snd (quotient_of f)))) f)) = a"
proof -
  let ?d = "snd (quotient_of f)"
  have f01: "0 \<le> f" "f < 1" unfolding f by linarith+
  obtain k where k: "?d dvd 10 ^ k" using finite_decimal_denominator finite_decimal_frac [OF assms(1)] a f by blast
  have d0: "0 < ?d" using quotient_of_denom_pos' by blast
  have q: "f = of_int (fst (quotient_of f)) / of_int ?d" by (simp add: quotient_of_div)
  have "nat ?d < 2 ^ floorlog 2 (nat ?d)" using floorlog_bounds [of "nat ?d" 2] d0 by simp
  then have "?d < 2 ^ floorlog 2 (nat ?d)" using d0 by (metis nat_less_iff of_nat_numeral of_nat_power order_less_imp_le)
  then have r: "read_frac (frac_digits (floorlog 2 (nat ?d)) f) = f"
    using read_frac_digits [OF q d0 k] f01 by blast
  have a0: "0 \<le> \<lfloor>a\<rfloor>" using a by simp
  have nodot: "\<forall>c \<in> set (int_str \<lfloor>a\<rfloor>). c \<noteq> CHR ''.''" using int_str_no [of "CHR ''.''" "\<lfloor>a\<rfloor>"] by auto
  have "read_nat (int_str \<lfloor>a\<rfloor>) = \<lfloor>a\<rfloor>" using a0 by (simp add: int_str_def read_int_digits)
  then show ?thesis using nodot r f by (simp add: read_unsigned_def)
qed

lemma int_str_hd: "0 \<le> i \<Longrightarrow> \<exists>c cs. int_str i = c # cs \<and> c \<noteq> CHR ''-''"
proof -
  assume i: "0 \<le> i"
  obtain c cs where c: "int_digits i = c # cs" using int_digits_nonempty by (cases "int_digits i") auto
  with int_digits_digits [OF i] have "c \<noteq> CHR ''-''" by auto
  with c i show ?thesis by (simp add: int_str_def)
qed

lemma read_decimal_text:
  assumes "finite_decimal v"
  shows "read_decimal (decimal_text v) = v"
proof -
  note u = read_unsigned_text [OF assms refl refl]
  obtain c cs where c: "int_str \<lfloor>\<bar>v\<bar>\<rfloor> = c # cs" "c \<noteq> CHR ''-''" using int_str_hd [of "\<lfloor>\<bar>v\<bar>\<rfloor>"] by auto
  show ?thesis
  proof (cases "v < 0")
    case True
    with u show ?thesis by (simp add: read_decimal_def decimal_text_def Let_def)
  next
    case False
    with u c show ?thesis by (simp add: read_decimal_def decimal_text_def Let_def)
  qed
qed

lemma decimal_text_no_bar: "CHR ''|'' \<notin> set (decimal_text v)"
proof -
  have f: "0 \<le> \<bar>v\<bar> - of_int \<lfloor>\<bar>v\<bar>\<rfloor>" "\<bar>v\<bar> - of_int \<lfloor>\<bar>v\<bar>\<rfloor> < 1" by linarith+
  have "CHR ''|'' \<notin> set (frac_digits n (\<bar>v\<bar> - of_int \<lfloor>\<bar>v\<bar>\<rfloor>))" for n
    using frac_digits_digits [OF f, of n] by (auto simp: list_all_iff)
  then show ?thesis using int_str_no [of "CHR ''|''"] by (simp add: decimal_text_def Let_def)
qed

section \<open>The payload of a one-minute bar\<close>

text \<open>The last field after a bar, and the rest: \<open>rsplit("|", 1)\<close>.\<close>

definition rsplit_bar :: "string \<Rightarrow> string \<times> string" where
  "rsplit_bar s =
     (rev (drop 1 (dropWhile (\<lambda>c. c \<noteq> CHR ''|'') (rev s))), rev (takeWhile (\<lambda>c. c \<noteq> CHR ''|'') (rev s)))"

definition read_payload :: "string \<Rightarrow> string \<times> int \<times> int \<times> rat \<times> rat \<times> rat \<times> rat" where
  "read_payload s =
     (let (s, cl) = rsplit_bar s; (s, lo) = rsplit_bar s; (s, hi) = rsplit_bar s; (s, op) = rsplit_bar s;
          (s, ct) = rsplit_bar s; (s, ot) = rsplit_bar s
      in (s, read_int ot, read_int ct, read_decimal op, read_decimal hi, read_decimal lo, read_decimal cl))"

lemma rsplit_bar_last: "CHR ''|'' \<notin> set f \<Longrightarrow> rsplit_bar (s @ CHR ''|'' # f) = (s, f)"
proof -
  assume "CHR ''|'' \<notin> set f"
  then have n: "c \<in> set (rev f) \<Longrightarrow> c \<noteq> CHR ''|''" for c by auto
  show ?thesis
    unfolding rsplit_bar_def rev_append rev.simps append_assoc append_Cons append_Nil
    by (subst dropWhile_append2 [OF n], assumption, subst takeWhile_append2 [OF n], assumption) simp
qed

lemma payload_fields_snoc:
  "payload_fields m ot ct op hi lo cl = (((((m @ CHR ''|'' # int_str ot) @ CHR ''|'' # int_str ct) @
     CHR ''|'' # decimal_text op) @ CHR ''|'' # decimal_text hi) @ CHR ''|'' # decimal_text lo) @ CHR ''|'' # decimal_text cl"
  by (simp add: payload_fields_def)

lemma read_payload_fields:
  assumes "finite_decimal op" "finite_decimal hi" "finite_decimal lo" "finite_decimal cl"
  shows "read_payload (payload_fields m ot ct op hi lo cl) = (m, ot, ct, op, hi, lo, cl)"
  unfolding payload_fields_snoc read_payload_def
  by (simp only: rsplit_bar_last decimal_text_no_bar int_str_no not_digits simp_thms char.inject Let_def case_prod_conv)
    (simp add: rsplit_bar_last int_str_no read_int_str read_decimal_text assms)

definition bar_values :: "one_minute_bar \<Rightarrow> string \<times> int \<times> int \<times> rat \<times> rat \<times> rat \<times> rat" where
  "bar_values b = (om_market_id b, om_open_time_ms b, om_close_time_ms b, om_open b, om_high b, om_low b, om_close b)"

definition bar_payload :: "one_minute_bar \<Rightarrow> string" where
  "bar_payload b = payload_fields (om_market_id b) (om_open_time_ms b) (om_close_time_ms b)
     (om_open b) (om_high b) (om_low b) (om_close b)"

definition finite_prices :: "one_minute_bar \<Rightarrow> bool" where
  "finite_prices b \<longleftrightarrow> finite_decimal (om_open b) \<and> finite_decimal (om_high b) \<and> finite_decimal (om_low b) \<and> finite_decimal (om_close b)"

lemma read_bar_payload: "finite_prices b \<Longrightarrow> read_payload (bar_payload b) = bar_values b"
  by (simp add: finite_prices_def bar_payload_def bar_values_def read_payload_fields)

lemma admitted_bar_hash:
  "make_one_minute_bar H b = Inr b' \<Longrightarrow> b' = b \<and> om_canonical_hash b = hexdigest H (bar_payload b)"
  unfolding make_one_minute_bar_def bar_payload_hash_def hash_payload_def bar_payload_def
  by (simp only: rbind_Inr rguard_Inr) (elim exE conjE, simp)

text \<open>
  C34 (round trip). The text a one-minute bar is hashed over can be read back:
  it determines the market (even one whose name contains the separator), the times and the four prices.
  So two bars the constructor admits carry the same canonical hash exactly if they agree in these values,
  whatever their sources, unless SHA-256 collides on the two texts. Prices are finite decimals.
\<close>

theorem canonical_hash_binds_bar:
  assumes b: "make_one_minute_bar H b = Inr b'" "finite_prices b"
    and c: "make_one_minute_bar H c = Inr c'" "finite_prices c"
    and no_collision: "hexdigest H (bar_payload b) = hexdigest H (bar_payload c) \<Longrightarrow> bar_payload b = bar_payload c"
  shows "read_payload (bar_payload b) = bar_values b \<and>
    (om_canonical_hash b' = om_canonical_hash c' \<longleftrightarrow> bar_values b' = bar_values c')"
proof -
  note r = read_bar_payload [OF b(2)] read_bar_payload [OF c(2)]
  have "bar_values b = bar_values c \<Longrightarrow> bar_payload b = bar_payload c" unfolding bar_values_def bar_payload_def by simp
  then have "bar_payload b = bar_payload c \<longleftrightarrow> bar_values b = bar_values c" using r by metis
  then have "hexdigest H (bar_payload b) = hexdigest H (bar_payload c) \<longleftrightarrow> bar_values b = bar_values c"
    using no_collision by metis
  then show ?thesis using admitted_bar_hash [OF b(1)] admitted_bar_hash [OF c(1)] r(1) by simp
qed

definition text_sha :: hashing where
  "text_sha = \<lparr> hexdigest = (\<lambda>t. replicate 64 (if hd t = CHR ''B'' then CHR ''a'' else CHR ''b'')), dec_str = (\<lambda>_. []) \<rparr>"

definition hashed_minute :: "string \<Rightarrow> string \<Rightarrow> one_minute_bar" where
  "hashed_minute market src = \<lparr> om_market_id = market, om_open_time_ms = 60000, om_close_time_ms = 120000,
     om_open = 10, om_high = 21 / 2, om_low = 39 / 4, om_close = 10,
     om_canonical_hash = replicate 64 (if hd market = CHR ''B'' then CHR ''a'' else CHR ''b''), om_source_id = src \<rparr>"

lemma finite_decimalI: "v * 10 ^ k = of_int i \<Longrightarrow> finite_decimal v"
  unfolding finite_decimal_def by (metis Ints_of_int)

lemma hashed_minute_admitted:
  assumes "market = ''BTC'' \<or> market = ''ETH''" "src = ''ws'' \<or> src = ''rest''"
  shows "make_one_minute_bar text_sha (hashed_minute market src) = Inr (hashed_minute market src)"
    "finite_prices (hashed_minute market src)"
proof -
  have "finite_decimal 10" "finite_decimal (21 / 2)" "finite_decimal (39 / 4)"
    by (rule finite_decimalI [of _ 0 10], simp, rule finite_decimalI [of _ 1 105], simp, rule finite_decimalI [of _ 2 975], simp)
  then show "finite_prices (hashed_minute market src)" by (simp add: finite_prices_def hashed_minute_def)
  show "make_one_minute_bar text_sha (hashed_minute market src) = Inr (hashed_minute market src)"
    using assms by (elim disjE)
      (simp_all add: make_one_minute_bar_def hashed_minute_def text_sha_def exact_identifier_def is_space_def ONE_MINUTE_MS_def
        positive_finite_def bar_payload_hash_def hash_payload_def payload_fields_def list_all_iff)
qed

lemma canonical_hash_binds_bar_witness:
  "\<exists>b c. make_one_minute_bar text_sha b = Inr b \<and> make_one_minute_bar text_sha c = Inr c \<and>
     om_canonical_hash b \<noteq> om_canonical_hash c \<and> bar_values b \<noteq> bar_values c"
proof -
  let ?b = "hashed_minute ''BTC'' ''ws''" and ?c = "hashed_minute ''ETH'' ''rest''"
  have n: "hexdigest text_sha (bar_payload ?b) = hexdigest text_sha (bar_payload ?c) \<Longrightarrow> bar_payload ?b = bar_payload ?c"
    by (simp add: text_sha_def bar_payload_def payload_fields_def hashed_minute_def)
  have "om_canonical_hash ?b \<noteq> om_canonical_hash ?c" by (simp add: hashed_minute_def)
  moreover have a: "make_one_minute_bar text_sha ?b = Inr ?b" "make_one_minute_bar text_sha ?c = Inr ?c"
    by (rule hashed_minute_admitted; simp)+
  moreover have "om_canonical_hash ?b = om_canonical_hash ?c \<longleftrightarrow> bar_values ?b = bar_values ?c"
    using canonical_hash_binds_bar [OF a(1) _ a(2) _ n] hashed_minute_admitted(2) by simp
  ultimately show ?thesis by blast
qed

section \<open>JSON strings\<close>

definition hex_val :: "char \<Rightarrow> nat" where
  "hex_val c = (let n = of_char c :: nat in if n < 58 then n - 48 else n - 87)"

definition json_escaped :: "char \<Rightarrow> char" where
  "json_escaped c =
     (if c = CHR ''n'' then CHR 10 else if c = CHR ''r'' then CHR 13 else if c = CHR ''t'' then CHR 9
      else if c = CHR ''f'' then CHR 12 else if c = CHR ''b'' then CHR 8 else c)"

text \<open>The string up to the closing quote, and what follows it.\<close>

fun read_chars :: "string \<Rightarrow> (string \<times> string) option" where
  "read_chars [] = None"
| "read_chars (c # cs) =
     (if c = CHR 34 then Some ([], cs)
      else if c = CHR 92 then
        (case cs of
           CHR ''u'' # a # b # d # e # r \<Rightarrow>
             map_option (apfst (Cons (char_of (4096 * hex_val a + 256 * hex_val b + 16 * hex_val d + hex_val e)))) (read_chars r)
         | x # r \<Rightarrow> map_option (apfst (Cons (json_escaped x))) (read_chars r)
         | [] \<Rightarrow> None)
      else map_option (apfst (Cons c)) (read_chars cs))"

definition read_json :: "string \<Rightarrow> (string \<times> string) option" where
  "read_json s = (case s of [] \<Rightarrow> None | c # cs \<Rightarrow> if c = CHR 34 then read_chars cs else None)"

lemma special_chars:
  "char_of (34::nat) = CHR 34" "char_of (92::nat) = CHR 92" "char_of (10::nat) = CHR 10" "char_of (13::nat) = CHR 13"
  "char_of (9::nat) = CHR 9" "char_of (12::nat) = CHR 12" "char_of (8::nat) = CHR 8"
  by code_simp+

lemma below_sixteen:
  "(d::nat) < 16 \<Longrightarrow> d = 0 \<or> d = 1 \<or> d = 2 \<or> d = 3 \<or> d = 4 \<or> d = 5 \<or> d = 6 \<or> d = 7 \<or>
     d = 8 \<or> d = 9 \<or> d = 10 \<or> d = 11 \<or> d = 12 \<or> d = 13 \<or> d = 14 \<or> d = 15"
  by presburger

lemma hex_digit: "d < 16 \<Longrightarrow> hex_val (''0123456789abcdef'' ! d) = d"
  by (drule below_sixteen) (elim disjE; simp add: hex_val_def)

lemma hex_value:
  assumes "n < 65536"
  shows "4096 * (n div 4096 mod 16) + 256 * (n div 256 mod 16) + 16 * (n div 16 mod 16) + n mod 16 = (n::nat)"
proof -
  define x y z where d: "x = n div 16" "y = x div 16" "z = y div 16"
  have e: "n div 256 = y" "n div 4096 = z" by (simp_all add: d div_mult2_eq [symmetric])
  have z: "z mod 16 = z" using assms by (simp add: e(2) [symmetric] less_mult_imp_div_less)
  have "n = 16 * x + n mod 16" "x = 16 * y + x mod 16" "y = 16 * z + y mod 16" by (simp_all add: d)
  then show ?thesis unfolding e z d(1) [symmetric] by linarith
qed

lemma read_json_char: "read_chars (json_char ascii c @ rest) = map_option (apfst (Cons c)) (read_chars rest)"
proof -
  define n where "n = (of_char c :: nat)"
  have c: "c = char_of n" by (simp add: n_def)
  have n: "n < 256" unfolding n_def by simp
  have zero: "hex_val CHR ''0'' = 0" by (simp add: hex_val_def)
  consider "n \<in> {34, 92, 10, 13, 9, 12, 8}" | "n \<notin> {34, 92, 10, 13, 9, 12, 8}" "n < 32 \<or> ascii \<and> 126 < n"
    | "n \<notin> {34, 92, 10, 13, 9, 12, 8}" "\<not> (n < 32 \<or> ascii \<and> 126 < n)" by blast
  then show ?thesis
  proof cases
    case 1
    then show ?thesis by (elim insertE emptyE) (simp_all add: c json_char_def json_escaped_def special_chars)
  next
    case 2
    then have "json_char ascii c = CHR 92 # CHR ''u'' # hex4 n" by (simp add: json_char_def flip: n_def)
    then show ?thesis using n by (simp add: hex4_def hex_digit hex_value zero flip: c)
  next
    case 3
    then have "json_char ascii c = [c]" by (simp add: json_char_def flip: n_def)
    moreover have "c \<noteq> CHR 34" "c \<noteq> CHR 92" using 3(1) n_def by auto
    ultimately show ?thesis by simp
  qed
qed

lemma read_json_string: "read_json (json_string ascii s @ rest) = Some (s, rest)"
proof -
  have "read_chars (concat (map (json_char ascii) s) @ CHR 34 # rest) = Some (s, rest)"
    by (induction s) (simp_all add: read_json_char)
  then show ?thesis by (simp add: read_json_def json_string_def)
qed

section \<open>Claim tokens\<close>

text \<open>The text a claim token is the digest of names the attempt and the message.\<close>

definition read_claim :: "string \<Rightarrow> (int \<times> string) option" where
  "read_claim s =
     (let t = drop (length (''{'' @ json_string False ''attempt_count'' @ '':'')) s;
          a = takeWhile (\<lambda>c. c \<noteq> CHR '','') t;
          u = drop (length a + length ('','' @ json_string False ''claimed_at'' @ '':'')) t
      in case read_json u of
           None \<Rightarrow> None
         | Some (_, v) \<Rightarrow>
             map_option (\<lambda>(k, _). (read_int a, k)) (read_json (drop (length ('','' @ json_string False ''idempotency_key'' @ '':'')) v)))"

lemma read_claim_text: "read_claim (claim_text now n k) = Some (n, k)"
proof -
  have n: "c \<in> set (int_str n) \<Longrightarrow> c \<noteq> CHR '',''" for c using int_str_no [of "CHR '',''" n] by auto
  have t: "takeWhile (\<lambda>c. c \<noteq> CHR '','') (int_str n @ '','' @ x) = int_str n" for x
    by (subst takeWhile_append2 [OF n]) simp_all
  have d: "drop (length a) (a @ x) = x" for a x :: string by simp
  define A where "A = ''{'' @ json_string False ''attempt_count'' @ '':''"
  define B where "B = json_string False ''claimed_at'' @ '':''"
  define C where "C = '','' @ json_string False ''idempotency_key'' @ '':''"
  have b: "drop (length (int_str n) + length ('','' @ B)) (int_str n @ '','' @ B @ x) = x" for x by simp
  have "read_claim (A @ (int_str n @ '','' @ B @ json_string False (timestamp now) @ C @ json_string False k @ ''}'')) = Some (n, k)"
    unfolding read_claim_def A_def [symmetric] B_def [symmetric] C_def [symmetric] d Let_def t b
    by (simp add: read_json_string read_int_str)
  then show ?thesis by (simp add: A_def B_def C_def claim_text_def)
qed

end
