(* ===== verification/Delivery_Bound.thy ===== *)
theory Delivery_Bound
  imports Delivery_Props Texts
begin

text \<open>
  The SQLite outbox implements the port: the table with its primary key and its unique index on claim
  tokens satisfies the contract. The bound on posts follows for every interleaving of workers.
\<close>

section \<open>The table as a store\<close>


















section \<open>The operations keep the contract\<close>

















section \<open>Claims return\<close>












section \<open>Bounded delivery\<close>













definition sample_message :: message_envelope where
  "sample_message = \<lparr> me_schema_version = ''1'', me_kind = FORMAL_SIGNAL, me_idempotency_key = ''k'', me_content = ''c'',
     me_created_at = 63900000000000000 \<rparr>"

















section \<open>Texts of instants are not in the order of the instants\<close>

text \<open>
  \<open>isoformat\<close> leaves out a zero fraction, and the columns are compared as text: half a second past a
  full second sorts before it. A lease that ends at the half second counts as expired at the full second.
\<close>

lemma lease_expires_early:
  "63900000030000000 < (63900000030500000 :: instant) \<and> timestamp 63900000030500000 < timestamp 63900000030000000 \<and>
   claim_free 63900000030000000 \<lparr> ob_envelope = sample_message, ob_state = DS_PENDING, ob_attempt_count = 1,
     ob_next_attempt_at = 63900000000000000, ob_claim_token = Some ''t'', ob_claim_expires_at = Some 63900000030500000,
     ob_completed_at = None, ob_response_status = None, ob_last_reason = None \<rparr>"
  by code_simp

end
