(* ===== verification/Spec2Isabelle.thy ===== *)
theory Spec2Isabelle
  imports Engine_Theorems Scanner_Props Outcome_Recovery Planning_Gates Delivery_Bound
begin

text \<open>
  \<^bold>\<open>Verification of the multi-asset shadow program\<close>,
  \<^verbatim>\<open>src/src/trader_assist_v0/multi_asset_shadow\<close>, written \<open>mas/\<close> below.

  \<^bold>\<open>The program.\<close> Closed 5m candles of many markets enter a deterministic strategy kernel. It aggregates
  them to 15m and 1h bars and computes indicators (\<^verbatim>\<open>mas/strategy_kernel/indicators.py\<close>), finds support
  and resistance zones (\<^verbatim>\<open>zones.py\<close>), scans the cross section of markets for candidates (\<^verbatim>\<open>scanner.py\<close>)
  and drives a ledger of market events through sweep, breakout and range setups (\<^verbatim>\<open>engine.py\<close>). A
  confirmed decision is given a structural target (\<^verbatim>\<open>mas/integration.py\<close>) and, if it passes the gates on
  book, quote, slippage and reward, becomes a plan (\<^verbatim>\<open>mas/planning.py\<close>). The outcome engine
  (\<^verbatim>\<open>mas/outcome_engine\<close>) follows the plan over 1m bars and recovers missing minutes from a provider.
  Messages about signals go through a durable outbox (\<^verbatim>\<open>mas/integration.py\<close>, class \<open>EvidenceOutbox\<close>, and
  \<^verbatim>\<open>mas/shadow_records/store.py\<close>) and are delivered by a dispatcher with bounded retries
  (\<^verbatim>\<open>mas/notification_engine\<close>).

  \<^bold>\<open>Conventions.\<close> A class with its constructor checks is a record \<open>r\<close> and a function \<open>make_r\<close> that returns the
  record or the exception; an enumeration is a datatype with the source's names; a function or method
  keeps its name, without a leading underscore and with a suffix where HOL has the name. An exception is
  the left summand of \<open>'a res\<close>, in the order in which the code tests. An object with state is a record that
  operations take and return. Dictionaries are association lists where their order can be observed and
  maps otherwise. A \<open>Decimal\<close> is a rational number, every operation rounding to 28 significant digits half
  to even as the default context does; Python integers are \<open>int\<close>; binary64 products are rounded by
  \<open>float_of\<close>. SHA-256 and the text of a decimal are a parameter \<open>H\<close> of type \<open>hashing\<close>; the 1m provider and
  the HTTP client are parameters too. A property that needs something of a parameter says so: digests
  that are not empty, or tell certain texts apart, a provider that returns what is asked for.

  \<^bold>\<open>The theories.\<close>

  \<^item> \<^verbatim>\<open>Prelude\<close>: results, loops that may raise, Python sequences, fact collections.
  \<^item> \<^verbatim>\<open>Decimal_Arith\<close>: decimal arithmetic. The locale \<open>decimal_context\<close> states the laws of a rounding
    (monotone, odd, exact on what it can represent) and is interpreted for every precision and for the
    context the program uses; the lemmas on differences, products and quotients follow from it.
  \<^item> \<^verbatim>\<open>Clock\<close>: instants, \<open>datetime.isoformat\<close>, rounding to binary64.
  \<^item> \<^verbatim>\<open>Kernel_Types\<close> (\<^verbatim>\<open>types.py\<close>): bars, zones, decisions, market events and the event ledger.
  \<^item> \<^verbatim>\<open>Indicators\<close> (\<^verbatim>\<open>indicators.py\<close>): series checks, aggregation, average true range, volume median, close
    location, efficiency, pivots and the higher-timeframe context. Aggregation equals a reference that
    slices the series, is causal and yields valid bars; the average true range follows its recursion and
    is positive; the efficiency is between 0 and 1.
  \<^item> \<^verbatim>\<open>Zones\<close> (\<^verbatim>\<open>zones.py\<close>): reactions, clusters, overlap suppression, the zone book. The book is always
    returned and its zones partition the reactions; suppression is an instance of the locale
    \<open>greedy_selection\<close>; reactions are the qualifying pivots; active levels are the nearest fresh zones.
  \<^item> \<^verbatim>\<open>Engine\<close> (\<^verbatim>\<open>engine.py\<close>): progress and creation of events for the three setups, invalidation, invalid
    data, shutdown, \<open>evaluate_strategy\<close>. \<^verbatim>\<open>Engine_Ledger\<close>: an abstract ledger machine, and the locales
    \<open>ledger_pass\<close> and \<open>clearing_pass\<close> for the loops over a ledger, interpreted on the loops of the code.
    \<^verbatim>\<open>Engine_Props\<close>: well-formed events and ledgers, reachable ledgers (\<open>kernel_reach\<close>). \<^verbatim>\<open>Engine_Theorems\<close>:
    evaluations are runs of the machine; uniqueness, immutability of history, totality, rules and price
    order of confirmations, clearing of the opposite side, invalid data and shutdown.
  \<^item> \<^verbatim>\<open>Scanner\<close> and \<^verbatim>\<open>Scanner_Props\<close> (\<^verbatim>\<open>scanner.py\<close>): metrics, tails, discovery and the candidate state
    machine. Candidates resolve, logs are paths, readiness needs an earlier touch, the scan does not
    depend on the order of its inputs, tail sizes are exact.
  \<^item> \<^verbatim>\<open>Outcome_Models\<close>, \<^verbatim>\<open>Outcome\<close> (\<^verbatim>\<open>outcome_engine/models.py\<close>, \<^verbatim>\<open>engine.py\<close>): plan views, 1m bars, attachment,
    admission, conflicts, recovery, evaluation, ticks, pruning, reconstruction. \<^verbatim>\<open>Outcome_Props\<close>: paths
    against a declarative reading; admission against sets of hashes (locale \<open>hash_evidence\<close>).
    \<^verbatim>\<open>Outcome_Final\<close>: finality and pruning. \<^verbatim>\<open>Outcome_Recovery\<close>: requests and recovery.
  \<^item> \<^verbatim>\<open>Planning\<close> (\<^verbatim>\<open>planning.py\<close>, and target and view of \<^verbatim>\<open>integration.py\<close>), \<^verbatim>\<open>Planning_Props\<close>: legal prices.
    \<^verbatim>\<open>Planning_Gates\<close>: the walk over the book, the gates of an accepted plan, and that an accepted plan is
    a view the outcome engine takes.
  \<^item> \<^verbatim>\<open>Delivery\<close> (\<^verbatim>\<open>notification_engine/models.py\<close>, \<^verbatim>\<open>delivery.py\<close>, \<^verbatim>\<open>outbox.py\<close>, \<open>EvidenceOutbox\<close>, and the
    outbox part of \<open>publish_formal_bundle\<close>): envelopes, adapter, retries, outbox, dispatcher. \<^verbatim>\<open>Delivery_Props\<close>:
    the locale \<open>outbox_port\<close> states the contract of the outbox; workers are the step relation \<open>worker_step\<close>,
    and the bound on posts is proved from the contract. \<^verbatim>\<open>Delivery_Bound\<close>: the table of the code is an
    interpretation. \<^verbatim>\<open>Texts\<close>: readers for hashed texts.

  \<^bold>\<open>How the parts meet.\<close> \<open>evaluate_strategy\<close> takes the zone book and the indicators of the same bars. The
  decision it confirms goes through \<open>resolve_structural_target\<close>, \<open>make_plan\<close> and \<open>formal_view\<close> to \<open>make_view\<close> and
  \<open>attach\<close> of the outcome engine; one property spans these parts. The dispatcher is given its outbox as two
  operations and is proved against their contract, then run on the table.

  \<^bold>\<open>Bounds.\<close> All loops are recursions over lists or have a termination proof; there is no fuel. The bounds in
  hypotheses are those of exact arithmetic: prices on a grid with at most 26 digits for the efficiency and
  for plans, coefficients below \<open>10 ^ 28\<close>, fewer than \<open>2 ^ 40\<close> markets for the tail sizes. A breakout
  candidate is terminal after thirteen bars, which is the bound of the code.

  \<^bold>\<open>Not modelled.\<close> Exponents of decimals: \<open>1.0\<close> and \<open>1.00\<close> are the same rational number, so where the code
  hashes the text of a decimal the model hashes a text of its value; no property depends on that text
  except through \<open>H\<close>. NaN, infinities and the limits of the exponent range. Characters beyond the first 256
  and \<open>casefold\<close> of other than ASCII letters. Instants of the last representable year. SQLite itself: a
  transaction is a function on the rows that is applied or not. The asyncio runtime, composition,
  registry, provider adapter, stores of immutable records, message rendering, correlation report, and the
  packages beside \<open>mas/\<close>, which are input, output, wiring, or separate programs.
\<close>

end
